(* ===== verification/Prelude.thy ===== *)
theory Prelude
  imports Main "HOL-Library.Word" "HOL-Library.Monad_Syntax"
begin

text \<open>
  Shared vocabulary of the development: the C integer types, the cells of a C array with the
  bounds check that C does not make, the bounded \<open>for\<close> loop, the interface \<open>cell_store\<close> of
  everything that is read and written cell by cell (arrays, register files, byte memories), and
  the interface \<open>step_system\<close> of a transition function that keeps an invariant.

  A computation of the C program is a value of an \<open>option\<close> type; \<open>None\<close> stands for
  undefined behaviour of the C code (an access outside an array, a null pointer dereference, a
  read of an uninitialised pointer).  Return codes, failures and early returns are ordinary
  values and never \<open>None\<close>.
\<close>

unbundle bit_operations_syntax

type_synonym u8 = "8 word"
type_synonym u16 = "16 word"
type_synonym u32 = "32 word"
type_synonym u64 = "64 word"

named_theorems wf_intros "well-formedness is kept by the operations"
named_theorems core_simps "the operations on well-formed states as total functions"

section \<open>Unsigned integers\<close>

lemma unat_u32_less: "unat (a :: u32) < 2 ^ 32"
  using unsigned_less [where ?'a = nat, of a] by simp

lemma unat_u8_less: "unat (a :: u8) < 256"
  using unsigned_less [where ?'a = nat, of a] by simp

lemma unat_add_no_wrap: "unat a + k < 2 ^ 32 \<Longrightarrow> unat (a + word_of_nat k :: u32) = unat a + k"
  by (simp add: unat_word_ariths unat_of_nat)

lemma odd_unat_iff: "odd (unat (a :: 'a::len word)) \<longleftrightarrow> bit a 0"
proof -
  have "bit (unat a) 0 = bit a 0" by (simp only: bit_unsigned_iff) simp
  then show ?thesis by (simp add: bit_0)
qed

section \<open>C booleans\<close>

definition of_c_bool :: "bool \<Rightarrow> u32" where
  "of_c_bool b = (if b then 1 else 0)"

lemma of_c_bool_simps [simp]:
  "of_c_bool True = 1" "of_c_bool False = 0"
  "of_c_bool b = 1 \<longleftrightarrow> b" "of_c_bool b = 0 \<longleftrightarrow> \<not> b"
  by (simp_all add: of_c_bool_def)

lemma of_c_bool_le [simp]: "of_c_bool b \<le> 1"
  by (simp add: of_c_bool_def)

lemma of_c_bool_eq_iff [simp]: "of_c_bool a = of_c_bool b \<longleftrightarrow> a = b"
  by (simp add: of_c_bool_def)

section \<open>C arrays\<close>

text \<open>An array is a list of the allocated length; an access outside it is undefined.\<close>

definition aget :: "'a list \<Rightarrow> nat \<Rightarrow> 'a option" where
  "aget xs i = (if i < length xs then Some (xs ! i) else None)"

definition aset :: "'a list \<Rightarrow> nat \<Rightarrow> 'a \<Rightarrow> 'a list option" where
  "aset xs i v = (if i < length xs then Some (xs[i := v]) else None)"

lemma aget_Some [simp]: "i < length xs \<Longrightarrow> aget xs i = Some (xs ! i)"
  by (simp add: aget_def)

lemma aget_None [simp]: "length xs \<le> i \<Longrightarrow> aget xs i = None"
  by (simp add: aget_def)

lemma aset_Some [simp]: "i < length xs \<Longrightarrow> aset xs i v = Some (xs[i := v])"
  by (simp add: aset_def)

lemma aset_None [simp]: "length xs \<le> i \<Longrightarrow> aset xs i v = None"
  by (simp add: aset_def)

lemma length_aset: "aset xs i v = Some ys \<Longrightarrow> length ys = length xs"
  by (auto simp: aset_def split: if_splits)

section \<open>Bounded loops\<close>

text \<open>
  \<open>for_each body is s\<close> is the C loop that runs \<open>body\<close> for the indices \<open>is\<close> in order.
\<close>

fun for_each :: "('i \<Rightarrow> 's \<Rightarrow> 's option) \<Rightarrow> 'i list \<Rightarrow> 's \<Rightarrow> 's option" where
  "for_each body [] s = Some s"
| "for_each body (i # is) s = do { t \<leftarrow> body i s; for_each body is t }"

lemma for_each_append:
  "for_each body (is @ js) s = do { t \<leftarrow> for_each body is s; for_each body js t }"
  by (induction "is" arbitrary: s) (simp_all split: Option.bind_split)

text \<open>A loop whose body keeps an invariant and never fails under it does not fail.\<close>

lemma for_each_total:
  assumes "\<And>i s. i \<in> set is \<Longrightarrow> P s \<Longrightarrow> \<exists>t. body i s = Some t \<and> P t"
    and "P s"
  shows "\<exists>t. for_each body is s = Some t \<and> P t"
  using assms
proof (induction "is" arbitrary: s)
  case Nil
  then show ?case by simp
next
  case (Cons i "is")
  from Cons.prems obtain t where t: "body i s = Some t" "P t"
    by (meson list.set_intros(1))
  have "\<exists>u. for_each body is t = Some u \<and> P u"
    by (rule Cons.IH) (use Cons.prems(1) t in auto)
  with t show ?case by simp
qed

lemma for_each_fold:
  assumes "\<And>i s. i \<in> set is \<Longrightarrow> P s \<Longrightarrow> body i s = Some (f i s) \<and> P (f i s)"
    and "P s"
  shows "for_each body is s = Some (fold f is s)"
  using assms by (induction "is" arbitrary: s) auto

section \<open>Stores of cells\<close>

text \<open>The writes \<open>xs\<close>, one after the other, and the reads of the cells \<open>is\<close>.\<close>

definition puts :: "('s \<Rightarrow> 'i \<Rightarrow> 'v \<Rightarrow> 's option) \<Rightarrow> ('i \<times> 'v) list \<Rightarrow> 's \<Rightarrow> 's option" where
  "puts put = for_each (\<lambda>(i, v) s. put s i v)"

lemma puts_simps [simp]:
  "puts put [] s = Some s"
  "puts put ((i, v) # xs) s = do { t \<leftarrow> put s i v; puts put xs t }"
  by (simp_all add: puts_def)

fun gets :: "('s \<Rightarrow> 'i \<Rightarrow> 'v option) \<Rightarrow> 'i list \<Rightarrow> 's \<Rightarrow> 'v list option" where
  "gets get [] s = Some []"
| "gets get (i # is) s = do { v \<leftarrow> get s i; vs \<leftarrow> gets get is s; Some (v # vs) }"

lemma gets_cong:
  "(\<And>i. i \<in> set is \<Longrightarrow> get s i = get' t i) \<Longrightarrow> gets get is s = gets get' is t"
  by (induction "is") auto

lemma gets_eq_map:
  "(\<And>i. i \<in> set is \<Longrightarrow> get s i = Some (f i)) \<Longrightarrow> gets get is s = Some (map f is)"
  by (induction "is") auto

text \<open>
  What a client may rely on when it reads and writes cells: accesses to the cells of the store
  are defined, a write keeps the invariant and the set of cells, and it changes the cell it
  names and no other.
\<close>

locale cell_store =
  fixes get :: "'s \<Rightarrow> 'i \<Rightarrow> 'v option"
    and put :: "'s \<Rightarrow> 'i \<Rightarrow> 'v \<Rightarrow> 's option"
    and inv :: "'s \<Rightarrow> bool"
    and cells :: "'s \<Rightarrow> 'i set"
  assumes get_defined: "inv s \<Longrightarrow> i \<in> cells s \<Longrightarrow> \<exists>v. get s i = Some v"
    and put_defined: "inv s \<Longrightarrow> i \<in> cells s \<Longrightarrow> \<exists>t. put s i v = Some t"
    and put_inv: "inv s \<Longrightarrow> i \<in> cells s \<Longrightarrow> put s i v = Some t \<Longrightarrow> inv t"
    and put_cells: "inv s \<Longrightarrow> i \<in> cells s \<Longrightarrow> put s i v = Some t \<Longrightarrow> cells t = cells s"
    and get_put: "inv s \<Longrightarrow> i \<in> cells s \<Longrightarrow> j \<in> cells s \<Longrightarrow> put s i v = Some t
      \<Longrightarrow> get t j = (if j = i then Some v else get s j)"
begin

lemma get_put_same: "inv s \<Longrightarrow> i \<in> cells s \<Longrightarrow> put s i v = Some t \<Longrightarrow> get t i = Some v"
  by (simp add: get_put)

lemma get_put_other:
  "inv s \<Longrightarrow> i \<in> cells s \<Longrightarrow> j \<in> cells s \<Longrightarrow> j \<noteq> i \<Longrightarrow> put s i v = Some t \<Longrightarrow> get t j = get s j"
  by (simp add: get_put)

text \<open>A sequence of writes to cells of the store leaves in each cell the last value written.\<close>

lemma puts_get:
  assumes "inv s" and "fst ` set xs \<subseteq> cells s"
  shows "\<exists>t. puts put xs s = Some t \<and> inv t \<and> cells t = cells s
    \<and> (\<forall>j \<in> cells s. get t j = (case map_of (rev xs) j of Some v \<Rightarrow> Some v | None \<Rightarrow> get s j))"
  using assms
proof (induction xs rule: rev_induct)
  case Nil
  then show ?case by simp
next
  case (snoc x xs)
  obtain i v where x: "x = (i, v)" by (cases x)
  from snoc obtain t where t: "puts put xs s = Some t" "inv t" "cells t = cells s"
    and get: "\<forall>j \<in> cells s. get t j = (case map_of (rev xs) j of Some v \<Rightarrow> Some v | None \<Rightarrow> get s j)"
    by auto
  from snoc.prems x t(3) have i: "i \<in> cells t" by auto
  then obtain u where u: "put t i v = Some u" using put_defined t(2) by blast
  have "puts put (xs @ [x]) s = Some u"
    using t(1) u by (simp add: puts_def for_each_append x)
  moreover have "inv u" "cells u = cells s"
    using put_inv [OF t(2) i u] put_cells [OF t(2) i u] t(3) by auto
  moreover have "get u j = (case map_of (rev (xs @ [x])) j of Some v \<Rightarrow> Some v | None \<Rightarrow> get s j)"
    if "j \<in> cells s" for j
    using get_put [OF t(2) i _ u, of j] that get t(3) x by auto
  ultimately show ?case by blast
qed

text \<open>Writing values to distinct cells and reading the cells gives the values back.\<close>

lemma gets_puts:
  assumes "inv s" and "set is \<subseteq> cells s" and "distinct is" and "length vs = length is"
    and "puts put (zip is vs) s = Some t"
  shows "gets get is t = Some vs"
proof -
  have sub: "fst ` set (zip is vs) \<subseteq> cells s"
    using assms(2,4) by (auto dest: set_zip_leftD)
  have dist: "distinct (map fst (rev (zip is vs)))"
    using assms(3,4) by (simp add: rev_map [symmetric])
  have "get t i = map_of (zip is vs) i" if "i \<in> set is" for i
  proof -
    from that assms(4) obtain v where v: "(i, v) \<in> set (zip is vs)"
      by (metis in_set_impl_in_set_zip1)
    with dist have "map_of (rev (zip is vs)) i = Some v"
      by (metis map_of_is_SomeI set_rev)
    moreover from v assms(3,4) have "map_of (zip is vs) i = Some v"
      by (simp add: map_of_is_SomeI)
    moreover have "i \<in> cells s" using that assms(2) by auto
    ultimately show ?thesis
      using puts_get [OF assms(1) sub] assms(5) by auto
  qed
  then have "gets get is t = gets (\<lambda>m i. map_of m i) is (zip is vs)"
    by (intro gets_cong) simp
  also have "\<dots> = Some vs"
    using assms(3,4)
  proof (induction "is" vs rule: list_induct2')
    case (4 i "is" v vs)
    have "gets (\<lambda>m. map_of m) is (zip (i # is) (v # vs)) = gets (\<lambda>m. map_of m) is (zip is vs)"
      by (rule gets_cong) (use 4(2) in auto)
    with 4 show ?case by simp
  qed auto
  finally show ?thesis .
qed

end

interpretation arr: cell_store aget aset "\<lambda>_. True" "\<lambda>xs. {..<length xs}"
  by unfold_locales (auto simp: aget_def aset_def split: if_splits)

section \<open>Transition functions\<close>

text \<open>
  A component that is stepped: each defined step of a state that satisfies the invariant
  satisfies it again.  A run is \<open>for_each\<close> over a list of inputs; the client gets the
  invariant of every state of a run.
\<close>

locale step_system =
  fixes step :: "'e \<Rightarrow> 's \<Rightarrow> 's option" and inv :: "'s \<Rightarrow> bool"
  assumes step_inv: "inv s \<Longrightarrow> step e s = Some t \<Longrightarrow> inv t"
begin

lemma run_inv: "inv s \<Longrightarrow> for_each step es s = Some t \<Longrightarrow> inv t"
  by (induction es arbitrary: s) (auto simp: Option.bind_eq_Some_conv dest: step_inv)

text \<open>A run that is defined is defined, and in the invariant, after each of its prefixes.\<close>

lemma run_prefix_inv:
  assumes "inv s" "for_each step (es @ es') s = Some t"
  shows "\<exists>u. for_each step es s = Some u \<and> inv u \<and> for_each step es' u = Some t"
  using assms run_inv by (fastforce simp: for_each_append Option.bind_eq_Some_conv)

end

end
