(* ===== verification/Util.thy ===== *)
theory Util
  imports Prelude
begin

text \<open>
  \<open>util.h\<close> and \<open>util.c\<close>: the bit macros on 32-bit values, the two shift helpers \<open>asr\<close> and
  \<open>ror\<close>, and the test of the host's byte order.

  The helpers shift by counts that C leaves undefined when they reach the width of the operand
  (\<open>ror\<close> is called with 0 and then shifts by \<open>32 - 0\<close>).  What the compiled program computes
  there depends on the host, and so does \<open>is_big_endian\<close>; both are fields of the record
  \<open>host\<close>, which every definition that depends on them takes as an argument.  The two kinds of
  shifters are those of the processors C compilers emit a plain shift instruction for: the count
  is taken modulo 32 (x86), or counts of 32 and more give 0 (ARM).
\<close>

datatype shifter = Masking | Saturating

record host =
  host_shifter :: shifter
  host_big_endian :: bool

section \<open>Bit macros\<close>

definition get_bit :: "u32 \<Rightarrow> nat \<Rightarrow> u32" where
  "get_bit x i = drop_bit i x AND 1"

definition set_bit_macro :: "u32 \<Rightarrow> nat \<Rightarrow> u32" where
  "set_bit_macro x i = x OR push_bit i 1"

definition clr_bit :: "u32 \<Rightarrow> nat \<Rightarrow> u32" where
  "clr_bit x i = x AND NOT (push_bit i 1)"

text \<open>\<open>~0\<close> is the \<open>int\<close> \<open>-1\<close>: its right shift is arithmetic.\<close>

definition get_bits :: "u32 \<Rightarrow> nat \<Rightarrow> nat \<Rightarrow> u32" where
  "get_bits x h l = drop_bit l x
     AND NOT (push_bit (h - l + 1) (signed_drop_bit (h - l + 1) (NOT 0)))"

definition set_bits_macro :: "u32 \<Rightarrow> nat \<Rightarrow> nat \<Rightarrow> u32 \<Rightarrow> u32" where
  "set_bits_macro x h l bits =
     (x AND NOT (push_bit l (signed_drop_bit l (NOT 0))))
     OR (x AND push_bit (h + 1) (signed_drop_bit (h + 1) (NOT 0)))
     OR push_bit l bits"

definition reverse_2 :: "u32 \<Rightarrow> u32" where
  "reverse_2 x = push_bit 8 (x AND 0xFF) OR (drop_bit 8 x AND 0xFF)"

definition reverse_4 :: "u32 \<Rightarrow> u32" where
  "reverse_4 x = push_bit 24 (x AND 0xFF) OR push_bit 16 (drop_bit 8 x AND 0xFF)
     OR push_bit 8 (drop_bit 16 x AND 0xFF) OR (drop_bit 24 x AND 0xFF)"

section \<open>Shifts\<close>

definition host_count :: "host \<Rightarrow> int \<Rightarrow> nat option" where
  "host_count h n =
     (if 0 \<le> n \<and> n < 32 then Some (nat n)
      else case host_shifter h of Masking \<Rightarrow> Some (nat (n mod 32)) | Saturating \<Rightarrow> None)"

definition host_shl :: "host \<Rightarrow> u32 \<Rightarrow> int \<Rightarrow> u32" where
  "host_shl h x n = (case host_count h n of Some k \<Rightarrow> push_bit k x | None \<Rightarrow> 0)"

definition host_shr :: "host \<Rightarrow> u32 \<Rightarrow> int \<Rightarrow> u32" where
  "host_shr h x n = (case host_count h n of Some k \<Rightarrow> drop_bit k x | None \<Rightarrow> 0)"

definition asr :: "host \<Rightarrow> u32 \<Rightarrow> u8 \<Rightarrow> u32" where
  "asr h value shift = host_shr h value (uint shift)
     OR (if get_bit value 31 \<noteq> 0 then host_shl h (NOT 0) (32 - uint shift) else 0)"

definition ror :: "host \<Rightarrow> u32 \<Rightarrow> u8 \<Rightarrow> u32" where
  "ror h value rotation = host_shr h value (uint rotation) OR host_shl h value (32 - uint rotation)"

definition is_big_endian :: "host \<Rightarrow> bool" where
  "is_big_endian h = host_big_endian h"

section \<open>The macros bit by bit\<close>

lemma upt_32: "[0..<32] = [0,1,2,3,4,5,6,7,8,9,10,11,12,13,14,15,16,17,18,19,20,21,22,23,24,25,
    26,27,28,29,30,31::nat]"
  by (simp add: upt_rec)

text \<open>Equality of 32-bit words, bit position by bit position.\<close>

lemma word32_eqI: "\<forall>n \<in> set [0..<32]. bit x n = bit y n \<Longrightarrow> x = (y :: u32)"
  by (rule bit_word_eqI) auto

lemma get_bit_eq: "get_bit x i = of_bool (bit x i)"
  by (rule bit_word_eqI) (auto simp: get_bit_def bit_simps bit_1_iff)

lemma get_bit_simps [simp]:
  "get_bit x i = 1 \<longleftrightarrow> bit x i" "get_bit x i = 0 \<longleftrightarrow> \<not> bit x i"
  by (simp_all add: get_bit_eq)

lemma get_bit_c_bool: "get_bit x i = of_c_bool (bit x i)"
  by (simp add: get_bit_eq of_c_bool_def)

lemma get_bits_eq:
  assumes "l \<le> h" "h < 32"
  shows "get_bits x h l = take_bit (h - l + 1) (drop_bit l x)"
  using assms
  by (intro bit_word_eqI) (auto simp: get_bits_def bit_simps)

lemma bit_get_bits:
  "l \<le> h \<Longrightarrow> h < 32 \<Longrightarrow> bit (get_bits x h l) n \<longleftrightarrow> n \<le> h - l \<and> bit x (n + l)"
  by (auto simp: get_bits_eq bit_simps add.commute less_Suc_eq_le dest: bit_imp_le_length)

lemma get_bits_less:
  assumes "l \<le> h" "h < 32"
  shows "unat (get_bits x h l) < 2 ^ (h - l + 1)"
proof -
  have "unat (get_bits x h l) = take_bit (h - l + 1) (unat (drop_bit l x))"
    using assms by (simp add: get_bits_eq unsigned_take_bit_eq del: take_bit_Suc)
  then show ?thesis by (simp only: take_bit_nat_less_exp)
qed

lemma bit_set_bit_macro: "bit (set_bit_macro x i) n \<longleftrightarrow> n < 32 \<and> (n = i \<or> bit x n)"
  by (auto simp: set_bit_macro_def bit_simps bit_1_iff dest: bit_imp_le_length)

lemma bit_clr_bit: "bit (clr_bit x i) n \<longleftrightarrow> n \<noteq> i \<and> bit x n"
  by (auto simp: clr_bit_def bit_simps bit_1_iff dest: bit_imp_le_length)

lemma get_bits_set_bits:
  assumes "l \<le> h" "h < 31" "v = take_bit (h - l + 1) v"
  shows "get_bits (set_bits_macro x h l v) h l = v"
proof (rule bit_word_eqI)
  fix n assume "n < LENGTH(32)"
  have v: "bit v n \<longleftrightarrow> n \<le> h - l \<and> bit v n" by (subst assms(3)) (auto simp: bit_simps)
  show "bit (get_bits (set_bits_macro x h l v) h l) n = bit v n"
    using assms(1,2) v \<open>n < _\<close>
    by (auto simp: get_bits_def set_bits_macro_def bit_simps)
qed

lemma reverse_4_involution: "reverse_4 (reverse_4 x) = x"
  by (rule word32_eqI) (simp add: reverse_4_def bit_simps upt_32)

section \<open>The shift helpers\<close>

lemma shift_count:
  assumes "0 < s" "s < (32 :: u8)"
  shows "0 < unat s" "unat s < 32" "0 < uint s" "uint s < 32"
    "nat (uint s) = unat s" "nat (32 - uint s) = 32 - unat s"
proof -
  have "int (unat s) = uint s" by simp
  moreover show "0 < unat s" "unat s < 32"
    using assms by (auto simp: word_less_nat_alt unat_gt_0)
  ultimately show "0 < uint s" "uint s < 32"
    "nat (uint s) = unat s" "nat (32 - uint s) = 32 - unat s"
    by linarith+
qed

lemmas host_shift_defs = host_shl_def host_shr_def host_count_def

text \<open>Inside the range of C's shifts, \<open>asr\<close> is the arithmetic shift of two's complement.\<close>

lemma asr_eq:
  assumes "0 < s" "s < 32"
  shows "asr h x s = signed_drop_bit (unat s) x"
proof -
  note s = shift_count [OF assms]
  have "asr h x s = drop_bit (unat s) x OR (if bit x 31 then push_bit (32 - unat s) (NOT 0) else 0)"
    using s by (simp add: asr_def get_bit_eq host_shift_defs)
  also have "\<dots> = signed_drop_bit (unat s) x"
  proof (rule bit_word_eqI)
    fix n assume "n < LENGTH(32)"
    then have n: "n < 32" by simp
    have b: "bit (signed_drop_bit (unat s) x) n \<longleftrightarrow>
        (if 32 - unat s \<le> n then bit x 31 else bit x (unat s + n))"
      using n by (simp add: bit_signed_drop_bit_iff)
    show "bit (drop_bit (unat s) x OR (if bit x 31 then push_bit (32 - unat s) (NOT 0) else 0)) n
      = bit (signed_drop_bit (unat s) x) n"
      unfolding b using s(1,2) n
      by (auto simp: bit_or_iff bit_drop_bit_eq bit_push_bit_iff bit_not_iff bit_mask_iff
          dest: bit_imp_le_length)
  qed
  finally show ?thesis .
qed

text \<open>\<open>ror\<close> rotates, for every count below 32 and on both hosts: also for the count 0.\<close>

lemma ror_0: "ror h x 0 = x"
  by (simp add: ror_def host_shift_defs split: shifter.splits)

lemma ror_eq:
  assumes "r < 32"
  shows "ror h x r = word_rotr (unat r) x"
proof (cases "r = 0")
  case True
  then show ?thesis
    by (intro bit_word_eqI) (auto simp: ror_0 bit_word_rotr_iff)
next
  case False
  then have r: "0 < r" by (simp add: word_gt_0)
  note s = shift_count [OF r assms]
  have "ror h x r = drop_bit (unat r) x OR push_bit (32 - unat r) x"
    using s by (simp add: ror_def host_shift_defs)
  also have "\<dots> = word_rotr (unat r) x"
  proof (rule bit_word_eqI)
    fix n assume n: "n < LENGTH(32)"
    show "bit (drop_bit (unat r) x OR push_bit (32 - unat r) x) n = bit (word_rotr (unat r) x) n"
    proof (cases "n + unat r < 32")
      case True
      then show ?thesis using s n by (auto simp: bit_simps bit_word_rotr_iff add.commute)
    next
      case False
      then have "(n + unat r) mod 32 = n - (32 - unat r)" using s n by (simp add: mod_if)
      then show ?thesis
        using False s n by (auto simp: bit_simps bit_word_rotr_iff add.commute dest: bit_imp_le_length)
    qed
  qed
  finally show ?thesis .
qed

end
