(* ===== verification/Constants.thy ===== *)
theory Constants
  imports Prelude
begin

text \<open>
  \<open>arm_constants.h\<close> and \<open>arm_constants.c\<close>: the processor modes, the exception numbers, the
  positions of the condition flags, the shift codes, and the three tables of names.  A name is
  \<open>None\<close> where the C function returns \<open>NULL\<close>; the mode and register tables are indexed without
  a test, and an index past their end is undefined (the outer \<open>None\<close>).
\<close>

abbreviation "USR \<equiv> 0x10 :: u8"
abbreviation "FIQ \<equiv> 0x11 :: u8"
abbreviation "IRQ \<equiv> 0x12 :: u8"
abbreviation "SVC \<equiv> 0x13 :: u8"
abbreviation "ABT \<equiv> 0x17 :: u8"
abbreviation "UND \<equiv> 0x1B :: u8"
abbreviation "SYS \<equiv> 0x1F :: u8"

abbreviation (input) "RESET \<equiv> 1 :: int"
abbreviation (input) "UNDEFINED_INSTRUCTION \<equiv> 2 :: int"
abbreviation (input) "SOFTWARE_INTERRUPT \<equiv> 3 :: int"
abbreviation (input) "PREFETCH_ABORT \<equiv> 4 :: int"
abbreviation (input) "DATA_ABORT \<equiv> 5 :: int"
abbreviation (input) "INTERRUPT \<equiv> 6 :: int"
abbreviation (input) "FAST_INTERRUPT \<equiv> 7 :: int"

abbreviation (input) "N_flag \<equiv> 31 :: nat"
abbreviation (input) "Z_flag \<equiv> 30 :: nat"
abbreviation (input) "C_flag \<equiv> 29 :: nat"
abbreviation (input) "V_flag \<equiv> 28 :: nat"

abbreviation (input) "LSL \<equiv> 0 :: u8"
abbreviation (input) "LSR \<equiv> 1 :: u8"
abbreviation (input) "ASR \<equiv> 2 :: u8"
abbreviation (input) "ROR \<equiv> 3 :: u8"

definition arm_mode_names :: "string option list" where
  "arm_mode_names =
     replicate 16 None @
     [Some ''USR'', Some ''FIQ'', Some ''IRQ'', Some ''SVC'', None, None, None,
      Some ''ABT'', None, None, None, Some ''UND'', None, None, None, Some ''SYS'']"

definition arm_register_names :: "string option list" where
  "arm_register_names = map Some
     [''R00'', ''R01'', ''R02'', ''R03'', ''R04'', ''R05'', ''R06'', ''R07'', ''R08'', ''R09'',
      ''R10'', ''R11'', ''R12'', ''SP'', ''LR'', ''PC'', ''CPSR'', ''SPSR'']"

definition arm_exception_names :: "string option list" where
  "arm_exception_names =
     [None, Some ''reset'', Some ''undefined instruction'', Some ''software interrupt'',
      Some ''prefetch abort'', Some ''data abort'', Some ''interrupt'', Some ''fast interrupt'']"

definition arm_get_exception_name :: "u8 \<Rightarrow> string option option" where
  "arm_get_exception_name exception =
     (if exception < 8 then aget arm_exception_names (unat exception) else Some None)"

definition arm_get_mode_name :: "u8 \<Rightarrow> string option option" where
  "arm_get_mode_name mode = aget arm_mode_names (unat mode)"

definition arm_get_register_name :: "u8 \<Rightarrow> string option option" where
  "arm_get_register_name reg = aget arm_register_names (unat reg)"

definition valid_modes :: "u8 set" where
  "valid_modes = {USR, FIQ, IRQ, SVC, ABT, UND, SYS}"

lemma arm_get_exception_name_defined: "\<exists>n. arm_get_exception_name e = Some n"
  by (simp add: arm_get_exception_name_def arm_exception_names_def word_less_nat_alt)

lemma arm_get_mode_name_defined: "(\<exists>n. arm_get_mode_name m = Some n) \<longleftrightarrow> m < 32"
  by (auto simp: arm_get_mode_name_def arm_mode_names_def word_less_nat_alt aget_def)

lemma arm_get_register_name_defined: "(\<exists>n. arm_get_register_name r = Some n) \<longleftrightarrow> r < 18"
  by (auto simp: arm_get_register_name_def arm_register_names_def word_less_nat_alt aget_def)

end
