(* ===== verification/Registers.thy ===== *)
theory Registers
  imports Util Constants
begin

text \<open>
  \<open>registers.h\<close> and \<open>registers.c\<close>: the register bank of the processor.  The model follows the
  C structure: three arrays, and the index computations that choose the physical cell of a
  register number in a mode.  The array lengths are those of the \<open>calloc\<close> calls and are part
  of the invariant \<open>wf_registers\<close>.

  The second half is the specification: the registers of the ARM manual (section A2.3) by name,
  and the proof that the index computations implement that naming (\<open>regs_of\<close>).
\<close>

record registers =
  main_registers :: "u32 list"
  banked_registers :: "u32 list"
  psr_registers :: "u32 list"

section \<open>The operations\<close>

definition get_register_from_mode :: "u8 \<Rightarrow> u8" where
  "get_register_from_mode mode =
     (if mode = SVC then 1 else if mode = ABT then 2 else if mode = UND then 3
      else if mode = IRQ then 4 else 5)"

definition get_banked_register_from_mode :: "u8 \<Rightarrow> u8 \<Rightarrow> u8" where
  "get_banked_register_from_mode mode reg =
     (if mode = FIQ then reg
      else if mode = SVC then reg mod 2
      else if mode = ABT then reg mod 2 + 2
      else if mode = UND then reg mod 2 + 4
      else reg mod 2 + 6)"

text \<open>
  The arguments say which of the four allocations succeed.  When the structure is not allocated
  the code reads its fields, and when an array is not it writes \<open>psr_registers[0]\<close> through the
  null pointer it has just stored in \<open>r\<close>: both are undefined.
\<close>

definition registers_create :: "bool \<Rightarrow> bool \<Rightarrow> bool \<Rightarrow> bool \<Rightarrow> registers option" where
  "registers_create struct_ok main_ok banked_ok psr_ok =
     (if \<not> struct_ok then None
      else if \<not> main_ok \<or> \<not> banked_ok \<or> \<not> psr_ok then None
      else do {
        psr \<leftarrow> aset (replicate 6 0) 0 (ucast SYS);
        Some \<lparr>main_registers = replicate 16 0, banked_registers = replicate 15 0,
          psr_registers = psr\<rparr>
      })"

definition read_cpsr :: "registers \<Rightarrow> u32 option" where
  "read_cpsr r = aget (psr_registers r) 0"

definition get_mode :: "registers \<Rightarrow> u8 option" where
  "get_mode r = do { mode \<leftarrow> read_cpsr r; Some (ucast mode AND 0x1F) }"

definition current_mode_has_spsr :: "registers \<Rightarrow> bool option" where
  "current_mode_has_spsr r = do {
     current_mode \<leftarrow> get_mode r;
     Some (current_mode \<noteq> USR \<and> current_mode \<noteq> SYS)
   }"

definition in_a_privileged_mode :: "registers \<Rightarrow> bool option" where
  "in_a_privileged_mode r = do { current_mode \<leftarrow> get_mode r; Some (current_mode \<noteq> USR) }"

text \<open>
  The first test of \<open>read_register\<close> and \<open>write_register\<close> lets any register number through in
  the modes without an SPSR, so numbers above 15 index past the end of the array there.
\<close>

definition easy_access :: "registers \<Rightarrow> u8 \<Rightarrow> bool option" where
  "easy_access r reg =
     (if reg < 8 \<or> reg = 15 then Some True
      else do { has_spsr \<leftarrow> current_mode_has_spsr r; Some (\<not> has_spsr) })"

definition read_register :: "registers \<Rightarrow> u8 \<Rightarrow> u32 option" where
  "read_register r reg = do {
     easy \<leftarrow> easy_access r reg;
     if easy then aget (main_registers r) (unat reg)
     else if reg \<le> 15 then do {
       current_mode \<leftarrow> get_mode r;
       if current_mode \<noteq> FIQ \<and> reg < 13 then aget (main_registers r) (unat reg)
       else aget (banked_registers r) (unat (get_banked_register_from_mode current_mode reg))
     }
     else Some 0
   }"

definition read_usr_register :: "registers \<Rightarrow> u8 \<Rightarrow> u32 option" where
  "read_usr_register r reg = (if reg \<le> 15 then aget (main_registers r) (unat reg) else Some 0)"

definition read_spsr :: "registers \<Rightarrow> u32 option" where
  "read_spsr r = do {
     has_spsr \<leftarrow> current_mode_has_spsr r;
     if has_spsr then do {
       current_mode \<leftarrow> get_mode r;
       aget (psr_registers r) (unat (get_register_from_mode current_mode))
     }
     else Some 0
   }"

definition set_main :: "registers \<Rightarrow> nat \<Rightarrow> u32 \<Rightarrow> registers option" where
  "set_main r i value = do {
     xs \<leftarrow> aset (main_registers r) i value; Some (r\<lparr>main_registers := xs\<rparr>) }"

definition set_banked :: "registers \<Rightarrow> nat \<Rightarrow> u32 \<Rightarrow> registers option" where
  "set_banked r i value = do {
     xs \<leftarrow> aset (banked_registers r) i value; Some (r\<lparr>banked_registers := xs\<rparr>) }"

definition set_psr :: "registers \<Rightarrow> nat \<Rightarrow> u32 \<Rightarrow> registers option" where
  "set_psr r i value = do {
     xs \<leftarrow> aset (psr_registers r) i value; Some (r\<lparr>psr_registers := xs\<rparr>) }"

definition write_register :: "registers \<Rightarrow> u8 \<Rightarrow> u32 \<Rightarrow> registers option" where
  "write_register r reg value = do {
     easy \<leftarrow> easy_access r reg;
     if easy then set_main r (unat reg) value
     else if reg \<le> 15 then do {
       current_mode \<leftarrow> get_mode r;
       if current_mode \<noteq> FIQ \<and> reg < 13 then set_main r (unat reg) value
       else set_banked r (unat (get_banked_register_from_mode current_mode reg)) value
     }
     else Some r
   }"

definition write_usr_register :: "registers \<Rightarrow> u8 \<Rightarrow> u32 \<Rightarrow> registers option" where
  "write_usr_register r reg value = (if reg \<le> 15 then set_main r (unat reg) value else Some r)"

definition write_cpsr :: "registers \<Rightarrow> u32 \<Rightarrow> registers option" where
  "write_cpsr r value = do {
     privileged \<leftarrow> in_a_privileged_mode r;
     let masque = (if privileged then 0x07F0FC20 else 0x7F0FDFF);
     let value = value OR masque;
     psr \<leftarrow> aget (psr_registers r) 0;
     r \<leftarrow> set_psr r 0 (psr OR NOT masque);
     psr \<leftarrow> aget (psr_registers r) 0;
     set_psr r 0 (psr AND value)
   }"

definition write_spsr :: "registers \<Rightarrow> u32 \<Rightarrow> registers option" where
  "write_spsr r value = do {
     has_spsr \<leftarrow> current_mode_has_spsr r;
     if has_spsr then do {
       current_mode \<leftarrow> get_mode r;
       let register_number = unat (get_register_from_mode current_mode);
       let masque = 0x07F0FC20;
       let value = value OR masque;
       psr \<leftarrow> aget (psr_registers r) register_number;
       r \<leftarrow> set_psr r register_number (psr OR NOT masque);
       psr \<leftarrow> aget (psr_registers r) register_number;
       set_psr r register_number (psr AND value)
     }
     else Some r
   }"

section \<open>Well-formed register banks\<close>

definition wf_registers :: "registers \<Rightarrow> bool" where
  "wf_registers r \<longleftrightarrow> length (main_registers r) = 16 \<and> length (banked_registers r) = 15
     \<and> length (psr_registers r) = 6"

lemma registers_create_wf:
  "registers_create True True True True = Some r \<Longrightarrow> wf_registers r"
  by (auto simp: registers_create_def wf_registers_def)

text \<open>The operations on a well-formed bank as total functions on physical cells.\<close>

datatype cell = Main nat | Banked nat

definition mode_of :: "registers \<Rightarrow> u8" where
  "mode_of r = ucast (psr_registers r ! 0) AND 0x1F"

definition has_spsr_mode :: "u8 \<Rightarrow> bool" where
  "has_spsr_mode m \<longleftrightarrow> m \<noteq> USR \<and> m \<noteq> SYS"

definition cell_of :: "u8 \<Rightarrow> u8 \<Rightarrow> cell" where
  "cell_of m reg =
     (if reg < 8 \<or> reg = 15 \<or> \<not> has_spsr_mode m \<or> (m \<noteq> FIQ \<and> reg < 13) then Main (unat reg)
      else Banked (unat (get_banked_register_from_mode m reg)))"

fun cell_get :: "registers \<Rightarrow> cell \<Rightarrow> u32" where
  "cell_get r (Main i) = main_registers r ! i"
| "cell_get r (Banked i) = banked_registers r ! i"

fun cell_set :: "registers \<Rightarrow> cell \<Rightarrow> u32 \<Rightarrow> registers" where
  "cell_set r (Main i) v = r\<lparr>main_registers := (main_registers r)[i := v]\<rparr>"
| "cell_set r (Banked i) v = r\<lparr>banked_registers := (banked_registers r)[i := v]\<rparr>"

fun cell_ok :: "cell \<Rightarrow> bool" where
  "cell_ok (Main i) \<longleftrightarrow> i < 16"
| "cell_ok (Banked i) \<longleftrightarrow> i < 15"

lemma mode_of_le: "mode_of r \<le> 0x1F"
  unfolding mode_of_def by (rule word_and_le1)

lemma u8_le_15: "reg \<le> 15 \<longleftrightarrow> unat (reg :: u8) \<le> 15"
  by (simp add: word_le_nat_alt)

text \<open>The sixteen register numbers; a goal about one of them can be split into its cases.\<close>

lemma reg_cases:
  assumes "reg \<le> (15 :: u8)"
  shows "reg \<in> {0, 1, 2, 3, 4, 5, 6, 7, 8, 9, 10, 11, 12, 13, 14, 15}"
proof -
  have "unat reg < 16" using assms by (simp add: u8_le_15)
  then have "unat reg \<in> {0, 1, 2, 3, 4, 5, 6, 7, 8, 9, 10, 11, 12, 13, 14, 15}"
    unfolding insert_iff empty_iff by arith
  then show ?thesis by (auto simp: word_unat_eq_iff)
qed

lemma cell_of_ok: "reg \<le> 15 \<Longrightarrow> cell_ok (cell_of m reg)"
  by (drule reg_cases) (auto simp: cell_of_def get_banked_register_from_mode_def)

text \<open>The register number can be read off the cell, so different numbers have different cells.\<close>

fun reg_of_cell :: "u8 \<Rightarrow> cell \<Rightarrow> u8" where
  "reg_of_cell m (Main i) = word_of_nat i"
| "reg_of_cell m (Banked i) =
     (if m = FIQ then word_of_nat i else if even i then 14 else 13)"

lemma reg_of_cell_of: "reg \<le> 15 \<Longrightarrow> reg_of_cell m (cell_of m reg) = reg"
  by (drule reg_cases) (auto simp: cell_of_def get_banked_register_from_mode_def)

lemma cell_of_inj: "a \<le> 15 \<Longrightarrow> b \<le> 15 \<Longrightarrow> cell_of m a = cell_of m b \<longleftrightarrow> a = b"
  by (metis reg_of_cell_of)

lemma cell_set_wf [wf_intros]: "wf_registers r \<Longrightarrow> wf_registers (cell_set r c v)"
  by (cases c) (auto simp: wf_registers_def)

lemma cell_set_psr [simp]: "psr_registers (cell_set r c v) = psr_registers r"
  by (cases c) auto

lemma mode_of_cell_set [simp]: "mode_of (cell_set r c v) = mode_of r"
  by (simp add: mode_of_def)

lemma cell_get_set:
  "wf_registers r \<Longrightarrow> cell_ok c \<Longrightarrow> cell_get (cell_set r c v) d = (if d = c then v else cell_get r d)"
  by (cases c; cases d) (auto simp: wf_registers_def)

section \<open>Total forms of the operations\<close>

lemma read_cpsr_wf [core_simps]: "wf_registers r \<Longrightarrow> read_cpsr r = Some (psr_registers r ! 0)"
  by (simp add: read_cpsr_def wf_registers_def)

lemma get_mode_wf [core_simps]: "wf_registers r \<Longrightarrow> get_mode r = Some (mode_of r)"
  by (simp add: get_mode_def read_cpsr_wf mode_of_def)

lemma current_mode_has_spsr_wf [core_simps]:
  "wf_registers r \<Longrightarrow> current_mode_has_spsr r = Some (has_spsr_mode (mode_of r))"
  by (simp add: current_mode_has_spsr_def get_mode_wf has_spsr_mode_def)

lemma in_a_privileged_mode_wf [core_simps]:
  "wf_registers r \<Longrightarrow> in_a_privileged_mode r = Some (mode_of r \<noteq> USR)"
  by (simp add: in_a_privileged_mode_def get_mode_wf)

lemma banked_index_less:
  assumes "reg \<le> 15" "\<not> (reg < 8 \<or> reg = 15)" "\<not> (m \<noteq> FIQ \<and> reg < 13)"
  shows "unat (get_banked_register_from_mode m reg) < 15"
  using reg_cases [OF assms(1)] assms(2,3)
  by (auto simp: get_banked_register_from_mode_def)

lemma read_register_wf [core_simps]:
  assumes "wf_registers r" "reg \<le> 15"
  shows "read_register r reg = Some (cell_get r (cell_of (mode_of r) reg))"
  using assms banked_index_less [of reg "mode_of r"]
  by (auto simp: read_register_def easy_access_def current_mode_has_spsr_wf get_mode_wf cell_of_def
      wf_registers_def u8_le_15)

lemma write_register_wf [core_simps]:
  assumes "wf_registers r" "reg \<le> 15"
  shows "write_register r reg v = Some (cell_set r (cell_of (mode_of r) reg) v)"
  using assms banked_index_less [of reg "mode_of r"]
  by (auto simp: write_register_def easy_access_def current_mode_has_spsr_wf get_mode_wf cell_of_def
      set_main_def set_banked_def wf_registers_def u8_le_15)

lemma read_usr_register_wf [core_simps]:
  "wf_registers r \<Longrightarrow> reg \<le> 15 \<Longrightarrow> read_usr_register r reg = Some (main_registers r ! unat reg)"
  by (simp add: read_usr_register_def wf_registers_def u8_le_15)

lemma write_usr_register_wf [core_simps]:
  "wf_registers r \<Longrightarrow> reg \<le> 15 \<Longrightarrow> write_usr_register r reg v = Some (cell_set r (Main (unat reg)) v)"
  by (simp add: write_usr_register_def set_main_def wf_registers_def u8_le_15)

lemma get_register_from_mode_range: "unat (get_register_from_mode m) \<in> {1, 2, 3, 4, 5}"
  by (simp add: get_register_from_mode_def)

lemma get_register_from_mode_less: "unat (get_register_from_mode m) < 6"
  using get_register_from_mode_range [of m] by auto

lemma read_spsr_wf [core_simps]:
  "wf_registers r \<Longrightarrow> read_spsr r = Some (if has_spsr_mode (mode_of r)
     then psr_registers r ! unat (get_register_from_mode (mode_of r)) else 0)"
  using get_register_from_mode_less [of "mode_of r"]
  by (simp add: read_spsr_def current_mode_has_spsr_wf get_mode_wf wf_registers_def)

text \<open>
  The writes to the status registers keep the bits of the mask and take the others from the new
  value.
\<close>

definition cpsr_mask :: "u8 \<Rightarrow> u32" where
  "cpsr_mask m = (if m = USR then 0x07F0FDFF else 0x07F0FC20)"

definition masked :: "u32 \<Rightarrow> u32 \<Rightarrow> u32 \<Rightarrow> u32" where
  "masked keep old new = (old AND keep) OR (new AND NOT keep)"

lemma bit_masked: "bit (masked keep old new) n \<longleftrightarrow> (if bit keep n then bit old n else bit new n)"
  by (auto simp: masked_def bit_simps dest: bit_imp_le_length)

lemma masked_eq: "(old OR NOT keep) AND (new OR keep) = masked keep old new"
  by (rule bit_word_eqI) (auto simp: masked_def bit_simps)

lemma write_cpsr_wf [core_simps]:
  assumes "wf_registers r"
  shows "write_cpsr r v = Some (r\<lparr>psr_registers :=
    (psr_registers r)[0 := masked (cpsr_mask (mode_of r)) (psr_registers r ! 0) v]\<rparr>)"
  using assms
  by (simp add: write_cpsr_def in_a_privileged_mode_wf set_psr_def wf_registers_def cpsr_mask_def
      masked_eq [symmetric])

lemma write_spsr_wf [core_simps]:
  assumes "wf_registers r"
  shows "write_spsr r v = Some (if has_spsr_mode (mode_of r) then
    let i = unat (get_register_from_mode (mode_of r)) in
      r\<lparr>psr_registers := (psr_registers r)[i := masked 0x07F0FC20 (psr_registers r ! i) v]\<rparr>
    else r)"
  using assms get_register_from_mode_less [of "mode_of r"]
  by (simp add: write_spsr_def current_mode_has_spsr_wf get_mode_wf set_psr_def wf_registers_def
      Let_def masked_eq [symmetric])

section \<open>The architecture's registers\<close>

text \<open>
  The register names of the ARM manual: \<open>R n\<close> is shared by all modes that have no register of
  their own with number \<open>n\<close>, \<open>Bank m n\<close> is the register \<open>n\<close> of mode \<open>m\<close>.
\<close>

datatype arch_reg = R nat | Bank u8 nat

definition arch_reg_of :: "u8 \<Rightarrow> nat \<Rightarrow> arch_reg" where
  "arch_reg_of m n =
     (if m = FIQ \<and> 8 \<le> n \<and> n \<le> 14 then Bank FIQ n
      else if m \<in> {SVC, ABT, UND, IRQ} \<and> (n = 13 \<or> n = 14) then Bank m n
      else R n)"

definition arch_regs :: "arch_reg set" where
  "arch_regs = R ` {..15} \<union> Bank FIQ ` {8, 9, 10, 11, 12, 13, 14}
     \<union> (\<Union>m \<in> {SVC, ABT, UND, IRQ}. Bank m ` {13, 14})"

text \<open>The physical cell that holds an architectural register.\<close>

fun arch_cell :: "arch_reg \<Rightarrow> cell" where
  "arch_cell (R n) = Main n"
| "arch_cell (Bank m n) = Banked (unat (get_banked_register_from_mode m (word_of_nat n)))"

definition regs_of :: "registers \<Rightarrow> arch_reg \<Rightarrow> u32" where
  "regs_of r a = cell_get r (arch_cell a)"

lemma arch_reg_of_in: "n \<le> 15 \<Longrightarrow> arch_reg_of m n \<in> arch_regs"
  by (auto simp: arch_reg_of_def arch_regs_def)

lemma arch_cell_ok: "a \<in> arch_regs \<Longrightarrow> cell_ok (arch_cell a)"
  by (auto simp: arch_regs_def get_banked_register_from_mode_def unat_of_nat)

text \<open>No two architectural registers share a cell.\<close>

fun arch_of_cell :: "cell \<Rightarrow> arch_reg" where
  "arch_of_cell (Main i) = R i"
| "arch_of_cell (Banked i) =
     (if 8 \<le> i then Bank FIQ i else Bank ([SVC, ABT, UND, IRQ] ! (i div 2)) (14 - i mod 2))"

lemma arch_of_cell_inverse: "a \<in> arch_regs \<Longrightarrow> arch_of_cell (arch_cell a) = a"
  by (auto simp: arch_regs_def get_banked_register_from_mode_def)

lemma arch_cell_inj: "inj_on arch_cell arch_regs"
  by (rule inj_on_inverseI [where g = arch_of_cell]) (rule arch_of_cell_inverse)

text \<open>In a valid mode the code's index computation finds the architectural register's cell.\<close>

lemma arch_cell_arch_reg_of:
  assumes "reg \<le> 15"
  shows "arch_cell (arch_reg_of m (unat reg)) =
    (if m = FIQ \<and> 8 \<le> reg \<and> reg \<le> 14 then Banked (unat reg)
     else if m \<in> {SVC, ABT, UND, IRQ} \<and> (reg = 13 \<or> reg = 14)
     then Banked (unat (get_banked_register_from_mode m reg)) else Main (unat reg))"
  using assms
  by (simp add: arch_reg_of_def get_banked_register_from_mode_def word_le_nat_alt word_unat_eq_iff)
lemma cell_of_arch:
  assumes "m \<in> valid_modes" "reg \<le> 15"
  shows "cell_of m reg = arch_cell (arch_reg_of m (unat reg))"
proof -
  have r: "8 \<le> reg \<and> reg \<le> 14 \<longleftrightarrow> \<not> (reg < 8 \<or> reg = 15)"
    "reg = 13 \<or> reg = 14 \<longleftrightarrow> \<not> (reg < 8 \<or> reg = 15) \<and> \<not> reg < 13"
    using assms(2) by (auto simp: word_le_nat_alt word_less_nat_alt word_unat_eq_iff)
  have m: "m \<in> {SVC, ABT, UND, IRQ} \<longleftrightarrow> has_spsr_mode m \<and> m \<noteq> FIQ"
    "m = FIQ \<Longrightarrow> has_spsr_mode m"
    using assms(1) by (auto simp: valid_modes_def has_spsr_mode_def)
  show ?thesis
    unfolding arch_cell_arch_reg_of [OF assms(2)] cell_of_def r m(1)
    using m(2) by (auto simp: get_banked_register_from_mode_def)
qed

lemma read_register_arch:
  assumes "wf_registers r" "mode_of r \<in> valid_modes" "reg \<le> 15"
  shows "read_register r reg = Some (regs_of r (arch_reg_of (mode_of r) (unat reg)))"
  using assms by (simp add: read_register_wf cell_of_arch regs_of_def)

lemma write_register_arch:
  assumes "wf_registers r" "mode_of r \<in> valid_modes" "reg \<le> 15"
  shows "\<exists>r'. write_register r reg v = Some r' \<and> wf_registers r' \<and> psr_registers r' = psr_registers r
    \<and> (\<forall>a \<in> arch_regs. regs_of r' a
         = ((regs_of r)(arch_reg_of (mode_of r) (unat reg) := v)) a)"
proof -
  let ?c = "cell_of (mode_of r) reg" and ?a = "arch_reg_of (mode_of r) (unat reg)"
  have ain: "?a \<in> arch_regs" using assms(3) by (simp add: arch_reg_of_in u8_le_15)
  have c: "?c = arch_cell ?a" by (rule cell_of_arch [OF assms(2,3)])
  have "regs_of (cell_set r ?c v) a = ((regs_of r)(?a := v)) a" if "a \<in> arch_regs" for a
    using assms(1) that ain arch_cell_ok [OF ain] inj_on_eq_iff [OF arch_cell_inj that ain]
    by (simp add: regs_of_def cell_get_set c)
  then show ?thesis
    using assms by (auto simp: write_register_wf intro: cell_set_wf)
qed

section \<open>The register file as a store\<close>

text \<open>In a fixed mode the sixteen register numbers are independent cells.\<close>

interpretation regs: cell_store read_register write_register
  "\<lambda>r. wf_registers r \<and> mode_of r = m" "\<lambda>_. {..15}" for m
  by unfold_locales
    (auto simp: read_register_wf write_register_wf cell_set_wf cell_get_set cell_of_inj cell_of_ok)

end
