(* ===== verification/Memory.thy ===== *)
theory Memory
  imports Util
begin

text \<open>
  \<open>memory.h\<close> and \<open>memory.c\<close>: a block of bytes with half-word and word accesses in either byte
  order.  An access returns the code 0 or -1; \<open>Denied\<close> is the code -1 of a read, which leaves
  the variable of the caller as it was.

  The bound checks compare with \<open>>\<close>: the address \<open>size\<close> itself passes the check of a byte
  access and indexes one past the end of the block.  The field \<open>size\<close> of the structure is a
  signed \<open>int\<close>; compared with an address it is converted to \<open>uint32_t\<close>, so the model keeps its
  32 bits.
\<close>

datatype 'a access = Denied | Granted 'a

record memory =
  is_big_endian_type :: bool
  mem_size :: u32
  mem_data :: "u8 list"

section \<open>The interface of an addressed store\<close>

text \<open>
  What the processor core relies on: a read or write of an address that is \<open>ok\<close> succeeds, one
  that is \<open>bad\<close> returns the failure code and changes nothing, and a successful write is seen by
  the reads of its address and by no other.
\<close>

locale access_store =
  fixes rd :: "'s \<Rightarrow> 'a \<Rightarrow> 'v access option"
    and wr :: "'s \<Rightarrow> 'a \<Rightarrow> 'v \<Rightarrow> (int \<times> 's) option"
    and inv :: "'s \<Rightarrow> bool"
    and ok :: "'s \<Rightarrow> 'a \<Rightarrow> bool"
    and bad :: "'s \<Rightarrow> 'a \<Rightarrow> bool"
  assumes rd_ok: "inv s \<Longrightarrow> ok s a \<Longrightarrow> \<exists>v. rd s a = Some (Granted v)"
    and rd_bad: "inv s \<Longrightarrow> bad s a \<Longrightarrow> rd s a = Some Denied"
    and wr_ok: "inv s \<Longrightarrow> ok s a \<Longrightarrow> \<exists>t. wr s a v = Some (0, t)"
    and wr_bad: "inv s \<Longrightarrow> bad s a \<Longrightarrow> wr s a v = Some (-1, s)"
    and wr_inv: "inv s \<Longrightarrow> ok s a \<Longrightarrow> wr s a v = Some (0, t) \<Longrightarrow> inv t"
    and wr_keeps: "inv s \<Longrightarrow> ok s a \<Longrightarrow> wr s a v = Some (0, t) \<Longrightarrow> ok t b = ok s b \<and> bad t b = bad s b"
    and rd_wr: "inv s \<Longrightarrow> ok s a \<Longrightarrow> ok s b \<Longrightarrow> wr s a v = Some (0, t)
      \<Longrightarrow> rd t b = (if b = a then Some (Granted v) else rd s b)"
begin

lemma wr_rd: "inv s \<Longrightarrow> ok s a \<Longrightarrow> wr s a v = Some (0, t) \<Longrightarrow> rd t a = Some (Granted v)"
  by (simp add: rd_wr)

lemma wr_code:
  assumes "inv s" "ok s a \<or> bad s a" "wr s a v = Some (c, t)"
  shows "c = 0 \<and> ok s a \<or> c = -1 \<and> t = s"
  using assms wr_ok [of s a v] wr_bad [of s a v] by auto

text \<open>A write of the value that is there changes no read.\<close>

lemma wr_same:
  assumes "inv s" "ok s a" "ok s b" "rd s a = Some (Granted v)" "wr s a v = Some (0, t)"
  shows "rd t b = rd s b"
  using assms by (simp add: rd_wr)

end

definition granted :: "'v access option \<Rightarrow> 'v option" where
  "granted x = (case x of Some (Granted v) \<Rightarrow> Some v | _ \<Rightarrow> None)"

definition committed :: "(int \<times> 's) option \<Rightarrow> 's option" where
  "committed x = (case x of Some (c, t) \<Rightarrow> if c = 0 then Some t else None | None \<Rightarrow> None)"

lemma granted_simps [simp]:
  "granted (Some (Granted v)) = Some v" "granted (Some Denied) = None" "granted None = None"
  by (simp_all add: granted_def)

lemma committed_simps [simp]:
  "committed (Some (c, t)) = (if c = 0 then Some t else None)" "committed None = None"
  by (simp_all add: committed_def)

sublocale access_store \<subseteq> cell: cell_store
  "\<lambda>s a. granted (rd s a)" "\<lambda>s a v. committed (wr s a v)" inv "\<lambda>s. {a. ok s a}"
proof unfold_locales
  fix s i
  assume "inv s" "i \<in> {a. ok s a}"
  then show "\<exists>v. granted (rd s i) = Some v" using rd_ok by fastforce
next
  fix s i v
  assume "inv s" "i \<in> {a. ok s a}"
  then show "\<exists>t. committed (wr s i v) = Some t" using wr_ok [of s i v] by auto
next
  fix s i v t
  assume s: "inv s" "i \<in> {a. ok s a}" "committed (wr s i v) = Some t"
  have w: "wr s i v = Some (0, t)" using s wr_ok [of s i v] by auto
  show "inv t" "{a. ok t a} = {a. ok s a}"
    using s w wr_inv [of s i v t] wr_keeps [of s i v t] by auto
  show "granted (rd t j) = (if j = i then Some v else granted (rd s j))"
    if "j \<in> {a. ok s a}" for j
    using s(1,2) that rd_wr [of s i j v t] w by simp
qed

section \<open>The operations\<close>

text \<open>
  The first two arguments say which allocations succeed; the result \<open>None\<close> of the inner option
  is the null pointer.  When the structure is not allocated, and when the size is 0, the field
  \<open>data\<close> is read without ever having been written.  The structure itself is allocated with the
  size of a pointer to it; the model follows the intent and gives it its fields.
\<close>

definition memory_create :: "bool \<Rightarrow> bool \<Rightarrow> u64 \<Rightarrow> bool \<Rightarrow> memory option option" where
  "memory_create struct_ok data_ok n big_endian =
     (if struct_ok \<and> n > 0 then
        (if data_ok then
           Some (Some \<lparr>is_big_endian_type = big_endian, mem_size = ucast n,
             mem_data = replicate (unat n) 0\<rparr>)
         else Some None)
      else None)"

definition memory_get_size :: "memory \<Rightarrow> u64" where
  "memory_get_size m = scast (mem_size m)"

definition memory_read_byte :: "memory \<Rightarrow> u32 \<Rightarrow> u8 access option" where
  "memory_read_byte m address =
     (if address > mem_size m then Some Denied
      else do { v \<leftarrow> aget (mem_data m) (unat address); Some (Granted v) })"

definition memory_read_half :: "memory \<Rightarrow> u32 \<Rightarrow> u16 access option" where
  "memory_read_half m address =
     (if get_bit address 0 \<noteq> 0 \<or> address + 1 > mem_size m then Some Denied
      else do {
        b0 \<leftarrow> aget (mem_data m) (unat address);
        b1 \<leftarrow> aget (mem_data m) (unat (address + 1));
        Some (Granted (if is_big_endian_type m
          then ucast (push_bit 8 (ucast b0 :: u32) OR ucast b1)
          else ucast (push_bit 8 (ucast b1 :: u32) OR ucast b0)))
      })"

text \<open>The loop \<open>for (i = 0; i < 4; i++)\<close> of the word read, in both byte orders.\<close>

definition read_word_loop :: "memory \<Rightarrow> u32 \<Rightarrow> u32 option" where
  "read_word_loop m address =
     for_each (\<lambda>i value. do {
         b \<leftarrow> aget (mem_data m)
           (unat (address + word_of_nat (if is_big_endian_type m then i else 3 - i)));
         Some (value OR push_bit (24 - i * 8) (ucast b))
       }) [0, 1, 2, 3] 0"

definition memory_read_word :: "memory \<Rightarrow> u32 \<Rightarrow> u32 access option" where
  "memory_read_word m address =
     (if get_bits address 1 0 \<noteq> 0 \<or> address + 3 > mem_size m then Some Denied
      else do { value \<leftarrow> read_word_loop m address; Some (Granted value) })"

definition store_byte :: "memory \<Rightarrow> nat \<Rightarrow> u8 \<Rightarrow> memory option" where
  "store_byte m i v = do { xs \<leftarrow> aset (mem_data m) i v; Some (m\<lparr>mem_data := xs\<rparr>) }"

definition memory_write_byte :: "memory \<Rightarrow> u32 \<Rightarrow> u8 \<Rightarrow> (int \<times> memory) option" where
  "memory_write_byte m address value =
     (if address > mem_size m then Some (-1, m)
      else do { m \<leftarrow> store_byte m (unat address) value; Some (0, m) })"

definition memory_write_half :: "memory \<Rightarrow> u32 \<Rightarrow> u16 \<Rightarrow> (int \<times> memory) option" where
  "memory_write_half m address value =
     (if get_bit address 0 \<noteq> 0 \<or> address + 1 > mem_size m then Some (-1, m)
      else if is_big_endian_type m then do {
        m \<leftarrow> store_byte m (unat address) (ucast (drop_bit 8 value));
        m \<leftarrow> store_byte m (unat (address + 1)) (ucast value);
        Some (0, m)
      }
      else do {
        m \<leftarrow> store_byte m (unat (address + 1)) (ucast (drop_bit 8 value));
        m \<leftarrow> store_byte m (unat address) (ucast value);
        Some (0, m)
      })"

definition write_word_loop :: "memory \<Rightarrow> u32 \<Rightarrow> u32 \<Rightarrow> memory option" where
  "write_word_loop m address value =
     for_each (\<lambda>i m. store_byte m
         (unat (address + word_of_nat (if is_big_endian_type m then i else 3 - i)))
         (ucast (drop_bit (24 - i * 8) value))) [0, 1, 2, 3] m"

definition memory_write_word :: "memory \<Rightarrow> u32 \<Rightarrow> u32 \<Rightarrow> (int \<times> memory) option" where
  "memory_write_word m address value =
     (if get_bits address 1 0 \<noteq> 0 \<or> address + 3 > mem_size m then Some (-1, m)
      else do { m \<leftarrow> write_word_loop m address value; Some (0, m) })"

section \<open>Well-formed memories\<close>

text \<open>The block has the length that the bound checks compare with.\<close>

definition wf_memory :: "memory \<Rightarrow> bool" where
  "wf_memory m \<longleftrightarrow> length (mem_data m) = unat (mem_size m) \<and> 4 dvd unat (mem_size m)"

lemma memory_create_wf:
  assumes "memory_create True True n be = Some (Some m)" "n < 2 ^ 32" "4 dvd unat n"
  shows "wf_memory m"
proof -
  have "unat n < 2 ^ 32" using assms(2) by (simp add: word_less_nat_alt)
  then have "unat (ucast n :: u32) = unat n" by (simp add: unsigned_ucast_eq take_bit_nat_eq_self_iff)
  then show ?thesis using assms(1,3) by (auto simp: memory_create_def wf_memory_def split: if_splits)
qed

section \<open>Alignment\<close>

lemma get_bit_0_odd: "get_bit a 0 \<noteq> 0 \<longleftrightarrow> odd (unat a)"
  by (simp add: odd_unat_iff)

lemma aligned_4: "get_bits a (Suc 0) 0 = 0 \<longleftrightarrow> 4 dvd unat a"
proof -
  have "get_bits a (Suc 0) 0 = take_bit 2 a" by (simp add: get_bits_eq numeral_2_eq_2)
  also have "\<dots> = 0 \<longleftrightarrow> take_bit 2 (unat a) = 0"
    by (metis unat_0 unat_eq_zero unsigned_take_bit_eq)
  finally show ?thesis by (simp add: take_bit_eq_mod mod_eq_0_iff_dvd)
qed

lemma aligned_add_3: "4 dvd unat a \<Longrightarrow> k \<le> 3 \<Longrightarrow> unat (a + word_of_nat k :: u32) = unat a + k"
proof (rule unat_add_no_wrap)
  assume "4 dvd unat a" "k \<le> 3"
  then show "unat a + k < 2 ^ 32" using unat_u32_less [of a] by (auto elim!: dvdE)
qed

lemma even_add_1: "even (unat a) \<Longrightarrow> unat (a + 1 :: u32) = unat a + 1"
proof -
  assume "even (unat a)"
  then have "unat a + 1 < 2 ^ 32" using unat_u32_less [of a] by (auto elim!: evenE)
  then show ?thesis using unat_add_no_wrap [of a 1] by simp
qed

section \<open>Total forms of the operations\<close>

definition word_ok :: "memory \<Rightarrow> u32 \<Rightarrow> bool" where
  "word_ok m a \<longleftrightarrow> 4 dvd unat a \<and> unat a + 3 < unat (mem_size m)"

definition half_ok :: "memory \<Rightarrow> u32 \<Rightarrow> bool" where
  "half_ok m a \<longleftrightarrow> even (unat a) \<and> unat a + 1 < unat (mem_size m)"

definition byte_ok :: "memory \<Rightarrow> u32 \<Rightarrow> bool" where
  "byte_ok m a \<longleftrightarrow> unat a < unat (mem_size m)"

lemma dvd4_le_less:
  assumes "(4::nat) dvd a" "4 dvd s" shows "a + 3 \<le> s \<longleftrightarrow> a + 3 < s"
proof -
  from assms obtain i j where "a = 4 * i" "s = 4 * j" by (auto elim!: dvdE)
  then show ?thesis by presburger
qed

lemma even_le_less: "even (a::nat) \<Longrightarrow> 4 dvd s \<Longrightarrow> a + 1 \<le> s \<longleftrightarrow> a + 1 < s"
  by presburger

text \<open>The checks of the code accept exactly the accesses that fit in the block.\<close>

lemma word_check:
  assumes "wf_memory m"
  shows "(get_bits a 1 0 \<noteq> 0 \<or> a + 3 > mem_size m) \<longleftrightarrow> \<not> word_ok m a"
proof (cases "4 dvd unat a")
  case True
  then have "unat (a + 3) = unat a + 3" using aligned_add_3 [of a 3] by simp
  then show ?thesis
    using dvd4_le_less [of "unat a" "unat (mem_size m)"] assms True
    by (auto simp: aligned_4 word_ok_def wf_memory_def word_less_nat_alt)
qed (simp add: aligned_4 word_ok_def)

lemma half_check:
  assumes "wf_memory m"
  shows "(get_bit a 0 \<noteq> 0 \<or> a + 1 > mem_size m) \<longleftrightarrow> \<not> half_ok m a"
proof (cases "even (unat a)")
  case True
  then show ?thesis
    using even_le_less [of "unat a" "unat (mem_size m)"] even_add_1 [of a] assms
    by (auto simp only: get_bit_0_odd half_ok_def wf_memory_def word_less_nat_alt not_less)
qed (auto simp only: get_bit_0_odd half_ok_def)

definition word_at :: "memory \<Rightarrow> u32 \<Rightarrow> u32" where
  "word_at m a = (let d = (\<lambda>i. ucast (mem_data m ! (unat a + i)) :: u32) in
     if is_big_endian_type m
     then push_bit 24 (d 0) OR push_bit 16 (d 1) OR push_bit 8 (d 2) OR d 3
     else push_bit 24 (d 3) OR push_bit 16 (d 2) OR push_bit 8 (d 1) OR d 0)"

definition half_at :: "memory \<Rightarrow> u32 \<Rightarrow> u16" where
  "half_at m a = (let d = (\<lambda>i. ucast (mem_data m ! (unat a + i)) :: u32) in
     if is_big_endian_type m then ucast (push_bit 8 (d 0) OR d 1)
     else ucast (push_bit 8 (d 1) OR d 0))"

definition set_bytes :: "memory \<Rightarrow> nat \<Rightarrow> u8 list \<Rightarrow> memory" where
  "set_bytes m i bs = m\<lparr>mem_data := take i (mem_data m) @ bs @ drop (i + length bs) (mem_data m)\<rparr>"

text \<open>The bytes of a word in the order of their addresses.\<close>

definition word_bytes :: "bool \<Rightarrow> u32 \<Rightarrow> u8 list" where
  "word_bytes be v = (let bs = map (\<lambda>k. ucast (drop_bit k v)) [24, 16, 8, 0] in
     if be then bs else rev bs)"

definition half_bytes :: "bool \<Rightarrow> u16 \<Rightarrow> u8 list" where
  "half_bytes be v = (let bs = map (\<lambda>k. ucast (drop_bit k v)) [8, 0] in
     if be then bs else rev bs)"

lemma length_word_bytes [simp]: "length (word_bytes be v) = 4"
  by (simp add: word_bytes_def Let_def)

lemma length_half_bytes [simp]: "length (half_bytes be v) = 2"
  by (simp add: half_bytes_def Let_def)

lemma set_bytes_fields [simp]:
  "mem_size (set_bytes m i bs) = mem_size m"
  "is_big_endian_type (set_bytes m i bs) = is_big_endian_type m"
  by (simp_all add: set_bytes_def)

lemma length_set_bytes:
  "i + length bs \<le> length (mem_data m) \<Longrightarrow>
    length (mem_data (set_bytes m i bs)) = length (mem_data m)"
  by (simp add: set_bytes_def)

lemma nth_set_bytes:
  assumes "i + length bs \<le> length (mem_data m)"
  shows "mem_data (set_bytes m i bs) ! j =
    (if i \<le> j \<and> j < i + length bs then bs ! (j - i) else mem_data m ! j)"
proof -
  have "length (take i (mem_data m)) = i" using assms by simp
  then show ?thesis using assms by (auto simp: set_bytes_def nth_append)
qed

text \<open>The sums of the loops and of the byte-wise code are the addresses of the bytes.\<close>

lemma word_ok_bytes:
  assumes "wf_memory m" "word_ok m a" "k \<le> 3"
  shows "unat (a + word_of_nat k) = unat a + k" "unat a + k < length (mem_data m)"
  using assms aligned_add_3 [of a k] by (auto simp: word_ok_def wf_memory_def)

lemma memory_read_word_wf [core_simps]:
  assumes "wf_memory m"
  shows "memory_read_word m a = Some (if word_ok m a then Granted (word_at m a) else Denied)"
proof (cases "word_ok m a")
  case True
  note b = word_ok_bytes [OF assms True, of 1] word_ok_bytes [OF assms True, of 2]
    word_ok_bytes [OF assms True, of 3] word_ok_bytes [OF assms True, of 0]
  have "read_word_loop m a = Some (word_at m a)"
    using b by (simp add: read_word_loop_def word_at_def Let_def or.assoc)
  then show ?thesis
    using True by (simp only: memory_read_word_def word_check [OF assms]) simp
next
  case False
  then show ?thesis by (simp only: memory_read_word_def word_check [OF assms]) simp
qed

lemma memory_read_half_wf [core_simps]:
  assumes "wf_memory m"
  shows "memory_read_half m a = Some (if half_ok m a then Granted (half_at m a) else Denied)"
proof (cases "half_ok m a")
  case True
  then have "unat (a + 1) = unat a + 1" "unat a + 1 < length (mem_data m)"
    using assms even_add_1 by (auto simp: half_ok_def wf_memory_def)
  then show ?thesis
    using True unfolding memory_read_half_def half_check [OF assms]
    by (simp add: half_at_def Let_def)
next
  case False
  then show ?thesis unfolding memory_read_half_def half_check [OF assms] by simp
qed

lemma memory_read_byte_wf [core_simps]:
  assumes "wf_memory m"
  shows "memory_read_byte m a =
    (if a = mem_size m then None
     else Some (if byte_ok m a then Granted (mem_data m ! unat a) else Denied))"
  using assms
  by (auto simp: memory_read_byte_def byte_ok_def wf_memory_def word_less_nat_alt word_unat_eq_iff
      aget_def)

lemma list_update_block:
  "i < length xs \<Longrightarrow> xs[i := a] = take i xs @ [a] @ drop (Suc i) xs"
  "Suc i < length xs \<Longrightarrow>
    xs[i := a, Suc i := b] = take i xs @ [a, b] @ drop (Suc (Suc i)) xs"
  "Suc (Suc (Suc i)) < length xs \<Longrightarrow>
    xs[i := a, Suc i := b, Suc (Suc i) := c, Suc (Suc (Suc i)) := d]
      = take i xs @ [a, b, c, d] @ drop (Suc (Suc (Suc (Suc i)))) xs"
proof (induction i arbitrary: xs)
  case 0
  { case 1 then show ?case by (cases xs) auto }
  { case 2 then show ?case by (cases xs; cases "tl xs") auto }
  { case 3 then show ?case
      by (cases xs; cases "tl xs"; cases "tl (tl xs)"; cases "tl (tl (tl xs))") auto }
next
  case (Suc i)
  { case 1 then show ?case using Suc(1) by (cases xs) auto }
  { case 2 then show ?case using Suc(2) by (cases xs) auto }
  { case 3 then show ?case using Suc(3) by (cases xs) auto }
qed

lemma store_byte_in_range:
  "i < length (mem_data m) \<Longrightarrow> store_byte m i v = Some (m\<lparr>mem_data := (mem_data m)[i := v]\<rparr>)"
  by (simp add: store_byte_def)

lemma memory_write_byte_wf [core_simps]:
  assumes "wf_memory m"
  shows "memory_write_byte m a v =
    (if a = mem_size m then None
     else Some (if byte_ok m a then (0, set_bytes m (unat a) [v]) else (-1, m)))"
  using assms
  by (auto simp: memory_write_byte_def byte_ok_def wf_memory_def word_less_nat_alt
      word_unat_eq_iff store_byte_def aset_def set_bytes_def list_update_block)

lemma memory_write_half_wf [core_simps]:
  assumes "wf_memory m"
  shows "memory_write_half m a v = Some (if half_ok m a
    then (0, set_bytes m (unat a) (half_bytes (is_big_endian_type m) v)) else (-1, m))"
proof (cases "half_ok m a")
  case True
  then have b: "unat (a + 1) = unat a + 1" "unat a + 1 < length (mem_data m)" "unat a < length (mem_data m)"
    using assms even_add_1 by (auto simp: half_ok_def wf_memory_def)
  note upd = list_update_block(2) [of "unat a" "mem_data m"]
  show ?thesis
    using True b upd list_update_swap [of "unat a" "unat a + 1" "mem_data m"]
    unfolding memory_write_half_def half_check [OF assms]
    by (simp add: store_byte_in_range half_bytes_def set_bytes_def)
next
  case False
  then show ?thesis unfolding memory_write_half_def half_check [OF assms] by simp
qed

lemma memory_write_word_wf [core_simps]:
  assumes "wf_memory m"
  shows "memory_write_word m a v = Some (if word_ok m a
    then (0, set_bytes m (unat a) (word_bytes (is_big_endian_type m) v)) else (-1, m))"
proof (cases "word_ok m a")
  case True
  note b = word_ok_bytes [OF assms True, of 1] word_ok_bytes [OF assms True, of 2]
    word_ok_bytes [OF assms True, of 3] word_ok_bytes [OF assms True, of 0]
  let ?i = "unat a" and ?D = "mem_data m"
  have upd: "?D[?i := p, Suc ?i := q, Suc (Suc ?i) := r, Suc (Suc (Suc ?i)) := s]
      = take ?i ?D @ [p, q, r, s] @ drop (Suc (Suc (Suc (Suc ?i)))) ?D" for p q r s
    using b by (intro list_update_block(3)) simp
  have swap: "?D[Suc (Suc (Suc ?i)) := s, Suc (Suc ?i) := r, Suc ?i := q, ?i := p]
      = ?D[?i := p, Suc ?i := q, Suc (Suc ?i) := r, Suc (Suc (Suc ?i)) := s]" for p q r s
    by (simp add: list_update_swap)
  have "write_word_loop m a v = Some (set_bytes m ?i (word_bytes (is_big_endian_type m) v))"
    using b upd swap
    by (simp add: write_word_loop_def store_byte_in_range word_bytes_def set_bytes_def numeral_3_eq_3)
  then show ?thesis
    using True by (simp only: memory_write_word_def word_check [OF assms]) simp
next
  case False
  then show ?thesis by (simp only: memory_write_word_def word_check [OF assms]) simp
qed

section \<open>What is written is what is read\<close>

lemma join_word_bytes:
  "push_bit 24 (ucast (ucast (drop_bit 24 v) :: u8)) OR push_bit 16 (ucast (ucast (drop_bit 16 v) :: u8))
    OR push_bit 8 (ucast (ucast (drop_bit 8 v) :: u8)) OR ucast (ucast v :: u8) = (v :: u32)"
  by (rule word32_eqI) (simp add: bit_simps upt_32)

lemma upt_16: "[0..<16] = [0,1,2,3,4,5,6,7,8,9,10,11,12,13,14,15::nat]"
  by (simp add: upt_rec)

lemma join_half_bytes:
  "ucast (push_bit 8 (ucast (ucast (drop_bit 8 v) :: u8) :: u32) OR ucast (ucast v :: u8)) = (v :: u16)"
proof (rule bit_word_eqI)
  fix n assume "n < LENGTH(16)"
  then have "n \<in> set [0..<16]" by simp
  then show "bit (ucast (push_bit 8 (ucast (ucast (drop_bit 8 v) :: u8) :: u32) OR ucast (ucast v :: u8)) :: u16) n
      = bit v n"
    unfolding upt_16 by (auto simp: bit_simps)
qed

lemma wf_set_bytes [wf_intros]:
  "wf_memory m \<Longrightarrow> i + length bs \<le> length (mem_data m) \<Longrightarrow> wf_memory (set_bytes m i bs)"
  by (simp add: wf_memory_def length_set_bytes)

lemma ok_set_bytes [simp]:
  "word_ok (set_bytes m i bs) b = word_ok m b"
  "half_ok (set_bytes m i bs) b = half_ok m b"
  "byte_ok (set_bytes m i bs) b = byte_ok m b"
  by (simp_all add: word_ok_def half_ok_def byte_ok_def)

lemma word_ok_fits: "wf_memory m \<Longrightarrow> word_ok m a \<Longrightarrow> unat a + 4 \<le> length (mem_data m)"
  by (simp add: word_ok_def wf_memory_def)

lemma half_ok_fits: "wf_memory m \<Longrightarrow> half_ok m a \<Longrightarrow> unat a + 2 \<le> length (mem_data m)"
  by (simp add: half_ok_def wf_memory_def)

lemma byte_ok_fits: "wf_memory m \<Longrightarrow> byte_ok m a \<Longrightarrow> unat a + 1 \<le> length (mem_data m)"
  by (simp add: byte_ok_def wf_memory_def)

lemma wf_set_word [simp, wf_intros]:
  "wf_memory m \<Longrightarrow> word_ok m a \<Longrightarrow> wf_memory (set_bytes m (unat a) (word_bytes be v))"
  using word_ok_fits by (intro wf_set_bytes) simp_all

lemma wf_set_half [simp, wf_intros]:
  "wf_memory m \<Longrightarrow> half_ok m a \<Longrightarrow> wf_memory (set_bytes m (unat a) (half_bytes be v))"
  using half_ok_fits by (intro wf_set_bytes) simp_all

lemma wf_set_byte [simp, wf_intros]:
  "wf_memory m \<Longrightarrow> byte_ok m a \<Longrightarrow> wf_memory (set_bytes m (unat a) [v])"
  using byte_ok_fits by (intro wf_set_bytes) simp_all

lemma word_at_set_word:
  assumes "wf_memory m" "word_ok m a"
  shows "word_at (set_bytes m (unat a) (word_bytes (is_big_endian_type m) v)) a = v"
  using word_ok_fits [OF assms]
  by (simp add: word_at_def nth_set_bytes word_bytes_def Let_def join_word_bytes)

lemma half_at_set_half:
  assumes "wf_memory m" "half_ok m a"
  shows "half_at (set_bytes m (unat a) (half_bytes (is_big_endian_type m) v)) a = v"
  using half_ok_fits [OF assms]
  by (simp add: half_at_def nth_set_bytes half_bytes_def Let_def join_half_bytes)

text \<open>Two different aligned addresses have no byte in common.\<close>

lemma aligned_disjoint:
  "4 dvd a \<Longrightarrow> 4 dvd b \<Longrightarrow> a \<noteq> b \<Longrightarrow> k < 4 \<Longrightarrow> \<not> (a \<le> b + k \<and> b + k < a + (4 :: nat))"
  by (auto elim!: dvdE)

lemma even_disjoint:
  "even a \<Longrightarrow> even b \<Longrightarrow> a \<noteq> b \<Longrightarrow> k < 2 \<Longrightarrow> \<not> (a \<le> b + k \<and> b + k < a + (2 :: nat))"
  by (auto elim!: evenE)

lemma word_at_cong:
  assumes "is_big_endian_type m = is_big_endian_type n"
    and "\<And>k. k < 4 \<Longrightarrow> mem_data m ! (unat a + k) = mem_data n ! (unat a + k)"
  shows "word_at m a = word_at n a"
proof -
  have "mem_data m ! (unat a + 0) = mem_data n ! (unat a + 0)"
    "mem_data m ! (unat a + 1) = mem_data n ! (unat a + 1)"
    "mem_data m ! (unat a + 2) = mem_data n ! (unat a + 2)"
    "mem_data m ! (unat a + 3) = mem_data n ! (unat a + 3)"
    by (rule assms(2), simp)+
  then show ?thesis unfolding word_at_def Let_def assms(1) by (simp only:)
qed

lemma half_at_cong:
  assumes "is_big_endian_type m = is_big_endian_type n"
    and "\<And>k. k < 2 \<Longrightarrow> mem_data m ! (unat a + k) = mem_data n ! (unat a + k)"
  shows "half_at m a = half_at n a"
proof -
  have "mem_data m ! (unat a + 0) = mem_data n ! (unat a + 0)"
    "mem_data m ! (unat a + 1) = mem_data n ! (unat a + 1)"
    by (rule assms(2), simp)+
  then show ?thesis unfolding half_at_def Let_def assms(1) by (simp only:)
qed

lemma word_at_set_other:
  assumes "wf_memory m" "word_ok m a" "word_ok m b" "a \<noteq> b" "length bs = 4"
  shows "word_at (set_bytes m (unat a) bs) b = word_at m b"
proof (rule word_at_cong)
  fix k :: nat assume "k < 4"
  then have "\<not> (unat a \<le> unat b + k \<and> unat b + k < unat a + 4)"
    using assms by (intro aligned_disjoint) (auto simp: word_ok_def word_unat_eq_iff)
  then show "mem_data (set_bytes m (unat a) bs) ! (unat b + k) = mem_data m ! (unat b + k)"
    using word_ok_fits [OF assms(1,2)] assms(5) by (auto simp: nth_set_bytes)
qed simp

lemma half_at_set_other:
  assumes "wf_memory m" "half_ok m a" "half_ok m b" "a \<noteq> b" "length bs = 2"
  shows "half_at (set_bytes m (unat a) bs) b = half_at m b"
proof (rule half_at_cong)
  fix k :: nat assume "k < 2"
  then have "\<not> (unat a \<le> unat b + k \<and> unat b + k < unat a + 2)"
    using assms by (intro even_disjoint) (auto simp: half_ok_def word_unat_eq_iff)
  then show "mem_data (set_bytes m (unat a) bs) ! (unat b + k) = mem_data m ! (unat b + k)"
    using half_ok_fits [OF assms(1,2)] assms(5) by (auto simp: nth_set_bytes)
qed simp

section \<open>The three access widths as stores\<close>

interpretation words: access_store memory_read_word memory_write_word wf_memory
  word_ok "\<lambda>m a. \<not> word_ok m a"
  by unfold_locales (auto simp: core_simps word_at_set_word word_at_set_other)

interpretation halves: access_store memory_read_half memory_write_half wf_memory
  half_ok "\<lambda>m a. \<not> half_ok m a"
  by unfold_locales (auto simp: core_simps half_at_set_half half_at_set_other)

lemma nth_set_byte:
  "wf_memory m \<Longrightarrow> byte_ok m a \<Longrightarrow> mem_data (set_bytes m (unat a) [v]) ! j =
    (if j = unat a then v else mem_data m ! j)"
  using byte_ok_fits by (auto simp: nth_set_bytes)

text \<open>At the address \<open>mem_size m\<close> a byte access is neither: it is undefined.\<close>

lemma byte_ok_neq: "byte_ok m a \<Longrightarrow> a \<noteq> mem_size m"
  by (auto simp: byte_ok_def)

interpretation bytes: access_store memory_read_byte memory_write_byte wf_memory
  byte_ok "\<lambda>m a. \<not> byte_ok m a \<and> a \<noteq> mem_size m"
  by unfold_locales
    (auto simp: core_simps byte_ok_neq nth_set_byte word_unat_eq_iff [symmetric])

end
