(* ===== verification/Core.thy ===== *)
theory Core
  imports Registers Memory
begin

text \<open>
  \<open>arm_core.c\<close> and \<open>arm_exception.c\<close>: the processor core, which ties a register bank and a
  memory together, and the raising of exceptions.  \<open>arm_create\<close> raises RESET and
  \<open>arm_exception\<close> writes registers of the core, so the two files are modelled together.

  The calls of \<open>trace_register\<close> and \<open>trace_memory\<close> in these functions only print; they read
  their arguments and the state of the trace module and are left out here; \<open>TracedCore\<close> has the
  accesses with them.
\<close>

record arm_core =
  cycle_count :: u32
  core_regs :: registers
  core_mem :: memory

section \<open>Register accesses\<close>

definition arm_current_mode_has_spsr :: "arm_core \<Rightarrow> bool option" where
  "arm_current_mode_has_spsr p = current_mode_has_spsr (core_regs p)"

definition arm_in_a_privileged_mode :: "arm_core \<Rightarrow> bool option" where
  "arm_in_a_privileged_mode p = in_a_privileged_mode (core_regs p)"

definition arm_get_cycle_count :: "arm_core \<Rightarrow> u32" where
  "arm_get_cycle_count p = cycle_count p"

definition arm_read_register :: "arm_core \<Rightarrow> u8 \<Rightarrow> u32 option" where
  "arm_read_register p n = do {
     value \<leftarrow> read_register (core_regs p) n;
     Some (if n = 15 then (value + 4) AND 0xFFFFFFFD else value)
   }"

definition arm_read_usr_register :: "arm_core \<Rightarrow> u8 \<Rightarrow> u32 option" where
  "arm_read_usr_register p n = do {
     value \<leftarrow> read_usr_register (core_regs p) n;
     Some (if n = 15 then (value + 4) AND 0xFFFFFFFD else value)
   }"

definition arm_read_cpsr :: "arm_core \<Rightarrow> u32 option" where
  "arm_read_cpsr p = read_cpsr (core_regs p)"

definition arm_read_spsr :: "arm_core \<Rightarrow> u32 option" where
  "arm_read_spsr p = read_spsr (core_regs p)"

definition arm_write_register :: "arm_core \<Rightarrow> u8 \<Rightarrow> u32 \<Rightarrow> arm_core option" where
  "arm_write_register p n value = do {
     r \<leftarrow> write_register (core_regs p) n value; Some (p\<lparr>core_regs := r\<rparr>) }"

definition arm_write_usr_register :: "arm_core \<Rightarrow> u8 \<Rightarrow> u32 \<Rightarrow> arm_core option" where
  "arm_write_usr_register p n value = do {
     r \<leftarrow> write_usr_register (core_regs p) n value; Some (p\<lparr>core_regs := r\<rparr>) }"

definition arm_write_cpsr :: "arm_core \<Rightarrow> u32 \<Rightarrow> arm_core option" where
  "arm_write_cpsr p value = do {
     r \<leftarrow> write_cpsr (core_regs p) value; Some (p\<lparr>core_regs := r\<rparr>) }"

definition arm_write_spsr :: "arm_core \<Rightarrow> u32 \<Rightarrow> arm_core option" where
  "arm_write_spsr p value = do {
     r \<leftarrow> write_spsr (core_regs p) value; Some (p\<lparr>core_regs := r\<rparr>) }"

section \<open>Memory accesses\<close>

text \<open>
  The fetch counts a cycle, reads the word at the program counter and advances it.  A denied
  read leaves the variable of the caller as it was, and the program counter advances all the
  same.
\<close>

definition arm_fetch :: "arm_core \<Rightarrow> (u32 access \<times> arm_core) option" where
  "arm_fetch p = do {
     let p = p\<lparr>cycle_count := cycle_count p + 1\<rparr>;
     pc \<leftarrow> arm_read_register p 15;
     let address = pc - 4;
     result \<leftarrow> memory_read_word (core_mem p) address;
     p \<leftarrow> arm_write_register p 15 (address + 4);
     Some (result, p)
   }"

definition arm_read_byte :: "arm_core \<Rightarrow> u32 \<Rightarrow> u8 access option" where
  "arm_read_byte p address = memory_read_byte (core_mem p) address"

definition arm_read_half :: "arm_core \<Rightarrow> u32 \<Rightarrow> u16 access option" where
  "arm_read_half p address = memory_read_half (core_mem p) address"

definition arm_read_word :: "arm_core \<Rightarrow> u32 \<Rightarrow> u32 access option" where
  "arm_read_word p address = memory_read_word (core_mem p) address"

definition arm_write_byte :: "arm_core \<Rightarrow> u32 \<Rightarrow> u8 \<Rightarrow> (int \<times> arm_core) option" where
  "arm_write_byte p address value = do {
     (result, m) \<leftarrow> memory_write_byte (core_mem p) address value;
     Some (result, p\<lparr>core_mem := m\<rparr>)
   }"

definition arm_write_half :: "arm_core \<Rightarrow> u32 \<Rightarrow> u16 \<Rightarrow> (int \<times> arm_core) option" where
  "arm_write_half p address value = do {
     (result, m) \<leftarrow> memory_write_half (core_mem p) address value;
     Some (result, p\<lparr>core_mem := m\<rparr>)
   }"

definition arm_write_word :: "arm_core \<Rightarrow> u32 \<Rightarrow> u32 \<Rightarrow> (int \<times> arm_core) option" where
  "arm_write_word p address value = do {
     (result, m) \<leftarrow> memory_write_word (core_mem p) address value;
     Some (result, p\<lparr>core_mem := m\<rparr>)
   }"

section \<open>Exceptions and creation\<close>

definition Exception_bit_9 :: u32 where
  "Exception_bit_9 = push_bit 9 0"

definition arm_exception :: "arm_core \<Rightarrow> u8 \<Rightarrow> arm_core option" where
  "arm_exception p exception =
     (if exception = 1 then do {
        p \<leftarrow> arm_write_cpsr p (0x1D3 OR Exception_bit_9);
        arm_write_usr_register p 15 0
      }
      else Some p)"

text \<open>
  The first argument says whether the structure is allocated (the result is the null pointer
  otherwise), the next four are those of \<open>registers_create\<close>.
\<close>

definition arm_create ::
  "bool \<Rightarrow> bool \<Rightarrow> bool \<Rightarrow> bool \<Rightarrow> bool \<Rightarrow> memory \<Rightarrow> arm_core option option" where
  "arm_create core_ok struct_ok main_ok banked_ok psr_ok m =
     (if core_ok then do {
        r \<leftarrow> registers_create struct_ok main_ok banked_ok psr_ok;
        p \<leftarrow> arm_exception \<lparr>cycle_count = 0, core_regs = r, core_mem = m\<rparr> 1;
        Some (Some (p\<lparr>cycle_count := 0\<rparr>))
      }
      else Some None)"

section \<open>Well-formed cores and total forms\<close>

definition wf_core :: "arm_core \<Rightarrow> bool" where
  "wf_core p \<longleftrightarrow> wf_registers (core_regs p) \<and> wf_memory (core_mem p)"

abbreviation mode :: "arm_core \<Rightarrow> u8" where
  "mode p \<equiv> mode_of (core_regs p)"

definition cpsr :: "arm_core \<Rightarrow> u32" where
  "cpsr p = psr_registers (core_regs p) ! 0"

definition spsr :: "arm_core \<Rightarrow> u32" where
  "spsr p = (if has_spsr_mode (mode p)
     then psr_registers (core_regs p) ! unat (get_register_from_mode (mode p)) else 0)"

text \<open>The content of a register of the current mode, and what an instruction reads of it.\<close>

definition xreg :: "arm_core \<Rightarrow> u8 \<Rightarrow> u32" where
  "xreg p n = cell_get (core_regs p) (cell_of (mode p) n)"

definition rval :: "arm_core \<Rightarrow> u8 \<Rightarrow> u32" where
  "rval p n = (if n = 15 then (xreg p 15 + 4) AND 0xFFFFFFFD else xreg p n)"

definition set_xreg :: "arm_core \<Rightarrow> u8 \<Rightarrow> u32 \<Rightarrow> arm_core" where
  "set_xreg p n v = p\<lparr>core_regs := cell_set (core_regs p) (cell_of (mode p) n) v\<rparr>"

definition set_cpsr :: "arm_core \<Rightarrow> u32 \<Rightarrow> arm_core" where
  "set_cpsr p v = p\<lparr>core_regs := (core_regs p)\<lparr>psr_registers :=
     (psr_registers (core_regs p))[0 := masked (cpsr_mask (mode p)) (cpsr p) v]\<rparr>\<rparr>"

lemma wf_core_parts [simp]:
  "wf_core p \<Longrightarrow> wf_registers (core_regs p)" "wf_core p \<Longrightarrow> wf_memory (core_mem p)"
  by (simp_all add: wf_core_def)

lemma arm_read_register_wf [core_simps]:
  "wf_core p \<Longrightarrow> n \<le> 15 \<Longrightarrow> arm_read_register p n = Some (rval p n)"
  by (simp add: arm_read_register_def read_register_wf rval_def xreg_def)

lemma arm_write_register_wf [core_simps]:
  "wf_core p \<Longrightarrow> n \<le> 15 \<Longrightarrow> arm_write_register p n v = Some (set_xreg p n v)"
  by (simp add: arm_write_register_def write_register_wf set_xreg_def)

lemma cell_of_15 [simp]: "cell_of m 15 = Main 15"
  by (simp add: cell_of_def)

lemma arm_write_usr_15_wf [core_simps]:
  "wf_core p \<Longrightarrow> arm_write_usr_register p 15 v = Some (set_xreg p 15 v)"
  by (simp add: arm_write_usr_register_def write_usr_register_wf set_xreg_def)

lemma arm_read_cpsr_wf [core_simps]: "wf_core p \<Longrightarrow> arm_read_cpsr p = Some (cpsr p)"
  by (simp add: arm_read_cpsr_def read_cpsr_wf cpsr_def)

lemma arm_read_spsr_wf [core_simps]: "wf_core p \<Longrightarrow> arm_read_spsr p = Some (spsr p)"
  by (simp add: arm_read_spsr_def read_spsr_wf spsr_def)

lemma arm_write_cpsr_wf [core_simps]: "wf_core p \<Longrightarrow> arm_write_cpsr p v = Some (set_cpsr p v)"
  by (simp add: arm_write_cpsr_def write_cpsr_wf set_cpsr_def cpsr_def)

lemma arm_current_mode_has_spsr_wf [core_simps]:
  "wf_core p \<Longrightarrow> arm_current_mode_has_spsr p = Some (has_spsr_mode (mode p))"
  by (simp add: arm_current_mode_has_spsr_def current_mode_has_spsr_wf)

section \<open>Algebra of the core's state\<close>

lemma set_xreg_fields [simp]:
  "core_mem (set_xreg p n v) = core_mem p"
  "cycle_count (set_xreg p n v) = cycle_count p"
  "psr_registers (core_regs (set_xreg p n v)) = psr_registers (core_regs p)"
  "mode (set_xreg p n v) = mode p"
  "cpsr (set_xreg p n v) = cpsr p"
  "spsr (set_xreg p n v) = spsr p"
  by (simp_all add: set_xreg_def cpsr_def spsr_def)

lemma set_cpsr_fields [simp]:
  "core_mem (set_cpsr p v) = core_mem p"
  "cycle_count (set_cpsr p v) = cycle_count p"
  "main_registers (core_regs (set_cpsr p v)) = main_registers (core_regs p)"
  "banked_registers (core_regs (set_cpsr p v)) = banked_registers (core_regs p)"
  by (simp_all add: set_cpsr_def)

lemma wf_set_xreg [simp, wf_intros]: "wf_core p \<Longrightarrow> wf_core (set_xreg p n v)"
  by (simp add: wf_core_def set_xreg_def cell_set_wf del: wf_core_parts)

lemma wf_set_cpsr [simp, wf_intros]: "wf_core p \<Longrightarrow> wf_core (set_cpsr p v)"
  by (simp add: wf_core_def set_cpsr_def wf_registers_def del: wf_core_parts)

lemma wf_set_mem [simp, wf_intros]:
  "wf_core p \<Longrightarrow> wf_memory m \<Longrightarrow> wf_core (p\<lparr>core_mem := m\<rparr>)"
  by (simp add: wf_core_def del: wf_core_parts)

lemma wf_set_cycle [simp, wf_intros]: "wf_core p \<Longrightarrow> wf_core (p\<lparr>cycle_count := c\<rparr>)"
  by (simp add: wf_core_def del: wf_core_parts)

lemma xreg_set_xreg [simp]:
  "wf_core p \<Longrightarrow> n \<le> 15 \<Longrightarrow> k \<le> 15 \<Longrightarrow> xreg (set_xreg p n v) k = (if k = n then v else xreg p k)"
  by (simp add: xreg_def set_xreg_def cell_get_set cell_of_ok cell_of_inj)

lemma cpsr_set_cpsr [simp]:
  "wf_core p \<Longrightarrow> cpsr (set_cpsr p v) = masked (cpsr_mask (mode p)) (cpsr p) v"
  by (simp add: cpsr_def set_cpsr_def wf_core_def wf_registers_def del: wf_core_parts)

lemma mode_cpsr: "mode p = ucast (cpsr p) AND 0x1F"
  by (simp add: mode_of_def cpsr_def)

lemma xreg_cong:
  "mode p = mode q \<Longrightarrow> main_registers (core_regs p) = main_registers (core_regs q)
    \<Longrightarrow> banked_registers (core_regs p) = banked_registers (core_regs q) \<Longrightarrow> xreg p n = xreg q n"
  by (cases "cell_of (mode q) n") (simp_all add: xreg_def)

lemma xreg_set_cpsr: "mode (set_cpsr p v) = mode p \<Longrightarrow> xreg (set_cpsr p v) n = xreg p n"
  by (rule xreg_cong) simp_all

lemma other_fields [simp]:
  "xreg (p\<lparr>core_mem := m\<rparr>) n = xreg p n" "xreg (p\<lparr>cycle_count := c\<rparr>) n = xreg p n"
  "rval (p\<lparr>core_mem := m\<rparr>) n = rval p n" "rval (p\<lparr>cycle_count := c\<rparr>) n = rval p n"
  "cpsr (p\<lparr>core_mem := m\<rparr>) = cpsr p" "cpsr (p\<lparr>cycle_count := c\<rparr>) = cpsr p"
  "spsr (p\<lparr>core_mem := m\<rparr>) = spsr p" "spsr (p\<lparr>cycle_count := c\<rparr>) = spsr p"
  by (simp_all add: xreg_def rval_def cpsr_def spsr_def)

lemma set_xreg_same:
  assumes "wf_core p" "n \<le> 15" shows "set_xreg p n (xreg p n) = p"
proof (cases "cell_of (mode p) n")
  case (Main i)
  then show ?thesis by (simp add: set_xreg_def xreg_def)
next
  case (Banked i)
  then show ?thesis by (simp add: set_xreg_def xreg_def)
qed

section \<open>Memory accesses of a well-formed core\<close>

lemma arm_read_word_wf [core_simps]:
  "wf_core p \<Longrightarrow> arm_read_word p a =
    Some (if word_ok (core_mem p) a then Granted (word_at (core_mem p) a) else Denied)"
  by (simp add: arm_read_word_def memory_read_word_wf)

lemma arm_read_half_wf [core_simps]:
  "wf_core p \<Longrightarrow> arm_read_half p a =
    Some (if half_ok (core_mem p) a then Granted (half_at (core_mem p) a) else Denied)"
  by (simp add: arm_read_half_def memory_read_half_wf)

lemma arm_read_byte_wf [core_simps]:
  "wf_core p \<Longrightarrow> arm_read_byte p a =
    (if a = mem_size (core_mem p) then None
     else Some (if byte_ok (core_mem p) a then Granted (mem_data (core_mem p) ! unat a) else Denied))"
  by (simp add: arm_read_byte_def memory_read_byte_wf)

definition set_word :: "arm_core \<Rightarrow> u32 \<Rightarrow> u32 \<Rightarrow> arm_core" where
  "set_word p a v = p\<lparr>core_mem :=
     set_bytes (core_mem p) (unat a) (word_bytes (is_big_endian_type (core_mem p)) v)\<rparr>"

definition set_half :: "arm_core \<Rightarrow> u32 \<Rightarrow> u16 \<Rightarrow> arm_core" where
  "set_half p a v = p\<lparr>core_mem :=
     set_bytes (core_mem p) (unat a) (half_bytes (is_big_endian_type (core_mem p)) v)\<rparr>"

definition set_byte :: "arm_core \<Rightarrow> u32 \<Rightarrow> u8 \<Rightarrow> arm_core" where
  "set_byte p a v = p\<lparr>core_mem := set_bytes (core_mem p) (unat a) [v]\<rparr>"

lemma arm_write_word_wf [core_simps]:
  "wf_core p \<Longrightarrow> arm_write_word p a v =
    Some (if word_ok (core_mem p) a then (0, set_word p a v) else (-1, p))"
  by (simp add: arm_write_word_def memory_write_word_wf set_word_def)

lemma arm_write_half_wf [core_simps]:
  "wf_core p \<Longrightarrow> arm_write_half p a v =
    Some (if half_ok (core_mem p) a then (0, set_half p a v) else (-1, p))"
  by (simp add: arm_write_half_def memory_write_half_wf set_half_def)

lemma arm_write_byte_wf [core_simps]:
  "wf_core p \<Longrightarrow> arm_write_byte p a v =
    (if a = mem_size (core_mem p) then None
     else Some (if byte_ok (core_mem p) a then (0, set_byte p a v) else (-1, p)))"
  by (simp add: arm_write_byte_def memory_write_byte_wf set_byte_def)

lemma set_mem_fields [simp]:
  "core_regs (set_word p a w) = core_regs p" "core_regs (set_half p a h) = core_regs p"
  "core_regs (set_byte p a b) = core_regs p"
  "cycle_count (set_word p a w) = cycle_count p" "cycle_count (set_half p a h) = cycle_count p"
  "cycle_count (set_byte p a b) = cycle_count p"
  "xreg (set_word p a w) n = xreg p n" "xreg (set_half p a h) n = xreg p n"
  "xreg (set_byte p a b) n = xreg p n"
  "rval (set_word p a w) n = rval p n" "rval (set_half p a h) n = rval p n"
  "rval (set_byte p a b) n = rval p n"
  "cpsr (set_word p a w) = cpsr p" "cpsr (set_half p a h) = cpsr p" "cpsr (set_byte p a b) = cpsr p"
  by (simp_all add: set_word_def set_half_def set_byte_def)

lemma wf_set_mem_word [simp, wf_intros]:
  "wf_core p \<Longrightarrow> word_ok (core_mem p) a \<Longrightarrow> wf_core (set_word p a v)"
  by (simp add: set_word_def)

lemma wf_set_mem_half [simp, wf_intros]:
  "wf_core p \<Longrightarrow> half_ok (core_mem p) a \<Longrightarrow> wf_core (set_half p a h)"
  by (simp add: set_half_def)

lemma wf_set_mem_byte [simp, wf_intros]:
  "wf_core p \<Longrightarrow> byte_ok (core_mem p) a \<Longrightarrow> wf_core (set_byte p a b)"
  by (simp add: set_byte_def)

lemma set_mem_ok [simp]:
  "word_ok (core_mem (set_word p a w)) x = word_ok (core_mem p) x"
  "half_ok (core_mem (set_half p a h)) x = half_ok (core_mem p) x"
  "byte_ok (core_mem (set_byte p a b)) x = byte_ok (core_mem p) x"
  "mem_size (core_mem (set_word p a w)) = mem_size (core_mem p)"
  "mem_size (core_mem (set_half p a h)) = mem_size (core_mem p)"
  "mem_size (core_mem (set_byte p a b)) = mem_size (core_mem p)"
  by (simp_all add: set_word_def set_half_def set_byte_def)

text \<open>The core passes the contract of the memory on to the instructions.\<close>

interpretation core_words: access_store arm_read_word arm_write_word wf_core
  "\<lambda>p. word_ok (core_mem p)" "\<lambda>p a. \<not> word_ok (core_mem p) a"
  by unfold_locales
    (auto simp: core_simps set_word_def word_at_set_word word_at_set_other)

interpretation core_halves: access_store arm_read_half arm_write_half wf_core
  "\<lambda>p. half_ok (core_mem p)" "\<lambda>p a. \<not> half_ok (core_mem p) a"
  by unfold_locales
    (auto simp: core_simps set_half_def half_at_set_half half_at_set_other)

interpretation core_bytes: access_store arm_read_byte arm_write_byte wf_core
  "\<lambda>p. byte_ok (core_mem p)"
  "\<lambda>p a. \<not> byte_ok (core_mem p) a \<and> a \<noteq> mem_size (core_mem p)"
  by unfold_locales
    (auto simp: core_simps byte_ok_neq set_byte_def nth_set_byte word_unat_eq_iff [symmetric])

text \<open>The registers below the program counter are the cells of a store.\<close>

interpretation core_registers: cell_store arm_read_register arm_write_register
  "\<lambda>p. wf_core p \<and> mode p = m" "\<lambda>_. {..14}" for m
proof unfold_locales
  have le: "i \<in> {..14 :: u8} \<Longrightarrow> i \<le> 15 \<and> i \<noteq> 15" for i
    by (auto simp: word_le_nat_alt)
  show "\<exists>v. arm_read_register s i = Some v" if "wf_core s \<and> mode s = m" "i \<in> {..14}" for s i
    using that le by (simp add: arm_read_register_wf)
  show "\<exists>t. arm_write_register s i v = Some t" if "wf_core s \<and> mode s = m" "i \<in> {..14}" for s i v
    using that le by (simp add: arm_write_register_wf)
  show "wf_core t \<and> mode t = m"
    if "wf_core s \<and> mode s = m" "i \<in> {..14}" "arm_write_register s i v = Some t" for s i v t
    using that le by (auto simp: arm_write_register_wf)
  show "arm_read_register t j = (if j = i then Some v else arm_read_register s j)"
    if "wf_core s \<and> mode s = m" "i \<in> {..14}" "j \<in> {..14}" "arm_write_register s i v = Some t"
    for s i j v t
    using that le by (auto simp: core_simps rval_def)
qed simp

section \<open>Fetching\<close>

lemma unmask_pc: "\<not> bit x (Suc 0) \<Longrightarrow> x AND 0xFFFFFFFD = (x :: u32)"
  by (rule word32_eqI) (simp add: bit_simps upt_32)

lemma aligned_bit_1: "4 dvd unat (x :: u32) \<Longrightarrow> \<not> bit x (Suc 0)"
proof -
  assume "4 dvd unat x"
  then have "\<not> bit (unat x) (Suc 0)"
    by (auto simp: bit_iff_odd elim!: dvdE)
  then show ?thesis by (simp add: bit_unsigned_iff)
qed

lemma aligned_add_4: "4 dvd unat (x :: u32) \<Longrightarrow> 4 dvd unat (x + 4)"
proof -
  assume "4 dvd unat x"
  then have "4 dvd (unat x + 4) mod 2 ^ 32" by (intro dvd_mod dvd_add) simp_all
  then show ?thesis by (simp add: unat_word_ariths)
qed

text \<open>At an aligned program counter an instruction reads its own address plus 8.\<close>

lemma rval_pc: "4 dvd unat (xreg p 15) \<Longrightarrow> rval p 15 = xreg p 15 + 4"
  by (simp add: rval_def unmask_pc aligned_bit_1 aligned_add_4)

definition fetch_address :: "arm_core \<Rightarrow> u32" where
  "fetch_address p = rval p 15 - 4"

definition fetched :: "arm_core \<Rightarrow> arm_core" where
  "fetched p = set_xreg (p\<lparr>cycle_count := cycle_count p + 1\<rparr>) 15 (fetch_address p + 4)"

lemma fetch_address_aligned: "4 dvd unat (xreg p 15) \<Longrightarrow> fetch_address p = xreg p 15"
  by (simp add: fetch_address_def rval_pc)

lemma arm_fetch_wf [core_simps]:
  assumes "wf_core p"
  shows "arm_fetch p = Some (if word_ok (core_mem p) (fetch_address p)
    then Granted (word_at (core_mem p) (fetch_address p)) else Denied, fetched p)"
  using assms
  by (simp add: arm_fetch_def Let_def core_simps fetch_address_def fetched_def)

lemma fetched_fields [simp]:
  "core_mem (fetched p) = core_mem p" "mode (fetched p) = mode p" "cpsr (fetched p) = cpsr p"
  "cycle_count (fetched p) = cycle_count p + 1"
  by (simp_all add: fetched_def)

lemma wf_fetched [simp, wf_intros]: "wf_core p \<Longrightarrow> wf_core (fetched p)"
  by (simp add: fetched_def)

lemma xreg_fetched [simp]:
  "wf_core p \<Longrightarrow> n \<le> 15 \<Longrightarrow> xreg (fetched p) n = (if n = 15 then fetch_address p + 4 else xreg p n)"
  by (simp add: fetched_def)

section \<open>Privileges\<close>

text \<open>In User mode no write to the CPSR changes the mode bits.\<close>

lemma upt_8: "[0..<8] = [0,1,2,3,4,5,6,7::nat]"
  by (simp add: upt_rec)

lemma mode_masked_user:
  "ucast (masked 0x07F0FDFF old v) AND 0x1F = (ucast old AND 0x1F :: u8)"
proof (rule bit_word_eqI)
  fix n assume "n < LENGTH(8)"
  then have "n \<in> set [0..<8]" by simp
  then show "bit (ucast (masked 0x07F0FDFF old v) AND 0x1F :: u8) n = bit (ucast old AND 0x1F :: u8) n"
    unfolding upt_8 by (auto simp: bit_simps bit_masked)
qed

lemma mode_set_cpsr_user: "wf_core p \<Longrightarrow> mode p = USR \<Longrightarrow> mode (set_cpsr p v) = USR"
  using mode_masked_user [of "cpsr p" v] by (simp add: mode_cpsr cpsr_mask_def)

section \<open>The frame of the handlers\<close>

text \<open>
  A handler that keeps the status registers, the cycle counter and the layout of the memory:
  everything but the general registers and the bytes of the memory.
\<close>

definition keeps_status :: "arm_core \<Rightarrow> arm_core \<Rightarrow> bool" where
  "keeps_status p q \<longleftrightarrow> wf_core q \<and> psr_registers (core_regs q) = psr_registers (core_regs p)
     \<and> cycle_count q = cycle_count p \<and> mem_size (core_mem q) = mem_size (core_mem p)
     \<and> is_big_endian_type (core_mem q) = is_big_endian_type (core_mem p)"

lemma keeps_status_refl [wf_intros]: "wf_core p \<Longrightarrow> keeps_status p p"
  by (simp add: keeps_status_def)

lemma keeps_status_trans: "keeps_status p q \<Longrightarrow> keeps_status q r \<Longrightarrow> keeps_status p r"
  by (auto simp: keeps_status_def)

lemma keeps_status_wf: "keeps_status p q \<Longrightarrow> wf_core q"
  by (simp add: keeps_status_def)

lemma keeps_status_same:
  assumes "keeps_status p q"
  shows "mode q = mode p" "cpsr q = cpsr p" "spsr q = spsr p"
    "word_ok (core_mem q) a = word_ok (core_mem p) a"
    "half_ok (core_mem q) a = half_ok (core_mem p) a"
    "byte_ok (core_mem q) a = byte_ok (core_mem p) a"
  using assms by (auto simp: keeps_status_def mode_of_def cpsr_def spsr_def word_ok_def half_ok_def
      byte_ok_def)

lemma keeps_status_set [wf_intros]:
  "keeps_status p q \<Longrightarrow> keeps_status p (set_xreg q n v)"
  "keeps_status p q \<Longrightarrow> word_ok (core_mem q) a \<Longrightarrow> keeps_status p (set_word q a w)"
  "keeps_status p q \<Longrightarrow> half_ok (core_mem q) a \<Longrightarrow> keeps_status p (set_half q a h)"
  "keeps_status p q \<Longrightarrow> byte_ok (core_mem q) a \<Longrightarrow> keeps_status p (set_byte q a b)"
  by (auto simp: keeps_status_def set_word_def set_half_def set_byte_def)

lemma set_upt_8: "set [0..<8] = {0,1,2,3,4,5,6,7::nat}"
  unfolding upt_8 by simp

lemma u8_eq_iff: "(x :: u8) = y \<longleftrightarrow> (\<forall>n \<in> {0,1,2,3,4,5,6,7}. bit x n = bit y n)"
proof -
  have "x = y \<longleftrightarrow> (\<forall>n \<in> set [0..<8]. bit x n = bit y n)"
    by (auto simp: intro: bit_word_eqI)
  then show ?thesis by (simp only: set_upt_8)
qed

section \<open>Register fields of an instruction\<close>

text \<open>A four-bit field of an instruction is a register number.\<close>

lemma field_le_15:
  assumes "l + 3 < 32" "h = l + 3"
  shows "(ucast (get_bits ins h l) :: u8) \<le> 15"
proof -
  have "unat (get_bits ins h l) < 16" using get_bits_less [of l h ins] assms by simp
  then have "unat (ucast (get_bits ins h l) :: u8) \<le> 15"
    by (simp add: unsigned_ucast_eq take_bit_nat_eq_self)
  then show ?thesis by (simp add: u8_le_15)
qed

lemma register_fields [simp]:
  "(ucast (get_bits ins 15 12) :: u8) \<le> 15" "(ucast (get_bits ins 19 16) :: u8) \<le> 15"
  "(ucast (get_bits ins 11 8) :: u8) \<le> 15" "(ucast (get_bits ins 3 0) :: u8) \<le> 15"
  by (rule field_le_15; simp)+

end
