(* ===== verification/CoreProperties.thy ===== *)
theory CoreProperties
  imports Core
begin

text \<open>
  The properties of the registers, the memory, the core and the bit helpers, with a witness for
  each one that has hypotheses.  \<open>demo_core\<close> is the core the witnesses run on: sixteen bytes of
  big-endian memory and the registers as they are after a reset.
\<close>

definition demo_memory :: memory where
  "demo_memory = \<lparr>is_big_endian_type = True, mem_size = 16,
     mem_data = [0, 1, 2, 3, 4, 5, 6, 7, 8, 9, 10, 11, 12, 13, 14, 15]\<rparr>"

definition demo_registers :: registers where
  "demo_registers = \<lparr>main_registers = replicate 16 0, banked_registers = replicate 15 0,
     psr_registers = [0x1D3, 0, 0, 0, 0, 0]\<rparr>"

definition demo_core :: arm_core where
  "demo_core = \<lparr>cycle_count = 0, core_regs = demo_registers, core_mem = demo_memory\<rparr>"

definition demo_user_core :: arm_core where
  "demo_user_core = demo_core\<lparr>core_regs := demo_registers\<lparr>psr_registers := [0x10, 0, 0, 0, 0, 0]\<rparr>\<rparr>"

lemma demo_wf [simp]:
  "wf_memory demo_memory" "wf_registers demo_registers" "wf_core demo_core" "wf_core demo_user_core"
  "mode_of demo_registers = SVC" "mode demo_core = SVC" "mode demo_user_core = USR"
  by (simp_all add: wf_core_def wf_memory_def wf_registers_def demo_core_def demo_user_core_def
      demo_memory_def demo_registers_def mode_of_def)

lemma demo_ok [simp]:
  "word_ok demo_memory 4" "core_mem demo_core = demo_memory" "mem_size demo_memory = 16"
  by (simp_all add: word_ok_def demo_memory_def demo_core_def)

lemma demo_values [simp]:
  "cpsr demo_core = 0x1D3" "cycle_count demo_core = 0" "xreg demo_core 0 = 0" "xreg demo_core 1 = 0"
  "xreg demo_core 13 = 0" "xreg demo_core 15 = 0" "rval demo_core 0 = 0" "rval demo_core 1 = 0"
  "rval demo_core 13 = 0" "rval demo_core 15 = 4"
  by (simp_all add: cpsr_def xreg_def rval_def demo_core_def demo_registers_def cell_of_def
      has_spsr_mode_def mode_of_def get_banked_register_from_mode_def)

section \<open>Registers\<close>

text \<open>C3: In a valid mode the index computations of the register bank implement the registers of
  the architecture: a register number reads the register the manual names in that mode, and a
  write changes that register and no other, in any mode.\<close>

theorem registers_refine_architecture:
  assumes "wf_registers r" "mode_of r \<in> valid_modes" "reg \<le> 15"
  shows "read_register r reg = Some (regs_of r (arch_reg_of (mode_of r) (unat reg)))
    \<and> (\<exists>r'. write_register r reg v = Some r' \<and> wf_registers r'
         \<and> psr_registers r' = psr_registers r
         \<and> (\<forall>a \<in> arch_regs. regs_of r' a = ((regs_of r)(arch_reg_of (mode_of r) (unat reg) := v)) a))"
  using read_register_arch [OF assms] write_register_arch [OF assms, of v] by blast

theorem registers_refine_architecture_witness:
  "read_register demo_registers 13 = Some (regs_of demo_registers (Bank SVC 13))
    \<and> (\<exists>r'. write_register demo_registers 13 7 = Some r' \<and> regs_of r' (Bank SVC 13) = 7
      \<and> regs_of r' (R 13) = 0)"
proof -
  have m: "mode_of demo_registers \<in> valid_modes" by (simp add: valid_modes_def)
  have "Bank SVC 13 \<in> arch_regs" "R 13 \<in> arch_regs" by (auto simp: arch_regs_def)
  moreover have "regs_of demo_registers (R 13) = 0" by (simp add: regs_of_def demo_registers_def)
  ultimately show ?thesis
    using registers_refine_architecture [OF _ m, of 13 7] by (auto simp: arch_reg_of_def)
qed

text \<open>A write of the CPSR keeps the reserved bits; in User mode it keeps everything but the
  flags and the bit 9, so the mode too, and in the other modes the mode is the one written.\<close>

lemma write_cpsr_privileges:
  assumes "wf_core p"
  shows "\<exists>q. arm_write_cpsr p v = Some q \<and> wf_core q
    \<and> (\<forall>n < 32. bit (cpsr q) n = (if bit (if mode p = USR then 0x07F0FDFF else 0x07F0FC20 :: u32) n
         then bit (cpsr p) n else bit v n))
    \<and> mode q = (if mode p = USR then USR else ucast v AND 0x1F)"
proof -
  have "mode (set_cpsr p v) = ucast v AND 0x1F" if "mode p \<noteq> USR"
  proof -
    have "ucast (masked 0x07F0FC20 x v) AND 0x1F = (ucast v AND 0x1F :: u8)" for x
      unfolding u8_eq_iff by (auto simp: bit_simps bit_masked)
    then show ?thesis using assms that by (simp add: mode_cpsr cpsr_mask_def)
  qed
  then show ?thesis
    using assms mode_set_cpsr_user [OF assms, of v]
    by (auto simp: arm_write_cpsr_wf bit_masked cpsr_mask_def)
qed

section \<open>Memory\<close>

text \<open>C12: A word written at an aligned address inside the memory is read back, in either byte
  order, and the write changes no other word.\<close>

theorem memory_word_roundtrip:
  assumes "wf_memory m" "4 dvd unat a" "unat a + 4 \<le> unat (mem_size m)"
  shows "\<exists>m'. memory_write_word m a v = Some (0, m') \<and> wf_memory m'
    \<and> memory_read_word m' a = Some (Granted v)
    \<and> (\<forall>b. 4 dvd unat b \<and> unat b + 4 \<le> unat (mem_size m) \<and> b \<noteq> a \<longrightarrow>
         memory_read_word m' b = memory_read_word m b)"
proof -
  have ok: "word_ok m a" using assms by (simp add: word_ok_def)
  obtain m' where m': "memory_write_word m a v = Some (0, m')"
    using words.wr_ok [OF assms(1) ok] by blast
  have "memory_read_word m' b = memory_read_word m b" if "word_ok m b" "b \<noteq> a" for b
    using words.rd_wr [OF assms(1) ok that(1) m'] that(2) by simp
  then show ?thesis
    using m' words.wr_inv [OF assms(1) ok m'] words.wr_rd [OF assms(1) ok m']
    by (auto simp: word_ok_def)
qed

theorem memory_word_roundtrip_witness:
  "\<exists>m'. memory_write_word demo_memory 4 0x12345678 = Some (0, m')
    \<and> memory_read_word m' 4 = Some (Granted 0x12345678)
    \<and> memory_read_word m' 8 = memory_read_word demo_memory 8"
  using memory_word_roundtrip [where m = demo_memory and a = "4" and v = "0x12345678"] by auto

text \<open>A word access that is misaligned or leaves the memory returns the failure code, and the
  write changes nothing.\<close>

lemma memory_word_refused:
  assumes "wf_memory m" "\<not> (4 dvd unat a \<and> unat a + 4 \<le> unat (mem_size m))"
  shows "memory_read_word m a = Some Denied \<and> memory_write_word m a v = Some (-1, m)"
proof -
  have "\<not> word_ok m a" using assms(2) by (auto simp: word_ok_def)
  then show ?thesis using words.rd_bad [OF assms(1)] words.wr_bad [OF assms(1)] by simp
qed

lemma word_parts:
  fixes a b c d :: u8
  defines "w \<equiv> (push_bit 24 (ucast a) OR push_bit 16 (ucast b) OR push_bit 8 (ucast c) OR ucast d :: u32)"
  shows "ucast (drop_bit (8 * (3 - 0)) w) = a" "ucast (drop_bit (8 * (3 - 1)) w) = b"
    "ucast (drop_bit (8 * (3 - 2)) w) = c" "ucast (drop_bit (8 * (3 - 3)) w) = d"
    "ucast (drop_bit (8 * 3) w) = a" "ucast (drop_bit (8 * 2) w) = b"
    "ucast (drop_bit (8 * 1) w) = c" "ucast (drop_bit (8 * 0) w) = d"
proof -
  have high: "8 \<le> n \<Longrightarrow> \<not> bit (x :: u8) n" for x n by (auto dest: bit_imp_le_length)
  show "ucast (drop_bit (8 * (3 - 0)) w) = a" "ucast (drop_bit (8 * (3 - 1)) w) = b"
    "ucast (drop_bit (8 * (3 - 2)) w) = c" "ucast (drop_bit (8 * (3 - 3)) w) = d"
    "ucast (drop_bit (8 * 3) w) = a" "ucast (drop_bit (8 * 2) w) = b"
    "ucast (drop_bit (8 * 1) w) = c" "ucast (drop_bit (8 * 0) w) = d"
    unfolding w_def u8_eq_iff by (simp_all add: bit_simps high)
qed

text \<open>A word is the four bytes at its addresses: the most significant byte first in a
  big-endian memory, last in a little-endian one.\<close>

lemma memory_word_bytes:
  assumes "wf_memory m" "4 dvd unat a" "unat a + 4 \<le> unat (mem_size m)"
    and "memory_read_word m a = Some (Granted v)" "k < 4"
  shows "memory_read_byte m (a + word_of_nat k)
    = Some (Granted (ucast (drop_bit (8 * (if is_big_endian_type m then 3 - k else k)) v)))"
proof -
  have ok: "word_ok m a" using assms by (simp add: word_ok_def)
  have u: "unat (a + word_of_nat k) = unat a + k" "unat a + k < length (mem_data m)"
    using word_ok_bytes [OF assms(1) ok, of k] assms(5) by simp_all
  have v: "v = word_at m a" using assms(1,4) ok by (simp add: memory_read_word_wf)
  have "k \<in> {0, 1, 2, 3}" using assms(5) by auto
  then have "mem_data m ! (unat a + k)
      = ucast (drop_bit (8 * (if is_big_endian_type m then 3 - k else k)) v)"
    unfolding v word_at_def Let_def
    by (cases "is_big_endian_type m") (auto simp only: word_parts or.assoc if_True if_False)
  moreover have "byte_ok m (a + word_of_nat k)" "a + word_of_nat k \<noteq> mem_size m"
    using u assms(1) by (auto simp: byte_ok_def wf_memory_def)
  ultimately show ?thesis using assms(1) u by (simp add: memory_read_byte_wf)
qed

text \<open>C19: The outcome of every byte access: inside the memory it succeeds, beyond its end it
  returns the failure code, and at the address that equals the size, which the bound check lets
  through, it leaves the allocated block.\<close>

theorem memory_byte_outcomes:
  assumes "wf_memory m"
  shows "(a < mem_size m \<longrightarrow> (\<exists>v. memory_read_byte m a = Some (Granted v))
      \<and> (\<exists>m'. memory_write_byte m a w = Some (0, m') \<and> wf_memory m'
           \<and> memory_read_byte m' a = Some (Granted w)))
    \<and> (mem_size m < a \<longrightarrow> memory_read_byte m a = Some Denied
         \<and> memory_write_byte m a w = Some (-1, m))
    \<and> (a = mem_size m \<longrightarrow> memory_read_byte m a = None \<and> memory_write_byte m a w = None)"
proof -
  have ok: "byte_ok m a \<longleftrightarrow> a < mem_size m" by (simp add: byte_ok_def word_less_nat_alt)
  show ?thesis
    using assms ok bytes.wr_rd [OF assms, of a w] bytes.wr_ok [OF assms, of a w]
      bytes.wr_inv [OF assms, of a w]
    by (auto simp: memory_read_byte_wf memory_write_byte_wf)
qed

theorem memory_byte_outcomes_witness:
  "(\<exists>v. memory_read_byte demo_memory 3 = Some (Granted v))
    \<and> memory_read_byte demo_memory 17 = Some Denied \<and> memory_read_byte demo_memory 16 = None"
  using memory_byte_outcomes [of demo_memory 3] memory_byte_outcomes [of demo_memory 17]
    memory_byte_outcomes [of demo_memory 16] by simp

section \<open>The core\<close>

text \<open>A core that is created starts in Supervisor mode at address 0 with interrupts disabled,
  all registers 0 and the given memory.\<close>

lemma arm_create_state:
  "\<exists>p. arm_create True True True True True m = Some (Some p) \<and> cycle_count p = 0 \<and> core_mem p = m
    \<and> wf_registers (core_regs p) \<and> xreg p 15 = 0 \<and> cpsr p = 0x1D3 \<and> mode p = SVC \<and> (\<forall>a \<in> arch_regs. regs_of (core_regs p) a = 0)"
proof -
  let ?r = "\<lparr>main_registers = replicate 16 0, banked_registers = replicate 15 0,
    psr_registers = (replicate 6 0)[0 := 0x1F :: u32]\<rparr>"
  have wf: "wf_registers ?r" by (simp add: wf_registers_def)
  have m: "mode_of ?r = SYS" by (simp add: mode_of_def)
  let ?s = "?r\<lparr>psr_registers := (replicate 6 0)[0 := 0x1D3]\<rparr>"
  have "masked 0x07F0FC20 0x1F 0x1D3 = 0x1D3" by (simp add: masked_def)
  then have w: "write_cpsr ?r 0x1D3 = Some ?s"
    using wf by (simp add: write_cpsr_wf m cpsr_mask_def)
  have "wf_registers ?s" by (simp add: wf_registers_def)
  then have u: "write_usr_register ?s 15 0 = Some (cell_set ?s (Main 15) 0)"
    by (simp add: write_usr_register_wf)
  let ?p = "\<lparr>cycle_count = 0, core_regs = cell_set ?s (Main 15) 0, core_mem = m\<rparr>"
  have "arm_create True True True True True m = Some (Some ?p)"
    using w u by (simp add: arm_create_def registers_create_def arm_exception_def arm_write_cpsr_def
        arm_write_usr_register_def Exception_bit_9_def)
  moreover have "cell_get (cell_set ?s (Main 15) 0) c = 0" if "cell_ok c" for c
    using that by (cases c) (auto simp: nth_list_update)
  then have "\<forall>a \<in> arch_regs. regs_of (core_regs ?p) a = 0"
    using arch_cell_ok by (auto simp: regs_of_def)
  moreover have "cpsr ?p = 0x1D3" "mode ?p = SVC" by (simp_all add: cpsr_def mode_of_def)
  moreover have "wf_registers (core_regs ?p)" "xreg ?p 15 = 0"
    by (simp_all add: wf_registers_def xreg_def)
  ultimately show ?thesis by fastforce
qed

text \<open>C20: The reset exception of a privileged mode enters Supervisor mode with interrupts
  disabled and jumps to 0; the same exception in User mode jumps to 0 and stays in User mode,
  because the write of the CPSR it makes is masked.\<close>

theorem reset_exception:
  assumes "wf_core p"
  shows "\<exists>q. arm_exception p 1 = Some q \<and> wf_core q \<and> xreg q 15 = 0 \<and> core_mem q = core_mem p
    \<and> (if mode p = USR then mode q = USR \<and> (bit (cpsr q) 7 \<longleftrightarrow> bit (cpsr p) 7)
       else mode q = SVC \<and> bit (cpsr q) 7 \<and> bit (cpsr q) 6)"
proof -
  have 1: "ucast (masked 0x07F0FC20 x 0x1D3) AND 0x1F = SVC" for x
    unfolding u8_eq_iff by (simp add: bit_simps bit_masked)
  then have "mode (set_cpsr p 0x1D3) = SVC" if "mode p \<noteq> USR"
    using assms that by (simp add: mode_cpsr cpsr_mask_def)
  then show ?thesis
    using assms mode_set_cpsr_user [OF assms, of "0x1D3"]
    by (auto simp: arm_exception_def Exception_bit_9_def core_simps bit_masked cpsr_mask_def)
qed

theorem reset_exception_witness:
  "(\<exists>q. arm_exception demo_core 1 = Some q \<and> mode q = SVC)
    \<and> (\<exists>q. arm_exception demo_user_core 1 = Some q \<and> mode q = USR)"
  using reset_exception [of demo_core] reset_exception [of demo_user_core] by auto

text \<open>At an aligned program counter inside the memory the fetch reads the word there, counts a
  cycle and advances the program counter by 4, and afterwards an instruction that reads r15 sees
  its own address plus 8.\<close>

lemma arm_fetch_semantics:
  assumes "wf_core p" "4 dvd unat (xreg p 15)" "unat (xreg p 15) + 4 \<le> unat (mem_size (core_mem p))"
  shows "\<exists>q. arm_fetch p = Some (Granted (word_at (core_mem p) (xreg p 15)), q) \<and> wf_core q
    \<and> cycle_count q = cycle_count p + 1 \<and> arm_read_register q 15 = Some (xreg p 15 + 8)
    \<and> core_mem q = core_mem p \<and> cpsr q = cpsr p
    \<and> (\<forall>n < 15. arm_read_register q n = arm_read_register p n)"
proof -
  have a: "fetch_address p = xreg p 15" using assms(2) by (simp add: fetch_address_aligned)
  have ok: "word_ok (core_mem p) (xreg p 15)" using assms by (simp add: word_ok_def)
  have "4 dvd unat (xreg (fetched p) 15)" using assms(1,2) by (simp add: a aligned_add_4)
  then have "rval (fetched p) 15 = xreg p 15 + 8" using assms(1) by (simp add: rval_pc a)
  moreover have "rval (fetched p) n = rval p n" if "n < 15" for n
    using that assms(1) by (auto simp: rval_def)
  moreover have "n \<le> 15" if "n < 15" for n :: u8 using that by simp
  ultimately show ?thesis
    using assms(1) a ok by (auto simp: arm_fetch_wf arm_read_register_wf)
qed

section \<open>Bit helpers\<close>

text \<open>For every count from 1 to 31 \<open>asr\<close> is the arithmetic shift of two's complement, and for
  every count below 32 \<open>ror\<close> is the rotation, whatever the host does with shifts by 32.\<close>

lemma shift_helpers:
  assumes "s < (32 :: u8)"
  shows "(0 < s \<longrightarrow> sint (asr h x s) = sint x div 2 ^ unat s) \<and> ror h x s = word_rotr (unat s) x"
proof -
  have "sint (asr h x s) = sint x div 2 ^ unat s" if "0 < s"
    using asr_eq [OF that assms, of h x] by (simp add: sint_signed_drop_bit_eq drop_bit_eq_div)
  then show ?thesis using ror_eq [OF assms] by blast
qed

text \<open>\<open>get_bits\<close> reads the field that \<open>set_bits\<close> has written, and it is the number that the
  bits \<open>l\<close> to \<open>h\<close> of the word are.\<close>

lemma bit_fields:
  assumes "l \<le> h" "h < 31" "unat v < 2 ^ (h - l + 1)"
  shows "get_bits (set_bits_macro x h l v) h l = v
    \<and> unat (get_bits x h l) = unat x div 2 ^ l mod 2 ^ (h - l + 1)"
proof -
  have "v = take_bit (h - l + 1) v"
    using assms(3) by (simp add: word_unat_eq_iff unsigned_take_bit_eq take_bit_nat_eq_self del: take_bit_Suc)
  moreover have "unat (get_bits x h l) = take_bit (h - l + 1) (drop_bit l (unat x))"
    using assms(1,2)
    by (simp only: get_bits_eq unsigned_take_bit_eq unat_drop_bit_eq)
  ultimately show ?thesis
    using get_bits_set_bits [OF assms(1,2)] by (simp only: take_bit_eq_mod drop_bit_eq_div)
qed

end
