(* ===== verification/Branch.thy ===== *)
theory Branch
  imports Core
begin

text \<open>
  \<open>arm_branch_other.c\<close>: branches, the software interrupt (which also ends the simulation) and
  MRS.  A handler returns the code 0 or an exception number with the new state; \<open>exit(0)\<close> ends
  the process and is a constructor of its own.
\<close>

datatype 'a outcome = Return int 'a | Exit int

definition branch_offset :: "u32 \<Rightarrow> u32" where
  "branch_offset ins =
     (let signed_immed_23 = get_bits ins 22 0;
          sign_bit = get_bit ins 23;
          signed_immed_23 = (if sign_bit \<noteq> 0 then signed_immed_23 OR push_bit 23 0x7F
            else signed_immed_23)
      in push_bit 2 signed_immed_23)"

definition arm_branch :: "arm_core \<Rightarrow> u32 \<Rightarrow> (int \<times> arm_core) option" where
  "arm_branch p ins = do {
     let store_return_address = get_bit ins 24;
     pc_value \<leftarrow> arm_read_register p 15;
     p \<leftarrow> (if store_return_address \<noteq> 0 then arm_write_register p 14 (pc_value - 4) else Some p);
     let new_signed_immed_32 = branch_offset ins;
     p \<leftarrow> arm_write_register p 15 (pc_value + new_signed_immed_32);
     Some (0, p)
   }"

definition arm_coprocessor_others_swi :: "arm_core \<Rightarrow> u32 \<Rightarrow> arm_core outcome" where
  "arm_coprocessor_others_swi p ins =
     (if get_bit ins 24 \<noteq> 0 then
        (if ins AND 0xFFFFFF = 0x123456 then Exit 0 else Return SOFTWARE_INTERRUPT p)
      else Return UNDEFINED_INSTRUCTION p)"

definition arm_miscellaneous :: "arm_core \<Rightarrow> u32 \<Rightarrow> (int \<times> arm_core) option" where
  "arm_miscellaneous p ins =
     (if get_bits ins 11 0 = 0 \<and> get_bits ins 19 16 = 0xF \<and> get_bits ins 21 20 = 0 then do {
        let destination_register = ucast (get_bits ins 15 12);
        psr_value \<leftarrow> (if get_bit ins 22 \<noteq> 0 then arm_read_spsr p else arm_read_cpsr p);
        p \<leftarrow> arm_write_register p destination_register psr_value;
        Some (0, p)
      }
      else Some (UNDEFINED_INSTRUCTION, p))"

section \<open>What the handlers compute\<close>

text \<open>The offset is the sign-extended 24-bit field of the instruction, in words.\<close>

lemma branch_offset_eq: "branch_offset ins = push_bit 2 (scast (ucast ins :: 24 word))"
proof (rule word32_eqI, intro ballI)
  fix n assume n: "n \<in> set [0..<32]"
  show "bit (branch_offset ins) n = bit (push_bit 2 (scast (ucast ins :: 24 word)) :: u32) n"
    using n unfolding branch_offset_def upt_32
    by (auto simp: Let_def bit_simps bit_get_bits)
qed

lemma arm_branch_wf [core_simps]:
  assumes "wf_core p"
  shows "arm_branch p ins = Some (0,
    set_xreg (if bit ins 24 then set_xreg p 14 (rval p 15 - 4) else p) 15
      (rval p 15 + push_bit 2 (scast (ucast ins :: 24 word))))"
  using assms by (simp add: arm_branch_def Let_def core_simps branch_offset_eq)

lemma arm_miscellaneous_wf [core_simps]:
  assumes "wf_core p"
  shows "arm_miscellaneous p ins =
    Some (if get_bits ins 11 0 = 0 \<and> get_bits ins 19 16 = 0xF \<and> get_bits ins 21 20 = 0
      then (0, set_xreg p (ucast (get_bits ins 15 12))
        (if bit ins 22 then spsr p else cpsr p))
      else (UNDEFINED_INSTRUCTION, p))"
  using assms by (simp add: arm_miscellaneous_def core_simps)

end
