(* ===== verification/DataProcessing.thy ===== *)
theory DataProcessing
  imports Core
begin

text \<open>
  \<open>arm_data_processing.h\<close> and \<open>arm_data_processing.c\<close>: the shifter operand, the sixteen data
  processing instructions, and the computation of the condition flags.  The first part
  translates the code, one definition per helper and per case of the opcode switch; the second
  part is the specification of each piece.

  A flag is a \<open>u32\<close> that is 0 or 1, as in the code; \<open>of_c_bool\<close> is the conversion of a C truth
  value.
\<close>

section \<open>Flag computations\<close>

definition borrow_from :: "u32 \<Rightarrow> u32 \<Rightarrow> u32" where
  "borrow_from a b = of_c_bool (b > a)"

definition borrow_from_tri :: "u32 \<Rightarrow> u32 \<Rightarrow> u32 \<Rightarrow> u32" where
  "borrow_from_tri a b c = of_c_bool (a < b + c \<or> b > a - c \<or> c > a - b)"

definition carry_from :: "u32 \<Rightarrow> u32 \<Rightarrow> u32" where
  "carry_from a b = of_c_bool (a > 0xffffffff - b \<or> b > 0xfffffff - a)"

definition carry_from_tri :: "u32 \<Rightarrow> u32 \<Rightarrow> u32 \<Rightarrow> u32" where
  "carry_from_tri a b c =
     of_c_bool (a > 0xffffffff - b - c \<or> b > 0xfffffff - a - c \<or> c > 0xfffffff - a - b)"

abbreviation (input) "ADDITION \<equiv> 0 :: int"
abbreviation (input) "SOUSTRACTION \<equiv> 1 :: int"

definition overflow_from :: "int \<Rightarrow> u32 \<Rightarrow> u32 \<Rightarrow> u32" where
  "overflow_from op a b =
     (if op = ADDITION then
        let c = a + b in
        of_c_bool (get_bit a 31 = get_bit b 31 \<and> get_bit a 31 \<noteq> get_bit c 31)
      else if op = SOUSTRACTION then
        let c = a - b in
        of_c_bool (get_bit a 31 \<noteq> get_bit b 31 \<and> get_bit a 31 \<noteq> get_bit c 31)
      else 0)"

definition overflow_from_tri :: "int \<Rightarrow> u32 \<Rightarrow> u32 \<Rightarrow> u32 \<Rightarrow> u32" where
  "overflow_from_tri op a b c = of_c_bool (overflow_from op a b \<noteq> 0 \<or> overflow_from op a c \<noteq> 0
     \<or> overflow_from op b c \<noteq> 0 \<or> overflow_from op (a + b) c \<noteq> 0)"

text \<open>C's logical negation of a flag.\<close>

definition c_not :: "u32 \<Rightarrow> u32" where
  "c_not x = of_c_bool (x = 0)"

definition write_flags :: "u32 \<Rightarrow> u32 \<Rightarrow> u32 \<Rightarrow> u32 \<Rightarrow> arm_core \<Rightarrow> arm_core option" where
  "write_flags flag_N flag_Z flag_C flag_V p = do {
     let flag_N = push_bit N_flag flag_N;
     let flag_Z = push_bit Z_flag flag_Z;
     let flag_C = push_bit C_flag flag_C;
     let flag_V = push_bit V_flag flag_V;
     let flag_N = flag_N OR flag_Z OR flag_C OR flag_V;
     psr \<leftarrow> arm_read_cpsr p;
     let flag_N = (psr AND 0x0fffffff) OR flag_N;
     arm_write_cpsr p flag_N
   }"

section \<open>The shifter operand\<close>

text \<open>The operand and the carry of the shifter.\<close>

definition shifter_immediate :: "host \<Rightarrow> u32 \<Rightarrow> u32 \<Rightarrow> u32 \<times> u32" where
  "shifter_immediate h ins carry =
     (let rotation = ucast ((drop_bit 8 ins AND 0xf) * 2) :: u8;
          ins_shifter = ror h (ins AND 0xff) rotation
      in (ins_shifter, if rotation \<noteq> 0 then get_bit ins_shifter 31 else carry))"

text \<open>
  The shifts of a register operand: \<open>code\<close> is the byte \<open>ins[11:4]\<close>.  The result is \<open>None\<close>
  where the code returns \<open>UNDEFINED_INSTRUCTION\<close> (the outer \<open>None\<close> is, as everywhere, undefined
  behaviour of a register access).
\<close>

definition shifter_register ::
  "host \<Rightarrow> arm_core \<Rightarrow> u32 \<Rightarrow> u32 \<Rightarrow> (u32 \<times> u32) option option" where
  "shifter_register h p ins carry = do {
     let code = (ucast (drop_bit 4 ins) :: u8) AND 0xff;
     let shift = drop_bit 3 code;
     rm \<leftarrow> arm_read_register p (ucast (ins AND 0xf));
     let read_rs = do { rs \<leftarrow> arm_read_register p (drop_bit 1 shift); Some (rs AND 0xff) };
     if code = 0x00 then Some (Some (rm, carry))
     else if code AND 0x7 = 0x0 then
       Some (Some (push_bit (unat shift) rm,
         if shift > 0 then get_bit rm (32 - unat shift) else carry))
     else if code AND 0xf = 0x1 then do {
       rs \<leftarrow> read_rs;
       Some (Some (if rs = 0 then (rm, carry)
         else if rs < 32 then (push_bit (unat rs) rm, get_bit rm (32 - unat rs))
         else if rs = 32 then (0, rm AND 1)
         else (0, 0)))
     }
     else if code AND 0x7 = 0x2 then
       Some (Some (if shift = 0 then (0, get_bit rm 31)
         else (drop_bit (unat shift) rm, get_bit rm (unat shift - 1))))
     else if code AND 0xf = 0x3 then do {
       rs \<leftarrow> read_rs;
       Some (Some (if rs = 0 then (rm, carry)
         else if rs < 32 then (drop_bit (unat rs) rm, get_bit rm (unat rs - 1))
         else if rs = 32 then (0, get_bit rm 31)
         else (0, 0)))
     }
     else if code AND 0x7 = 0x4 then
       Some (Some (if shift = 0 then
           (if get_bit rm 31 = 0 then (0, 0) else (0xffffffff, 1))
         else (asr h rm shift, get_bit rm (unat shift - 1))))
     else if code AND 0xf = 0x5 then do {
       rs \<leftarrow> read_rs;
       Some (Some (if rs = 0 then (rm, carry)
         else if rs < 32 then (asr h rm (ucast rs), get_bit rm (unat rs - 1))
         else if get_bit rm 31 = 0 then (0, 0) else (0xffffffff, 1)))
     }
     else if code AND 0x7 = 0x6 then
       Some (Some (if shift = 0 then (push_bit 31 carry OR drop_bit 1 rm, get_bit rm 0)
         else (asr h rm shift, get_bit rm (unat shift - 1))))
     else if code AND 0xf = 0x7 then do {
       rs \<leftarrow> read_rs;
       Some (Some (if rs = 0 then (rm, carry)
         else if rs AND 0xf = 0 then (rm, get_bit rm 31)
         else (asr h rm (ucast (rs AND 0xf)), get_bit rm (unat (rs AND 0xf) - 1))))
     }
     else if code = 0x06 then
       Some (Some (push_bit 31 carry OR drop_bit 1 rm, get_bit rm 0))
     else Some None
   }"

definition shifter_operand ::
  "host \<Rightarrow> arm_core \<Rightarrow> u32 \<Rightarrow> (u32 \<times> u32) option option" where
  "shifter_operand h p ins = do {
     psr \<leftarrow> arm_read_cpsr p;
     let carry = get_bit psr C_flag;
     if get_bit ins 25 = 1 then Some (Some (shifter_immediate h ins carry))
     else shifter_register h p ins carry
   }"

section \<open>The sixteen instructions\<close>

text \<open>
  The end of the twelve cases that write a result: \<open>carry\<close> and \<open>overflow\<close> are the expressions
  the case assigns to \<open>flag_C\<close> and \<open>flag_V\<close>.  The code evaluates them after the destination
  register has been written, on the registers as they are then.
\<close>

definition dp_result :: "arm_core \<Rightarrow> u8 \<Rightarrow> u32 \<Rightarrow> u32
    \<Rightarrow> (arm_core \<Rightarrow> u32 option) \<Rightarrow> (arm_core \<Rightarrow> u32 option) \<Rightarrow> arm_core option" where
  "dp_result p rd S result carry overflow = do {
     p \<leftarrow> arm_write_register p rd result;
     if S = 1 \<and> rd = 0xf then do {
       has_spsr \<leftarrow> arm_current_mode_has_spsr p;
       if has_spsr then do { psr \<leftarrow> arm_read_spsr p; arm_write_cpsr p psr }
       else Some p
     }
     else if S = 1 then do {
       d \<leftarrow> arm_read_register p rd;
       let flag_N = get_bit d 31;
       d \<leftarrow> arm_read_register p rd;
       let flag_Z = of_c_bool (d = 0);
       flag_C \<leftarrow> carry p;
       flag_V \<leftarrow> overflow p;
       write_flags flag_N flag_Z flag_C flag_V p
     }
     else Some p
   }"

text \<open>The end of the four cases that only compare.\<close>

definition dp_compare :: "arm_core \<Rightarrow> u32
    \<Rightarrow> (arm_core \<Rightarrow> u32 option) \<Rightarrow> (arm_core \<Rightarrow> u32 option) \<Rightarrow> arm_core option" where
  "dp_compare p alu_out carry overflow = do {
     let flag_N = get_bit alu_out 31;
     let flag_Z = of_c_bool (alu_out = 0);
     flag_C \<leftarrow> carry p;
     flag_V \<leftarrow> overflow p;
     write_flags flag_N flag_Z flag_C flag_V p
   }"

text \<open>
  Each case: the arguments are the register numbers and the bit \<open>S\<close> of the instruction, the
  shifter operand \<open>sh\<close> and the shifter carry \<open>sc\<close>.
\<close>

definition dp_and :: "arm_core \<Rightarrow> u8 \<Rightarrow> u8 \<Rightarrow> u32 \<Rightarrow> u32 \<Rightarrow> u32 \<Rightarrow> arm_core option" where
  "dp_and p rd rn S sh sc = do {
     a \<leftarrow> arm_read_register p rn;
     dp_result p rd S (a AND sh) (\<lambda>_. Some sc) (\<lambda>_. Some 0)
   }"

definition dp_eor :: "arm_core \<Rightarrow> u8 \<Rightarrow> u8 \<Rightarrow> u32 \<Rightarrow> u32 \<Rightarrow> u32 \<Rightarrow> arm_core option" where
  "dp_eor p rd rn S sh sc = do {
     a \<leftarrow> arm_read_register p rn;
     dp_result p rd S (a XOR sh) (\<lambda>_. Some sc) (\<lambda>_. Some 0)
   }"

definition dp_sub :: "arm_core \<Rightarrow> u8 \<Rightarrow> u8 \<Rightarrow> u32 \<Rightarrow> u32 \<Rightarrow> arm_core option" where
  "dp_sub p rd rn S sh = do {
     a \<leftarrow> arm_read_register p rn;
     dp_result p rd S (a - sh)
       (\<lambda>p. do { a \<leftarrow> arm_read_register p rn; Some (c_not (borrow_from a sh)) })
       (\<lambda>p. do { a \<leftarrow> arm_read_register p rn; Some (overflow_from SOUSTRACTION a sh) })
   }"

definition dp_rsb :: "arm_core \<Rightarrow> u8 \<Rightarrow> u8 \<Rightarrow> u32 \<Rightarrow> u32 \<Rightarrow> arm_core option" where
  "dp_rsb p rd rn S sh = do {
     a \<leftarrow> arm_read_register p rn;
     dp_result p rd S (sh - a)
       (\<lambda>p. do { a \<leftarrow> arm_read_register p rn; Some (c_not (borrow_from sh a)) })
       (\<lambda>p. do { a \<leftarrow> arm_read_register p rn; Some (overflow_from SOUSTRACTION sh a) })
   }"

definition dp_add :: "arm_core \<Rightarrow> u8 \<Rightarrow> u8 \<Rightarrow> u32 \<Rightarrow> u32 \<Rightarrow> arm_core option" where
  "dp_add p rd rn S sh = do {
     a \<leftarrow> arm_read_register p rn;
     dp_result p rd S (a + sh)
       (\<lambda>p. do { a \<leftarrow> arm_read_register p rn; Some (carry_from a sh) })
       (\<lambda>p. do { a \<leftarrow> arm_read_register p rn; Some (overflow_from ADDITION a sh) })
   }"

text \<open>The carry flag as the arithmetic instructions read it.\<close>

definition read_carry :: "arm_core \<Rightarrow> u32 option" where
  "read_carry p = do { psr \<leftarrow> arm_read_cpsr p; Some (get_bit psr C_flag) }"

definition dp_adc :: "arm_core \<Rightarrow> u8 \<Rightarrow> u8 \<Rightarrow> u32 \<Rightarrow> u32 \<Rightarrow> arm_core option" where
  "dp_adc p rd rn S sh = do {
     a \<leftarrow> arm_read_register p rn;
     c \<leftarrow> read_carry p;
     dp_result p rd S (a + sh + c)
       (\<lambda>p. do { a \<leftarrow> arm_read_register p rn; c \<leftarrow> read_carry p; Some (carry_from_tri a sh c) })
       (\<lambda>p. do { a \<leftarrow> arm_read_register p rn; c \<leftarrow> read_carry p;
                 Some (overflow_from_tri ADDITION a sh c) })
   }"

definition dp_sbc :: "arm_core \<Rightarrow> u8 \<Rightarrow> u8 \<Rightarrow> u32 \<Rightarrow> u32 \<Rightarrow> arm_core option" where
  "dp_sbc p rd rn S sh = do {
     a \<leftarrow> arm_read_register p rn;
     c \<leftarrow> read_carry p;
     dp_result p rd S (a - sh - c_not c)
       (\<lambda>p. do { a \<leftarrow> arm_read_register p rn; c \<leftarrow> read_carry p;
                 Some (c_not (borrow_from_tri a sh (c_not c))) })
       (\<lambda>p. do { a \<leftarrow> arm_read_register p rn; c \<leftarrow> read_carry p;
                 Some (overflow_from_tri SOUSTRACTION a sh (c_not c)) })
   }"

definition dp_rsc :: "arm_core \<Rightarrow> u8 \<Rightarrow> u8 \<Rightarrow> u32 \<Rightarrow> u32 \<Rightarrow> arm_core option" where
  "dp_rsc p rd rn S sh = do {
     a \<leftarrow> arm_read_register p rn;
     c \<leftarrow> read_carry p;
     dp_result p rd S (sh - a - c_not c)
       (\<lambda>p. do { a \<leftarrow> arm_read_register p rn; c \<leftarrow> read_carry p;
                 Some (c_not (borrow_from_tri sh a (c_not c))) })
       (\<lambda>p. do { a \<leftarrow> arm_read_register p rn; c \<leftarrow> read_carry p;
                 Some (overflow_from_tri SOUSTRACTION sh a (c_not c)) })
   }"

definition dp_tst :: "arm_core \<Rightarrow> u8 \<Rightarrow> u32 \<Rightarrow> u32 \<Rightarrow> arm_core option" where
  "dp_tst p rn sh sc = do {
     a \<leftarrow> arm_read_register p rn;
     dp_compare p (a AND sh) (\<lambda>_. Some sc) (\<lambda>_. Some 0)
   }"

definition dp_teq :: "arm_core \<Rightarrow> u8 \<Rightarrow> u32 \<Rightarrow> u32 \<Rightarrow> arm_core option" where
  "dp_teq p rn sh sc = do {
     a \<leftarrow> arm_read_register p rn;
     dp_compare p (a XOR sh) (\<lambda>_. Some sc) (\<lambda>_. Some 0)
   }"

definition dp_cmp :: "arm_core \<Rightarrow> u8 \<Rightarrow> u32 \<Rightarrow> arm_core option" where
  "dp_cmp p rn sh = do {
     a \<leftarrow> arm_read_register p rn;
     dp_compare p (a - sh)
       (\<lambda>p. do { a \<leftarrow> arm_read_register p rn; Some (c_not (borrow_from a sh)) })
       (\<lambda>p. do { a \<leftarrow> arm_read_register p rn; Some (overflow_from SOUSTRACTION a sh) })
   }"

definition dp_cmn :: "arm_core \<Rightarrow> u8 \<Rightarrow> u32 \<Rightarrow> arm_core option" where
  "dp_cmn p rn sh = do {
     a \<leftarrow> arm_read_register p rn;
     dp_compare p (a + sh)
       (\<lambda>p. do { a \<leftarrow> arm_read_register p rn; Some (carry_from a sh) })
       (\<lambda>p. do { a \<leftarrow> arm_read_register p rn; Some (overflow_from ADDITION a sh) })
   }"

definition dp_orr :: "arm_core \<Rightarrow> u8 \<Rightarrow> u8 \<Rightarrow> u32 \<Rightarrow> u32 \<Rightarrow> u32 \<Rightarrow> arm_core option" where
  "dp_orr p rd rn S sh sc = do {
     a \<leftarrow> arm_read_register p rn;
     dp_result p rd S (a OR sh) (\<lambda>_. Some sc) (\<lambda>_. Some 0)
   }"

definition dp_mov :: "arm_core \<Rightarrow> u8 \<Rightarrow> u32 \<Rightarrow> u32 \<Rightarrow> u32 \<Rightarrow> arm_core option" where
  "dp_mov p rd S sh sc = dp_result p rd S sh (\<lambda>_. Some sc) (\<lambda>_. Some 0)"

definition dp_bic :: "arm_core \<Rightarrow> u8 \<Rightarrow> u8 \<Rightarrow> u32 \<Rightarrow> u32 \<Rightarrow> u32 \<Rightarrow> arm_core option" where
  "dp_bic p rd rn S sh sc = do {
     a \<leftarrow> arm_read_register p rn;
     dp_result p rd S (a AND NOT sh) (\<lambda>_. Some sc) (\<lambda>_. Some 0)
   }"

definition dp_mvn :: "arm_core \<Rightarrow> u8 \<Rightarrow> u32 \<Rightarrow> u32 \<Rightarrow> u32 \<Rightarrow> arm_core option" where
  "dp_mvn p rd S sh sc = dp_result p rd S (NOT sh) (\<lambda>_. Some sc) (\<lambda>_. Some 0)"

definition arm_data_processing_shift ::
  "host \<Rightarrow> arm_core \<Rightarrow> u32 \<Rightarrow> (int \<times> arm_core) option" where
  "arm_data_processing_shift h p ins = do {
     let ins_opcode = drop_bit 21 ins AND 0xf;
     let S = get_bit ins 20;
     let rn = (ucast (drop_bit 16 ins) :: u8) AND 0xf;
     let rd = (ucast (drop_bit 12 ins) :: u8) AND 0xf;
     operand \<leftarrow> shifter_operand h p ins;
     case operand of
       None \<Rightarrow> Some (UNDEFINED_INSTRUCTION, p)
     | Some (sh, sc) \<Rightarrow> do {
         p \<leftarrow> (if ins_opcode = 0x0 then dp_and p rd rn S sh sc
           else if ins_opcode = 0x1 then dp_eor p rd rn S sh sc
           else if ins_opcode = 0x2 then dp_sub p rd rn S sh
           else if ins_opcode = 0x3 then dp_rsb p rd rn S sh
           else if ins_opcode = 0x4 then dp_add p rd rn S sh
           else if ins_opcode = 0x5 then dp_adc p rd rn S sh
           else if ins_opcode = 0x6 then dp_sbc p rd rn S sh
           else if ins_opcode = 0x7 then dp_rsc p rd rn S sh
           else if ins_opcode = 0x8 then dp_tst p rn sh sc
           else if ins_opcode = 0x9 then dp_teq p rn sh sc
           else if ins_opcode = 0xa then dp_cmp p rn sh
           else if ins_opcode = 0xb then dp_cmn p rn sh
           else if ins_opcode = 0xc then dp_orr p rd rn S sh sc
           else if ins_opcode = 0xd then dp_mov p rd S sh sc
           else if ins_opcode = 0xe then dp_bic p rd rn S sh sc
           else if ins_opcode = 0xf then dp_mvn p rd S sh sc
           else Some p);
         Some (0, p)
       }
   }"

definition arm_data_processing_immediate_msr :: "arm_core \<Rightarrow> u32 \<Rightarrow> int \<times> arm_core" where
  "arm_data_processing_immediate_msr p ins = (UNDEFINED_INSTRUCTION, p)"

section \<open>The flag computations against integer arithmetic\<close>

text \<open>The borrow of a subtraction is exact.\<close>

lemma borrow_from_eq: "borrow_from a b = of_c_bool (unat a < unat b)"
  by (simp add: borrow_from_def word_less_nat_alt)

text \<open>
  The carry of an addition is exact when the first operand has one of its four highest bits set;
  below that the constant with seven digits makes the code report a carry already when the sum
  reaches \<open>2 ^ 28\<close>.
\<close>

lemma carry_from_eq:
  "carry_from a b = of_c_bool (2 ^ (if unat a < 2 ^ 28 then 28 else 32) \<le> unat a + unat b)"
  using unat_u32_less [of a] unat_u32_less [of b]
  by (auto simp: carry_from_def word_less_nat_alt unat_sub_if')

lemma flag_cases: "c \<le> 1 \<Longrightarrow> unat (c :: u32) = 0 \<or> unat c = 1"
  by (auto simp: word_le_nat_alt)

lemma borrow_from_tri_eq:
  assumes "c \<le> 1"
  shows "borrow_from_tri a b c
    = of_c_bool (unat a < unat b + unat c \<and> \<not> (unat a = 0 \<and> unat b = 2 ^ 32 - 1 \<and> unat c = 1))"
  unfolding borrow_from_tri_def of_c_bool_eq_iff word_less_nat_alt
  using flag_cases [OF assms] unat_u32_less [of a] unat_u32_less [of b]
  by (simp add: unat_sub_if' unat_plus_if') arith

lemma carry_from_tri_eq:
  assumes "c \<le> 1" "2 ^ 28 \<le> unat a"
  shows "carry_from_tri a b c = of_c_bool (2 ^ 32 \<le> unat a + unat b + unat c)"
proof -
  note c = flag_cases [OF assms(1)]
  note b = unat_u32_less [of a] unat_u32_less [of b] assms(2)
  have x: "unat (0xffffffff - b - c) =
      (if unat b + unat c < 2 ^ 32 then 2 ^ 32 - 1 - unat b - unat c else 2 ^ 32 - 1)"
    using c b by (auto simp: unat_sub_if')
  have y: "unat (0xfffffff - a - c) = 2 ^ 28 - 1 + 2 ^ 32 - unat a - unat c"
    using c b by (auto simp: unat_sub_if')
  have z: "unat (0xfffffff - a - b) = (if unat b + unat a \<le> 2 ^ 28 + 2 ^ 32 - 1
      then 2 ^ 28 - 1 + 2 ^ 32 - unat a - unat b
      else 2 ^ 28 - 1 + 2 ^ 32 + 2 ^ 32 - unat a - unat b)"
    using c b by (auto simp: unat_sub_if')
  show ?thesis
    unfolding carry_from_tri_def of_c_bool_eq_iff word_less_nat_alt x y z
    using c b by (auto split: if_splits)
qed

text \<open>The two's complement value of a word, and the overflow of a sum and of a difference.\<close>

lemma uint_u32: "0 \<le> uint (x :: u32)" "uint x < 2 ^ 32"
  using uint_lt2p [of x] by simp_all

lemma sint_if: "sint x = (if 2 ^ 31 \<le> uint x then uint x - 2 ^ 32 else uint (x :: u32))"
  using uint_u32 [of x]
  by (auto simp: sint_uint signed_take_bit_eq_take_bit_shift take_bit_eq_mod mod_pos_geq)

lemma bit_31: "bit x 31 \<longleftrightarrow> 2 ^ 31 \<le> uint (x :: u32)"
  using bit_last_iff [of x] sint_if [of x] uint_u32 [of x] by auto

definition signed_range :: "int set" where
  "signed_range = {- (2 ^ 31)..<2 ^ 31}"

lemma overflow_add: "overflow_from ADDITION a b = of_c_bool (sint a + sint b \<notin> signed_range)"
proof -
  obtain x y where x: "uint a = x" "0 \<le> x" "x < 2 ^ 32" and y: "uint b = y" "0 \<le> y" "y < 2 ^ 32"
    using uint_u32 by blast
  show ?thesis using x(2,3) y(2,3)
    by (auto simp: overflow_from_def get_bit_eq Let_def bit_31 sint_if uint_plus_if'
        signed_range_def of_c_bool_def x(1) y(1))
qed

lemma overflow_sub: "overflow_from SOUSTRACTION a b = of_c_bool (sint a - sint b \<notin> signed_range)"
proof -
  obtain x y where x: "uint a = x" "0 \<le> x" "x < 2 ^ 32" and y: "uint b = y" "0 \<le> y" "y < 2 ^ 32"
    using uint_u32 by blast
  show ?thesis using x(2,3) y(2,3)
    by (auto simp: overflow_from_def get_bit_eq Let_def bit_31 sint_if uint_sub_if'
        signed_range_def of_c_bool_def x(1) y(1))
qed

text \<open>The flag functions return C truth values.\<close>

lemma flag_function_bool:
  "carry_from a b = of_c_bool (carry_from a b \<noteq> 0)"
  "carry_from_tri a b c = of_c_bool (carry_from_tri a b c \<noteq> 0)"
  "overflow_from_tri op a b c = of_c_bool (overflow_from_tri op a b c \<noteq> 0)"
  by (simp_all add: carry_from_def carry_from_tri_def overflow_from_tri_def of_c_bool_def)

lemma c_not_simps [simp]: "c_not (of_c_bool b) = of_c_bool (\<not> b)"
  by (simp add: c_not_def)

lemma c_not_bool: "c_not x = of_c_bool (x = 0)"
  by (simp add: c_not_def)

section \<open>Writing the flags\<close>

lemma bit_flag: "bit (push_bit k (of_c_bool b)) n \<longleftrightarrow> k < 32 \<and> n = k \<and> b"
  by (auto simp: of_c_bool_def bit_simps bit_1_iff split: if_splits)

definition set_flags :: "arm_core \<Rightarrow> bool \<Rightarrow> bool \<Rightarrow> bool \<Rightarrow> bool \<Rightarrow> arm_core" where
  "set_flags p n z c v = p\<lparr>core_regs := (core_regs p)\<lparr>psr_registers :=
     (psr_registers (core_regs p))[0 := push_bit 31 (of_c_bool n) OR push_bit 30 (of_c_bool z)
        OR push_bit 29 (of_c_bool c) OR push_bit 28 (of_c_bool v) OR (cpsr p AND 0x0fffffff)]\<rparr>\<rparr>"

text \<open>The mask of the CPSR lets the four flags through in every mode.\<close>

lemma write_flags_wf:
  assumes "wf_core p"
  shows "write_flags (of_c_bool n) (of_c_bool z) (of_c_bool c) (of_c_bool v) p
    = Some (set_flags p n z c v)"
proof -
  let ?f = "push_bit 31 (of_c_bool n) OR push_bit 30 (of_c_bool z) OR push_bit 29 (of_c_bool c)
    OR push_bit 28 (of_c_bool v)"
  have "masked (cpsr_mask (mode p)) (cpsr p) ((cpsr p AND 0xfffffff) OR ?f)
    = push_bit 31 (of_c_bool n) OR push_bit 30 (of_c_bool z)
      OR push_bit 29 (of_c_bool c) OR push_bit 28 (of_c_bool v) OR (cpsr p AND 0x0fffffff)"
    unfolding cpsr_mask_def
    by (rule word32_eqI) (simp add: bit_masked bit_simps bit_flag upt_32)
  then show ?thesis using assms
    by (simp add: write_flags_def Let_def core_simps set_cpsr_def set_flags_def cpsr_def)
qed

lemma set_flags_fields [simp]:
  "core_mem (set_flags p n z c v) = core_mem p"
  "cycle_count (set_flags p n z c v) = cycle_count p"
  "main_registers (core_regs (set_flags p n z c v)) = main_registers (core_regs p)"
  "banked_registers (core_regs (set_flags p n z c v)) = banked_registers (core_regs p)"
  by (simp_all add: set_flags_def)

lemma wf_set_flags [simp, wf_intros]: "wf_core p \<Longrightarrow> wf_core (set_flags p n z c v)"
  by (simp add: wf_core_def set_flags_def wf_registers_def del: wf_core_parts)

lemma bit_cpsr_set_flags:
  assumes "wf_core p"
  shows "bit (cpsr (set_flags p n z c v)) k \<longleftrightarrow>
    (if k = 31 then n else if k = 30 then z else if k = 29 then c else if k = 28 then v
     else bit (cpsr p) k)"
proof -
  have "cpsr (set_flags p n z c v) = push_bit 31 (of_c_bool n) OR push_bit 30 (of_c_bool z)
        OR push_bit 29 (of_c_bool c) OR push_bit 28 (of_c_bool v) OR (cpsr p AND mask 28)"
    using assms by (simp add: cpsr_def set_flags_def wf_core_def wf_registers_def mask_numeral del: wf_core_parts)
  then show ?thesis
    using bit_imp_le_length [of "cpsr p" k] by (auto simp: bit_or_iff bit_and_iff bit_flag bit_mask_iff)
qed

lemma mode_set_flags [simp]:
  assumes "wf_core p"
  shows "mode (set_flags p n z c v) = mode p"
  unfolding mode_cpsr
proof (rule bit_word_eqI)
  fix k assume "k < LENGTH(8)"
  then show "bit (ucast (cpsr (set_flags p n z c v)) AND 0x1F :: u8) k = bit (ucast (cpsr p) AND 0x1F :: u8) k"
    using assms by (simp add: bit_and_iff bit_unsigned_iff bit_cpsr_set_flags)
qed

lemma xreg_set_flags [simp]: "wf_core p \<Longrightarrow> xreg (set_flags p n z c v) k = xreg p k"
  by (rule xreg_cong) simp_all

lemma rval_set_flags [simp]: "wf_core p \<Longrightarrow> rval (set_flags p n z c v) k = rval p k"
  by (simp add: rval_def)

lemma spsr_set_flags [simp]: "wf_core p \<Longrightarrow> spsr (set_flags p n z c v) = spsr p"
  using get_register_from_mode_range [of "mode p"]
  by (auto simp: spsr_def) (auto simp: set_flags_def)

section \<open>Total forms of the sixteen instructions\<close>

definition dp_write :: "arm_core \<Rightarrow> u8 \<Rightarrow> u32 \<Rightarrow> u32 \<Rightarrow> bool \<Rightarrow> bool \<Rightarrow> arm_core" where
  "dp_write p rd S r c v =
     (let q = set_xreg p rd r in
      if S \<noteq> 1 then q
      else if rd = 15 then (if has_spsr_mode (mode p) then set_cpsr q (spsr p) else q)
      else set_flags q (bit r 31) (r = 0) c v)"

lemma rval_set_xreg:
  "wf_core p \<Longrightarrow> n \<le> 15 \<Longrightarrow> k \<le> 15 \<Longrightarrow> rval (set_xreg p n v) k
    = (if k \<noteq> n then rval p k else if n = 15 then (v + 4) AND 0xFFFFFFFD else v)"
  by (simp add: rval_def)

lemma dp_result_wf:
  assumes "wf_core p" "rd \<le> 15"
    and "carry (set_xreg p rd r) = Some (of_c_bool c)"
    and "overflow (set_xreg p rd r) = Some (of_c_bool v)"
  shows "dp_result p rd S r carry overflow = Some (dp_write p rd S r c v)"
proof (cases "S = 1 \<and> rd = 15")
  case True
  then show ?thesis using assms by (simp add: dp_result_def dp_write_def Let_def core_simps)
next
  case False
  then show ?thesis
    using assms
    by (auto simp: dp_result_def dp_write_def Let_def core_simps rval_set_xreg get_bit_c_bool write_flags_wf)
qed

lemma dp_compare_wf:
  assumes "wf_core p" "carry p = Some (of_c_bool c)" "overflow p = Some (of_c_bool v)"
  shows "dp_compare p r carry overflow = Some (set_flags p (bit r 31) (r = 0) c v)"
  using assms by (simp add: dp_compare_def get_bit_c_bool write_flags_wf)

section \<open>The specification of the arithmetic\<close>

text \<open>
  The sixteen operations of the ARM manual (table A3-2): result, carry and overflow of the
  opcode on the first operand \<open>a\<close>, the shifter operand \<open>b\<close> with the shifter carry \<open>sc\<close>, and
  the carry flag \<open>c\<close>.
\<close>

definition alu_result :: "u32 \<Rightarrow> u32 \<Rightarrow> u32 \<Rightarrow> bool \<Rightarrow> u32" where
  "alu_result opcode a b c =
     (if opcode \<in> {0, 8} then a AND b
      else if opcode \<in> {1, 9} then a XOR b
      else if opcode \<in> {2, 0xa} then a - b
      else if opcode = 3 then b - a
      else if opcode \<in> {4, 0xb} then a + b
      else if opcode = 5 then a + b + of_c_bool c
      else if opcode = 6 then a - b - of_c_bool (\<not> c)
      else if opcode = 7 then b - a - of_c_bool (\<not> c)
      else if opcode = 0xc then a OR b
      else if opcode = 0xd then b
      else if opcode = 0xe then a AND NOT b
      else NOT b)"

text \<open>The flags C and V as the code computes them from the operands.\<close>

definition alu_carry :: "u32 \<Rightarrow> u32 \<Rightarrow> u32 \<Rightarrow> bool \<Rightarrow> bool \<Rightarrow> bool" where
  "alu_carry opcode a b sc c =
     (if opcode \<in> {2, 0xa} then b \<le> a
      else if opcode = 3 then a \<le> b
      else if opcode \<in> {4, 0xb} then carry_from a b \<noteq> 0
      else if opcode = 5 then carry_from_tri a b (of_c_bool c) \<noteq> 0
      else if opcode = 6 then borrow_from_tri a b (of_c_bool (\<not> c)) = 0
      else if opcode = 7 then borrow_from_tri b a (of_c_bool (\<not> c)) = 0
      else sc)"

definition alu_overflow :: "u32 \<Rightarrow> u32 \<Rightarrow> u32 \<Rightarrow> bool \<Rightarrow> bool" where
  "alu_overflow opcode a b c =
     (if opcode \<in> {2, 0xa} then sint a - sint b \<notin> signed_range
      else if opcode = 3 then sint b - sint a \<notin> signed_range
      else if opcode \<in> {4, 0xb} then sint a + sint b \<notin> signed_range
      else if opcode = 5 then overflow_from_tri ADDITION a b (of_c_bool c) \<noteq> 0
      else if opcode = 6 then overflow_from_tri SOUSTRACTION a b (of_c_bool (\<not> c)) \<noteq> 0
      else if opcode = 7 then overflow_from_tri SOUSTRACTION b a (of_c_bool (\<not> c)) \<noteq> 0
      else False)"

definition dp_exec ::
  "arm_core \<Rightarrow> u32 \<Rightarrow> u8 \<Rightarrow> u8 \<Rightarrow> u32 \<Rightarrow> u32 \<Rightarrow> bool \<Rightarrow> arm_core" where
  "dp_exec p opcode rd rn S b sc =
     (let a = rval p rn; c = bit (cpsr p) 29; r = alu_result opcode a b c in
      if opcode \<in> {8, 9, 0xa, 0xb} then
        set_flags p (bit r 31) (r = 0) (alu_carry opcode a b sc c) (alu_overflow opcode a b c)
      else
        let a = rval (set_xreg p rd r) rn in
        dp_write p rd S r (alu_carry opcode a b sc c) (alu_overflow opcode a b c))"

lemma tri_bool:
  "c_not (borrow_from_tri a b c) = of_c_bool (borrow_from_tri a b c = 0)"
  "c_not (borrow_from a b) = of_c_bool (b \<le> a)"
  by (simp_all add: c_not_bool borrow_from_def linorder_not_less)

lemma read_carry_wf [core_simps]: "wf_core p \<Longrightarrow> read_carry p = Some (of_c_bool (bit (cpsr p) 29))"
  by (simp add: read_carry_def core_simps get_bit_c_bool)

lemmas dp_defs = dp_exec_def alu_result_def alu_carry_def alu_overflow_def Let_def

lemma dp_logic_wf:
  assumes p: "wf_core p" "rd \<le> 15" "rn \<le> 15"
  shows "dp_and p rd rn S b (of_c_bool sc) = Some (dp_exec p 0 rd rn S b sc)"
  "dp_eor p rd rn S b (of_c_bool sc) = Some (dp_exec p 1 rd rn S b sc)"
  "dp_orr p rd rn S b (of_c_bool sc) = Some (dp_exec p 0xc rd rn S b sc)"
  "dp_mov p rd S b (of_c_bool sc) = Some (dp_exec p 0xd rd rn S b sc)"
  "dp_bic p rd rn S b (of_c_bool sc) = Some (dp_exec p 0xe rd rn S b sc)"
  "dp_mvn p rd S b (of_c_bool sc) = Some (dp_exec p 0xf rd rn S b sc)"
  using p by (simp_all add: dp_and_def dp_eor_def dp_orr_def dp_mov_def dp_bic_def dp_mvn_def
      core_simps dp_defs dp_result_wf [where v = False])

lemma dp_compare_ops_wf:
  assumes p: "wf_core p" "rn \<le> 15"
  shows "dp_tst p rn b (of_c_bool sc) = Some (dp_exec p 8 rd rn S b sc)"
  "dp_teq p rn b (of_c_bool sc) = Some (dp_exec p 9 rd rn S b sc)"
  "dp_cmp p rn b = Some (dp_exec p 0xa rd rn S b sc)"
  "dp_cmn p rn b = Some (dp_exec p 0xb rd rn S b sc)"
proof -
  note d = core_simps dp_defs
  show "dp_tst p rn b (of_c_bool sc) = Some (dp_exec p 8 rd rn S b sc)"
    "dp_teq p rn b (of_c_bool sc) = Some (dp_exec p 9 rd rn S b sc)"
    using p by (simp_all add: dp_tst_def dp_teq_def d dp_compare_wf [where v = False])
  show "dp_cmp p rn b = Some (dp_exec p 0xa rd rn S b sc)"
    using p by (simp add: dp_cmp_def d tri_bool overflow_sub
        dp_compare_wf [where c = "b \<le> rval p rn" and v = "sint (rval p rn) - sint b \<notin> signed_range"])
  show "dp_cmn p rn b = Some (dp_exec p 0xb rd rn S b sc)"
    using p by (simp add: dp_cmn_def d overflow_add
        dp_compare_wf [where c = "carry_from (rval p rn) b \<noteq> 0"
          and v = "sint (rval p rn) + sint b \<notin> signed_range"] flag_function_bool(1) [symmetric])
qed

lemma dp_arith_wf:
  assumes p: "wf_core p" "rd \<le> 15" "rn \<le> 15"
  shows "dp_sub p rd rn S b = Some (dp_exec p 2 rd rn S b sc)"
    "dp_rsb p rd rn S b = Some (dp_exec p 3 rd rn S b sc)"
    "dp_add p rd rn S b = Some (dp_exec p 4 rd rn S b sc)"
proof -
  note d = core_simps dp_defs tri_bool overflow_sub overflow_add
  let ?a = "rval p rn"
  have "dp_sub p rd rn S b = Some (dp_write p rd S (?a - b)
      (b \<le> rval (set_xreg p rd (?a - b)) rn)
      (sint (rval (set_xreg p rd (?a - b)) rn) - sint b \<notin> signed_range))"
    unfolding dp_sub_def using p by (simp add: d, intro dp_result_wf) (simp_all add: d)
  then show "dp_sub p rd rn S b = Some (dp_exec p 2 rd rn S b sc)" by (simp add: dp_defs)
  have "dp_rsb p rd rn S b = Some (dp_write p rd S (b - ?a)
      (rval (set_xreg p rd (b - ?a)) rn \<le> b)
      (sint b - sint (rval (set_xreg p rd (b - ?a)) rn) \<notin> signed_range))"
    unfolding dp_rsb_def using p by (simp add: d, intro dp_result_wf) (simp_all add: d)
  then show "dp_rsb p rd rn S b = Some (dp_exec p 3 rd rn S b sc)" by (simp add: dp_defs)
  have "dp_add p rd rn S b = Some (dp_write p rd S (?a + b)
      (carry_from (rval (set_xreg p rd (?a + b)) rn) b \<noteq> 0)
      (sint (rval (set_xreg p rd (?a + b)) rn) + sint b \<notin> signed_range))"
    unfolding dp_add_def using p
    by (simp add: d, intro dp_result_wf) (simp_all add: d flag_function_bool [symmetric])
  then show "dp_add p rd rn S b = Some (dp_exec p 4 rd rn S b sc)" by (simp add: dp_defs)
qed

lemma dp_carry_wf:
  assumes p: "wf_core p" "rd \<le> 15" "rn \<le> 15"
  shows "dp_adc p rd rn S b = Some (dp_exec p 5 rd rn S b sc)"
    "dp_sbc p rd rn S b = Some (dp_exec p 6 rd rn S b sc)"
    "dp_rsc p rd rn S b = Some (dp_exec p 7 rd rn S b sc)"
proof -
  note d = core_simps dp_defs tri_bool 
  let ?a = "rval p rn" and ?c = "bit (cpsr p) 29"
  let ?q = "\<lambda>r. rval (set_xreg p rd r) rn"
  have "dp_adc p rd rn S b = Some (let r = ?a + b + of_c_bool ?c in dp_write p rd S r
      (carry_from_tri (?q r) b (of_c_bool ?c) \<noteq> 0)
      (overflow_from_tri ADDITION (?q r) b (of_c_bool ?c) \<noteq> 0))"
    unfolding dp_adc_def using p
    by (simp add: d, intro dp_result_wf) (simp_all add: d flag_function_bool [symmetric])
  then show "dp_adc p rd rn S b = Some (dp_exec p 5 rd rn S b sc)" by (simp add: dp_defs)
  have "dp_sbc p rd rn S b = Some (let r = ?a - b - of_c_bool (\<not> ?c) in dp_write p rd S r
      (borrow_from_tri (?q r) b (of_c_bool (\<not> ?c)) = 0)
      (overflow_from_tri SOUSTRACTION (?q r) b (of_c_bool (\<not> ?c)) \<noteq> 0))"
    unfolding dp_sbc_def using p
    by (simp add: d, intro dp_result_wf) (simp_all add: d flag_function_bool [symmetric])
  then show "dp_sbc p rd rn S b = Some (dp_exec p 6 rd rn S b sc)" by (simp add: dp_defs)
  have "dp_rsc p rd rn S b = Some (let r = b - ?a - of_c_bool (\<not> ?c) in dp_write p rd S r
      (borrow_from_tri b (?q r) (of_c_bool (\<not> ?c)) = 0)
      (overflow_from_tri SOUSTRACTION b (?q r) (of_c_bool (\<not> ?c)) \<noteq> 0))"
    unfolding dp_rsc_def using p
    by (simp add: d, intro dp_result_wf) (simp_all add: d flag_function_bool [symmetric])
  then show "dp_rsc p rd rn S b = Some (dp_exec p 7 rd rn S b sc)" by (simp add: dp_defs)
qed

section \<open>The shifter operand\<close>

text \<open>
  The shifts of the ARM manual (section A5.1) by any count: the result and the carry.  The types
  are the values of bits 6 and 5 of the instruction: LSL, LSR, ASR, ROR.
\<close>

definition shift_spec :: "u32 \<Rightarrow> nat \<Rightarrow> u32 \<Rightarrow> bool \<Rightarrow> u32 \<times> bool" where
  "shift_spec type n x c =
     (if type = 0 then (push_bit n x, if n = 0 then c else n \<le> 32 \<and> bit x (32 - n))
      else if type = 1 then (drop_bit n x, if n = 0 then c else bit x (n - 1))
      else if type = 2 then (signed_drop_bit n x, if n = 0 then c else bit x (min (n - 1) 31))
      else (word_rotr n x, if n = 0 then c else bit x ((n - 1) mod 32)))"

text \<open>The byte \<open>ins[11:4]\<close>: what its tests mean for the bits of the instruction.\<close>

lemma shift_code_bits:
  fixes ins :: u32
  defines "code \<equiv> (ucast (drop_bit 4 ins) :: u8) AND 0xff"
  shows "code = 0 \<longleftrightarrow> code AND 7 = 0 \<and> drop_bit 3 code = 0"
    "code AND 7 = 0 \<longleftrightarrow> \<not> bit ins 4 \<and> \<not> bit ins 5 \<and> \<not> bit ins 6"
    "code AND 7 = 2 \<longleftrightarrow> \<not> bit ins 4 \<and> bit ins 5 \<and> \<not> bit ins 6"
    "code AND 7 = 4 \<longleftrightarrow> \<not> bit ins 4 \<and> \<not> bit ins 5 \<and> bit ins 6"
    "code AND 7 = 6 \<longleftrightarrow> \<not> bit ins 4 \<and> bit ins 5 \<and> bit ins 6"
    "code AND 0xf = 1 \<longleftrightarrow> bit ins 4 \<and> \<not> bit ins 7 \<and> \<not> bit ins 5 \<and> \<not> bit ins 6"
    "code AND 0xf = 3 \<longleftrightarrow> bit ins 4 \<and> \<not> bit ins 7 \<and> bit ins 5 \<and> \<not> bit ins 6"
    "code AND 0xf = 5 \<longleftrightarrow> bit ins 4 \<and> \<not> bit ins 7 \<and> \<not> bit ins 5 \<and> bit ins 6"
    "code AND 0xf = 7 \<longleftrightarrow> bit ins 4 \<and> \<not> bit ins 7 \<and> bit ins 5 \<and> bit ins 6"
    "code = 6 \<Longrightarrow> code AND 7 = 6"
    "drop_bit 1 (drop_bit 3 code) \<le> 15" "drop_bit 3 code < 32"
    "drop_bit 3 code = ucast (get_bits ins 11 7)"
    "drop_bit 1 (drop_bit 3 code) = ucast (get_bits ins 11 8)"
proof -
  show "code = 0 \<longleftrightarrow> code AND 7 = 0 \<and> drop_bit 3 code = 0"
    unfolding code_def u8_eq_iff by (auto simp: bit_simps)
  show "code AND 7 = 0 \<longleftrightarrow> \<not> bit ins 4 \<and> \<not> bit ins 5 \<and> \<not> bit ins 6"
    "code AND 7 = 2 \<longleftrightarrow> \<not> bit ins 4 \<and> bit ins 5 \<and> \<not> bit ins 6"
    "code AND 7 = 4 \<longleftrightarrow> \<not> bit ins 4 \<and> \<not> bit ins 5 \<and> bit ins 6"
    "code AND 7 = 6 \<longleftrightarrow> \<not> bit ins 4 \<and> bit ins 5 \<and> bit ins 6"
    "code AND 0xf = 1 \<longleftrightarrow> bit ins 4 \<and> \<not> bit ins 7 \<and> \<not> bit ins 5 \<and> \<not> bit ins 6"
    "code AND 0xf = 3 \<longleftrightarrow> bit ins 4 \<and> \<not> bit ins 7 \<and> bit ins 5 \<and> \<not> bit ins 6"
    "code AND 0xf = 5 \<longleftrightarrow> bit ins 4 \<and> \<not> bit ins 7 \<and> \<not> bit ins 5 \<and> bit ins 6"
    "code AND 0xf = 7 \<longleftrightarrow> bit ins 4 \<and> \<not> bit ins 7 \<and> bit ins 5 \<and> bit ins 6"
    unfolding code_def u8_eq_iff by (auto simp: bit_simps)
  show "code = 6 \<Longrightarrow> code AND 7 = 6" by simp
  show d: "drop_bit 3 code = ucast (get_bits ins 11 7)"
    unfolding code_def u8_eq_iff by (auto simp: bit_simps bit_get_bits)
  show e: "drop_bit 1 (drop_bit 3 code) = ucast (get_bits ins 11 8)"
    unfolding code_def u8_eq_iff by (auto simp: bit_simps bit_get_bits)
  show "drop_bit 1 (drop_bit 3 code) \<le> 15" unfolding e by simp
  have "unat (get_bits ins 11 7) < 32" using get_bits_less [of 7 11 ins] by simp
  then show "drop_bit 3 code < 32" 
    unfolding d by (simp add: word_less_nat_alt unsigned_ucast_eq take_bit_nat_eq_self)
qed

lemma shift_type_bits: "get_bits ins 6 5 = (if bit ins 5 then 1 else 0) + (if bit ins 6 then 2 else 0)"
  by (rule word32_eqI) (auto simp: upt_32 bit_simps bit_get_bits)

text \<open>
  What the code computes: the specification for the first three types; for ROR an arithmetic
  shift, by the count modulo 16 when it comes from a register; RRX for the count 0.
\<close>

definition code_shift :: "u32 \<Rightarrow> bool \<Rightarrow> nat \<Rightarrow> u32 \<Rightarrow> bool \<Rightarrow> u32 \<times> bool" where
  "code_shift type by_register n x c =
     (if type \<noteq> 3 then shift_spec type (if \<not> by_register \<and> n = 0 \<and> type \<noteq> 0 then 32 else n) x c
      else if by_register then
        if n = 0 then (x, c)
        else if n mod 16 = 0 then (x, bit x 31)
        else (signed_drop_bit (n mod 16) x, bit x (n mod 16 - 1))
      else if n = 0 then (push_bit 31 (of_c_bool c) OR drop_bit 1 x, bit x 0)
      else (signed_drop_bit n x, bit x (n - 1)))"

lemma long_shifts:
  "32 \<le> n \<Longrightarrow> push_bit n x = (0 :: u32)" "32 \<le> n \<Longrightarrow> drop_bit n x = (0 :: u32)"
  "32 \<le> n \<Longrightarrow> signed_drop_bit n x = (if bit x 31 then 0xffffffff else 0 :: u32)"
  "32 < n \<Longrightarrow> \<not> bit (x :: u32) (n - Suc 0)"
proof -
  show "32 \<le> n \<Longrightarrow> push_bit n x = 0"
    by (rule bit_word_eqI) (simp add: bit_simps)
  show "32 \<le> n \<Longrightarrow> drop_bit n x = 0"
    by (rule bit_word_eqI) (auto simp: bit_simps dest: bit_imp_le_length)
  have "signed_drop_bit n x = (if bit x 31 then NOT 0 else 0)" if "32 \<le> n"
    using that by (intro bit_word_eqI) (auto simp: bit_signed_drop_bit_iff)
  then show "32 \<le> n \<Longrightarrow> signed_drop_bit n x = (if bit x 31 then 0xffffffff else 0)" by simp
  show "32 < n \<Longrightarrow> \<not> bit x (n - Suc 0)" by (auto dest: bit_imp_le_length)
qed

definition shifter_result :: "(u32 \<times> bool) \<Rightarrow> (u32 \<times> u32) option option" where
  "shifter_result r = Some (Some (fst r, of_c_bool (snd r)))"

lemma asr_register:
  "rs AND 0xff = n \<Longrightarrow> 0 < n \<Longrightarrow> n < 32 \<Longrightarrow> asr h x (ucast n) = signed_drop_bit (unat n) x"
  for n :: u32
proof -
  assume "0 < n" "n < 32"
  then have n: "0 < unat n" "unat n < 32" by (auto simp: word_less_nat_alt unat_gt_0)
  then have "unat (ucast n :: u8) = unat n" by (simp add: unsigned_ucast_eq take_bit_nat_eq_self)
  with n asr_eq [of "ucast n" h x] show ?thesis
    by (simp add: word_less_nat_alt)
qed

lemma and_1: "x AND 1 = of_c_bool (bit x 0)"
  using get_bit_c_bool [of x 0] by (simp add: get_bit_def)

lemma shift_by_register:
  assumes "n = (rs AND 0xff :: u32)"
  shows
   "Some (Some (if n = 0 then (x, of_c_bool c)
       else if n < 32 then (push_bit (unat n) x, get_bit x (32 - unat n))
       else if n = 32 then (0, x AND 1) else (0, 0)))
     = shifter_result (code_shift 0 True (unat n) x c)" (is ?A)
   "Some (Some (if n = 0 then (x, of_c_bool c)
       else if n < 32 then (drop_bit (unat n) x, get_bit x (unat n - 1))
       else if n = 32 then (0, get_bit x 31) else (0, 0)))
     = shifter_result (code_shift 1 True (unat n) x c)" (is ?B)
   "Some (Some (if n = 0 then (x, of_c_bool c)
       else if n < 32 then (asr h x (ucast n), get_bit x (unat n - 1))
       else if get_bit x 31 = 0 then (0, 0) else (0xffffffff, 1)))
     = shifter_result (code_shift 2 True (unat n) x c)" (is ?C)
   "Some (Some (if n = 0 then (x, of_c_bool c)
       else if n AND 0xf = 0 then (x, get_bit x 31)
       else (asr h x (ucast (n AND 0xf)), get_bit x (unat (n AND 0xf) - 1))))
     = shifter_result (code_shift 3 True (unat n) x c)" (is ?D)
proof -
  have c: "n = 0 \<or> (0 < n \<and> n < 32) \<or> n = 32 \<or> 32 < n" by (auto simp: word_gt_0)
  note d = shifter_result_def code_shift_def shift_spec_def get_bit_c_bool long_shifts
    word_less_nat_alt
  have u: "n = 0 \<longleftrightarrow> unat n = 0" "n = 32 \<longleftrightarrow> unat n = 32" by (simp_all add: word_unat_eq_iff)
  show ?A using c by (auto simp: d u and_1)
  show ?B using c by (auto simp: d u)
  have "asr h x (ucast n) = signed_drop_bit (unat n) x" if "0 < unat n" "unat n < 32"
    using that assms by (intro asr_register [of rs]) (simp_all add: word_less_nat_alt)
  then show ?C using c by (auto simp: d u)
  have m: "unat (n AND 0xf) = unat n mod 16"
  proof -
    have "n AND 0xf = take_bit 4 n" by (simp add: take_bit_eq_mask mask_numeral)
    then have "unat (n AND 0xf) = take_bit 4 (unat n)" by (simp add: unsigned_take_bit_eq)
    then show ?thesis by (simp add: take_bit_eq_mod)
  qed
  have "asr h x (ucast (n AND 0xf)) = signed_drop_bit (unat n mod 16) x" if "0 < unat n mod 16"
    using that asr_register [of "n AND 0xf" "n AND 0xf" h x] assms m
    by (simp add: word_less_nat_alt and.assoc word_bw_assocs)
  then show ?D by (auto simp: d u m word_unat_eq_iff [of "n AND 0xf"])
qed
lemma shift_by_immediate:
  fixes n :: u8
  assumes "n < 32"
  shows
   "Some (Some (push_bit (unat n) x, if n > 0 then get_bit x (32 - unat n) else of_c_bool c))
     = shifter_result (code_shift 0 False (unat n) x c)" (is ?A)
   "Some (Some (if n = 0 then (0, get_bit x 31)
       else (drop_bit (unat n) x, get_bit x (unat n - 1))))
     = shifter_result (code_shift 1 False (unat n) x c)" (is ?B)
   "Some (Some (if n = 0 then (if get_bit x 31 = 0 then (0, 0) else (0xffffffff, 1))
       else (asr h x n, get_bit x (unat n - 1))))
     = shifter_result (code_shift 2 False (unat n) x c)" (is ?C)
   "Some (Some (if n = 0 then (push_bit 31 (of_c_bool c) OR drop_bit 1 x, get_bit x 0)
       else (asr h x n, get_bit x (unat n - 1))))
     = shifter_result (code_shift 3 False (unat n) x c)" (is ?D)
proof -
  note d = shifter_result_def code_shift_def shift_spec_def get_bit_c_bool long_shifts
    word_less_nat_alt
  have u: "n = 0 \<longleftrightarrow> unat n = 0" by (simp add: word_unat_eq_iff)
  have l: "unat n < 32" using assms by (simp add: word_less_nat_alt)
  have a: "asr h x n = signed_drop_bit (unat n) x" if "0 < unat n"
    using that assms by (intro asr_eq) (simp_all add: word_less_nat_alt)
  show ?A using l by (auto simp: d u)
  show ?B using l by (auto simp: d u)
  show ?C using a l by (auto simp: d u)
  show ?D using a l by (auto simp: d u)
qed

text \<open>The operand as a function of the fields of the instruction.\<close>

definition shift_amount :: "arm_core \<Rightarrow> u32 \<Rightarrow> nat" where
  "shift_amount p ins = (if bit ins 4
     then unat (rval p (ucast (get_bits ins 11 8)) AND 0xff)
     else unat (ucast (get_bits ins 11 7) :: u8))"

lemma and_15: "(ucast (ins AND 0xf :: u32) :: u8) = ucast (get_bits ins 3 0)"
  unfolding u8_eq_iff by (auto simp: bit_simps bit_get_bits)

lemma shifter_register_wf:
  assumes "wf_core p"
  shows "shifter_register h p ins (of_c_bool c) =
    (if bit ins 4 \<and> bit ins 7 then Some None
     else shifter_result (code_shift (get_bits ins 6 5) (bit ins 4) (shift_amount p ins)
       (rval p (ucast (get_bits ins 3 0))) c))"
proof -
  define code where "code = (ucast (drop_bit 4 ins) :: u8) AND 0xff"
  note b = shift_code_bits [of ins, folded code_def]
  note reg = shift_by_register [OF refl] and imm = shift_by_immediate [OF b(12)]
  have rm: "arm_read_register p (ucast (ins AND 0xf)) = Some (rval p (ucast (get_bits ins 3 0)))"
    using assms by (simp add: and_15 core_simps)
  have rs: "arm_read_register p (drop_bit 1 (drop_bit 3 code)) = Some (rval p (ucast (get_bits ins 11 8)))"
    using assms by (simp only: b(14)) (simp add: core_simps)
  have six: "bit ins 4 \<Longrightarrow> code \<noteq> 6" using b(5,10) by blast
  have zero: "Some (Some (x, of_c_bool c)) = shifter_result (code_shift 0 False 0 x c)" for x
    by (simp add: shifter_result_def code_shift_def shift_spec_def)
  have rs: "arm_read_register p (drop_bit 4 code) = Some (rval p (ucast (get_bits ins 11 8)))"
    using rs by simp
  note d = shifter_register_def Let_def code_def [symmetric] rm rs shift_type_bits shift_amount_def
    b(13) [symmetric]
  show ?thesis
    using b(1) six
    by (cases "bit ins 4"; cases "bit ins 7"; cases "bit ins 5"; cases "bit ins 6")
      (simp_all add: d b(2-9) reg imm zero)
qed

lemma shifter_immediate_wf:
  "shifter_immediate h ins (of_c_bool c) =
    (let n = 2 * unat (get_bits ins 11 8); v = word_rotr n (ins AND 0xff)
     in (v, of_c_bool (if n = 0 then c else bit v 31)))"
proof -
  have f: "drop_bit 8 ins AND 0xf = get_bits ins 11 8"
    by (rule word32_eqI) (simp add: bit_simps bit_get_bits upt_32)
  have l: "unat (get_bits ins 11 8) < 16" using get_bits_less [of 8 11 ins] by simp
  let ?r = "ucast (get_bits ins 11 8 * 2) :: u8"
  have r: "unat ?r = 2 * unat (get_bits ins 11 8)"
    using l by (simp add: unsigned_ucast_eq take_bit_eq_mod unat_word_ariths)
  have "?r < 32" using l r by (simp add: word_less_nat_alt)
  moreover have "?r = 0 \<longleftrightarrow> unat (get_bits ins 11 8) = 0"
    unfolding word_unat_eq_iff r by simp
  ultimately show ?thesis
    by (simp add: shifter_immediate_def Let_def f ror_eq r get_bit_c_bool)
qed

definition operand_spec :: "arm_core \<Rightarrow> u32 \<Rightarrow> (u32 \<times> bool) option" where
  "operand_spec p ins = (let c = bit (cpsr p) 29 in
     if bit ins 25 then
       let n = 2 * unat (get_bits ins 11 8); v = word_rotr n (ins AND 0xff)
       in Some (v, if n = 0 then c else bit v 31)
     else if bit ins 4 \<and> bit ins 7 then None
     else Some (code_shift (get_bits ins 6 5) (bit ins 4) (shift_amount p ins)
       (rval p (ucast (get_bits ins 3 0))) c))"

lemma shifter_operand_wf [core_simps]:
  assumes "wf_core p"
  shows "shifter_operand h p ins = Some (map_option (map_prod id of_c_bool) (operand_spec p ins))"
  using assms
  by (simp add: shifter_operand_def operand_spec_def core_simps get_bit_c_bool Let_def
      shifter_immediate_wf shifter_register_wf shifter_result_def map_prod_def split_beta)

section \<open>The instruction\<close>

lemma dp_register_fields:
  "(ucast (drop_bit 16 ins) :: u8) AND 0xf = ucast (get_bits ins 19 16)"
  "(ucast (drop_bit 12 ins) :: u8) AND 0xf = ucast (get_bits ins 15 12)"
  "drop_bit 21 ins AND 0xf = get_bits ins 24 21"
proof -
  show "(ucast (drop_bit 16 ins) :: u8) AND 0xf = ucast (get_bits ins 19 16)"
    "(ucast (drop_bit 12 ins) :: u8) AND 0xf = ucast (get_bits ins 15 12)"
    unfolding u8_eq_iff by (auto simp: bit_simps bit_get_bits)
  show "drop_bit 21 ins AND 0xf = get_bits ins 24 21"
    by (rule word32_eqI) (simp add: bit_simps bit_get_bits upt_32)
qed

lemma opcode_cases:
  "get_bits ins 24 21 \<in> {0, 1, 2, 3, 4, 5, 6, 7, 8, 9, 0xa, 0xb, 0xc, 0xd, 0xe, 0xf}"
proof -
  have "unat (get_bits ins 24 21) < 16" using get_bits_less [of 21 24 ins] by simp
  then have "unat (get_bits ins 24 21) \<in> {0, 1, 2, 3, 4, 5, 6, 7, 8, 9, 10, 11, 12, 13, 14, 15}"
    unfolding insert_iff empty_iff by arith
  then show ?thesis by (auto simp: word_unat_eq_iff)
qed

lemma arm_data_processing_shift_wf [core_simps]:
  assumes "wf_core p"
  shows "arm_data_processing_shift h p ins = Some (case operand_spec p ins of
      None \<Rightarrow> (UNDEFINED_INSTRUCTION, p)
    | Some (b, sc) \<Rightarrow> (0, dp_exec p (get_bits ins 24 21) (ucast (get_bits ins 15 12))
        (ucast (get_bits ins 19 16)) (get_bit ins 20) b sc))"
proof (cases "operand_spec p ins")
  case None
  then show ?thesis using assms by (simp add: arm_data_processing_shift_def core_simps)
next
  case (Some operand)
  obtain b sc where o: "operand = (b, sc)" by (cases operand)
  note logic = dp_logic_wf(1-3,5) [OF assms register_fields(1) register_fields(2) [of ins]]
      dp_logic_wf(4,6) [OF assms register_fields(1) register_fields(2) [of ins]]
    and arith = dp_arith_wf [OF assms register_fields(1) register_fields(2) [of ins], where sc = sc]
      dp_carry_wf [OF assms register_fields(1) register_fields(2) [of ins], where sc = sc]
    and compare = dp_compare_ops_wf(1,2) [OF assms register_fields(2),
        where rd = "ucast (get_bits ins 15 12)" and S = "get_bit ins 20"]
      dp_compare_ops_wf(3,4) [OF assms register_fields(2),
        where rd = "ucast (get_bits ins 15 12)" and S = "get_bit ins 20" and sc = sc]
  show ?thesis
    using opcode_cases [of ins] assms Some o
    unfolding arm_data_processing_shift_def dp_register_fields Let_def shifter_operand_wf [OF assms]
    by (elim insertE emptyE) (simp_all add: logic arith compare)
qed

end
