(* ===== verification/LoadStore.thy ===== *)
theory LoadStore
  imports Core
begin

text \<open>
  \<open>arm_load_store.c\<close>: LDR, LDRB, LDRH, STR, STRB, STRH with their addressing modes, LDM and
  STM.  The first part translates the code; then come the total forms on a well-formed core, the
  frame of the instructions and the transfer of register lists.
\<close>

section \<open>Single transfers\<close>

text \<open>
  The cases of the access itself.  A denied access is the code \<open>-1\<close>, which the caller turns
  into a data abort; the destination register is then not written.
\<close>

definition load_byte :: "arm_core \<Rightarrow> u8 \<Rightarrow> u32 \<Rightarrow> (int \<times> arm_core) option" where
  "load_byte p destination_register address = do {
     access_result \<leftarrow> arm_read_byte p address;
     case access_result of
       Denied \<Rightarrow> Some (-1, p)
     | Granted value \<Rightarrow> do {
         p \<leftarrow> arm_write_register p destination_register (ucast value);
         Some (0, p)
       }
   }"

definition load_half :: "arm_core \<Rightarrow> u8 \<Rightarrow> u32 \<Rightarrow> (int \<times> arm_core) option" where
  "load_half p destination_register address = do {
     access_result \<leftarrow> arm_read_half p address;
     case access_result of
       Denied \<Rightarrow> Some (-1, p)
     | Granted value \<Rightarrow> do {
         p \<leftarrow> arm_write_register p destination_register (ucast value);
         Some (0, p)
       }
   }"

definition load_word :: "arm_core \<Rightarrow> u8 \<Rightarrow> u32 \<Rightarrow> (int \<times> arm_core) option" where
  "load_word p destination_register address = do {
     access_result \<leftarrow> arm_read_word p address;
     case access_result of
       Denied \<Rightarrow> Some (-1, p)
     | Granted value \<Rightarrow> do {
         p \<leftarrow> arm_write_register p destination_register value;
         Some (0, p)
       }
   }"

definition store_byte_or_word :: "arm_core \<Rightarrow> u8 \<Rightarrow> u32 \<Rightarrow> bool \<Rightarrow> (int \<times> arm_core) option" where
  "store_byte_or_word p source_register address is_unsigned_byte_access = do {
     value \<leftarrow> arm_read_register p source_register;
     if is_unsigned_byte_access then arm_write_byte p address (ucast value)
     else arm_write_word p address value
   }"

definition store_half :: "arm_core \<Rightarrow> u8 \<Rightarrow> u32 \<Rightarrow> (int \<times> arm_core) option" where
  "store_half p source_register address = do {
     value \<leftarrow> arm_read_register p source_register;
     arm_write_half p address (ucast value)
   }"

definition signed_offset :: "u32 \<Rightarrow> u32 \<Rightarrow> u32" where
  "signed_offset is_offset_added offset = (if is_offset_added \<noteq> 0 then offset else - offset)"

text \<open>
  The offset of a word or byte access: the inner \<open>None\<close> is the code
  \<open>UNDEFINED_INSTRUCTION\<close>.  For ASR the count is passed to \<open>asr\<close> as it is, also when it is 0.
\<close>

definition load_store_offset :: "host \<Rightarrow> arm_core \<Rightarrow> u32 \<Rightarrow> u32 option option" where
  "load_store_offset h p ins =
     (if get_bit ins 25 \<noteq> 0 then do {
        let rm_register = ucast (get_bits ins 3 0);
        rm_register_value \<leftarrow> arm_read_register p rm_register;
        let shift_operator = (ucast (get_bits ins 6 5) :: u8);
        let shift_immediate_value = (ucast (get_bits ins 11 7) :: u8);
        if get_bit ins 4 \<noteq> 0 then Some None
        else if shift_operator = LSL then
          Some (Some (push_bit (unat shift_immediate_value) rm_register_value))
        else if shift_operator = LSR then
          Some (Some (if shift_immediate_value = 0 then 0
            else drop_bit (unat shift_immediate_value) rm_register_value))
        else if shift_operator = ASR then
          Some (Some (asr h rm_register_value shift_immediate_value))
        else if shift_operator = ROR then
          (if shift_immediate_value = 0 then do {
             psr \<leftarrow> arm_read_cpsr p;
             let carry_flag = get_bit psr C_flag;
             Some (Some (push_bit 31 carry_flag OR drop_bit 1 rm_register_value))
           }
           else Some (Some (ror h rm_register_value shift_immediate_value)))
        else Some None
      }
      else Some (Some (get_bits ins 11 0)))"

text \<open>
  The two halves of the function: word and unsigned byte accesses, and halfword accesses.  Both
  take the register numbers and the bits \<open>U\<close>, \<open>P\<close>, \<open>W\<close> and \<open>L\<close> of the instruction, and the
  content of the base register.
\<close>

definition word_byte_transfer :: "arm_core \<Rightarrow> u32 \<Rightarrow> u8 \<Rightarrow> u32 \<Rightarrow> u32 \<Rightarrow> (int \<times> arm_core) option" where
  "word_byte_transfer p ins rd_register is_load_instruction address = (
     let is_unsigned_byte_access = get_bit ins 22 \<noteq> 0 in
     if is_load_instruction \<noteq> 0 then
       (if is_unsigned_byte_access then load_byte p rd_register address
        else load_word p rd_register address)
     else store_byte_or_word p rd_register address is_unsigned_byte_access)"

definition half_transfer :: "arm_core \<Rightarrow> u8 \<Rightarrow> u8 \<Rightarrow> u32 \<Rightarrow> (int \<times> arm_core) option" where
  "half_transfer p access_type rd_register address =
     (if access_type = 1 then store_half p rd_register address
      else load_half p rd_register address)"

definition load_store_word_byte ::
  "host \<Rightarrow> arm_core \<Rightarrow> u32 \<Rightarrow> u8 \<Rightarrow> u8 \<Rightarrow> u32 \<Rightarrow> u32 \<Rightarrow> u32 \<Rightarrow> u32 \<Rightarrow> u32 \<Rightarrow> (int \<times> arm_core) option"
where
  "load_store_word_byte h p ins rd_register rn_register is_offset_added is_pre_indexed
     is_writeback_mode is_load_instruction address = do {
     operand \<leftarrow> load_store_offset h p ins;
     case operand of
       None \<Rightarrow> Some (UNDEFINED_INSTRUCTION, p)
     | Some offset \<Rightarrow> do {
         let address = (if is_pre_indexed \<noteq> 0 then address + signed_offset is_offset_added offset
           else address);
         p \<leftarrow> (if is_pre_indexed \<noteq> 0 \<and> is_writeback_mode \<noteq> 0
           then arm_write_register p rn_register address else Some p);
         (access_result, p) \<leftarrow> word_byte_transfer p ins rd_register is_load_instruction address;
         if access_result = -1 then Some (DATA_ABORT, p)
         else if is_pre_indexed = 0 then
           (if is_writeback_mode \<noteq> 0 then Some (UNDEFINED_INSTRUCTION, p)
            else do {
              let address = address + signed_offset is_offset_added offset;
              p \<leftarrow> arm_write_register p rn_register address;
              Some (0, p)
            })
         else Some (0, p)
       }
   }"

definition load_store_halfword ::
  "arm_core \<Rightarrow> u32 \<Rightarrow> u8 \<Rightarrow> u8 \<Rightarrow> u32 \<Rightarrow> u32 \<Rightarrow> u32 \<Rightarrow> u32 \<Rightarrow> u32 \<Rightarrow> (int \<times> arm_core) option"
where
  "load_store_halfword p ins rd_register rn_register is_offset_added is_pre_indexed
     is_writeback_mode is_l_bit_set address = do {
     let is_immediate_offset = get_bit ins 22;
     let bits_sh = (ucast (get_bits ins 6 5) :: u8);
     let access_type = ((ucast (push_bit 2 is_l_bit_set) :: u8) OR bits_sh);
     offset \<leftarrow> (if is_immediate_offset \<noteq> 0 then
         let immedH = get_bits ins 11 8; immedL = get_bits ins 3 0 in
         Some (push_bit 4 immedH OR immedL)
       else arm_read_register p (ucast (get_bits ins 3 0)));
     let address = (if is_pre_indexed \<noteq> 0 then address + signed_offset is_offset_added offset
       else address);
     p \<leftarrow> (if is_pre_indexed \<noteq> 0 \<and> is_writeback_mode \<noteq> 0
       then arm_write_register p rn_register address else Some p);
     if access_type = 1 \<or> access_type = 5 then do {
       (access_result, p) \<leftarrow> half_transfer p access_type rd_register address;
       if access_result = -1 then Some (DATA_ABORT, p)
       else if is_pre_indexed = 0 then do {
         let address = address + signed_offset is_offset_added offset;
         p \<leftarrow> arm_write_register p rn_register address;
         Some (0, p)
       }
       else Some (0, p)
     }
     else Some (UNDEFINED_INSTRUCTION, p)
   }"

definition arm_load_store :: "host \<Rightarrow> arm_core \<Rightarrow> u32 \<Rightarrow> (int \<times> arm_core) option" where
  "arm_load_store h p ins = do {
     let rd_register = ucast (get_bits ins 15 12);
     let rn_register = ucast (get_bits ins 19 16);
     let is_offset_added = get_bit ins 23;
     let is_pre_indexed = get_bit ins 24;
     let is_writeback_mode = get_bit ins 21;
     let is_l_bit_set = get_bit ins 20;
     address \<leftarrow> arm_read_register p rn_register;
     if get_bits ins 27 26 = 0b01 then
       load_store_word_byte h p ins rd_register rn_register is_offset_added is_pre_indexed
         is_writeback_mode is_l_bit_set address
     else if (get_bits ins 27 25 = 0b000 \<and> get_bit ins 7 = 1 \<and> get_bit ins 4 = 1
         \<and> get_bits ins 31 28 \<noteq> 0b1111) \<and> \<not> (is_pre_indexed = 0 \<and> get_bits ins 6 5 = 0b00) then
       load_store_halfword p ins rd_register rn_register is_offset_added is_pre_indexed
         is_writeback_mode is_l_bit_set address
     else Some (UNDEFINED_INSTRUCTION, p)
   }"

section \<open>Multiple transfers\<close>

text \<open>
  The loops over the register numbers \<open>rs\<close>.  They return the code (0, or \<open>DATA_ABORT\<close> on the
  first denied access), the state and the address the loop has reached.
\<close>

fun ldm_loop :: "u32 \<Rightarrow> u32 \<Rightarrow> nat list \<Rightarrow> arm_core \<Rightarrow> u32 \<Rightarrow> (int \<times> arm_core \<times> u32) option" where
  "ldm_loop register_list step [] p address = Some (0, p, address)"
| "ldm_loop register_list step (r # rs) p address =
     (if get_bit register_list r = 1 then do {
        access_result \<leftarrow> arm_read_word p address;
        case access_result of
          Denied \<Rightarrow> Some (DATA_ABORT, p, address)
        | Granted value \<Rightarrow> do {
            p \<leftarrow> arm_write_register p (word_of_nat r) value;
            ldm_loop register_list step rs p (address + step)
          }
      }
      else ldm_loop register_list step rs p address)"

fun stm_loop :: "u32 \<Rightarrow> u32 \<Rightarrow> nat list \<Rightarrow> arm_core \<Rightarrow> u32 \<Rightarrow> (int \<times> arm_core \<times> u32) option" where
  "stm_loop register_list step [] p address = Some (0, p, address)"
| "stm_loop register_list step (r # rs) p address =
     (if get_bit register_list r = 1 then do {
        value \<leftarrow> arm_read_register p (word_of_nat r);
        (access_result, p) \<leftarrow> arm_write_word p address value;
        if access_result = -1 then Some (DATA_ABORT, p, address)
        else stm_loop register_list step rs p (address + step)
      }
      else stm_loop register_list step rs p address)"

text \<open>The program counter is loaded after the other registers, with its lowest bit cleared.\<close>

definition ldm_pc :: "u32 \<Rightarrow> u32 \<Rightarrow> arm_core \<Rightarrow> u32 \<Rightarrow> (int \<times> arm_core \<times> u32) option" where
  "ldm_pc register_list step p address =
     (if get_bit register_list 15 = 1 then do {
        access_result \<leftarrow> arm_read_word p address;
        case access_result of
          Denied \<Rightarrow> Some (DATA_ABORT, p, address)
        | Granted value \<Rightarrow> do {
            p \<leftarrow> arm_write_register p 15 (value AND 0xfffffffe);
            Some (0, p, address + step)
          }
      }
      else Some (0, p, address))"

definition ldm :: "u32 \<Rightarrow> u32 \<Rightarrow> arm_core \<Rightarrow> u32 \<Rightarrow> (int \<times> arm_core \<times> u32) option" where
  "ldm register_list step p address = do {
     (result, p, address) \<leftarrow> ldm_loop register_list step [0..<15] p address;
     if result \<noteq> 0 then Some (result, p, address) else ldm_pc register_list step p address
   }"

definition arm_load_store_multiple :: "arm_core \<Rightarrow> u32 \<Rightarrow> (int \<times> arm_core) option" where
  "arm_load_store_multiple p ins = do {
     let rn_register = ucast (get_bits ins 19 16);
     let register_list = get_bits ins 15 0;
     let is_load_instruction = get_bit ins 20;
     let is_s_bit_set = get_bit ins 22;
     let is_p_bit_set = get_bit ins 24;
     let is_upwards_transfert = get_bit ins 23;
     let is_writeback_mode = get_bit ins 21;
     let step = (if is_upwards_transfert \<noteq> 0 then 4 else -4);
     address \<leftarrow> arm_read_register p rn_register;
     let address = (if is_p_bit_set \<noteq> 0 then address + step else address);
     if is_s_bit_set = 0 then do {
       (result, p, address) \<leftarrow> (if is_load_instruction \<noteq> 0
         then ldm register_list step p address
         else stm_loop register_list step [0..<16] p address);
       if result \<noteq> 0 then Some (result, p)
       else if is_writeback_mode \<noteq> 0 then do {
         let address = (if is_p_bit_set \<noteq> 0 then address - step else address);
         p \<leftarrow> arm_write_register p rn_register address;
         Some (0, p)
       }
       else Some (0, p)
     }
     else Some (UNDEFINED_INSTRUCTION, p)
   }"

definition arm_coprocessor_load_store :: "arm_core \<Rightarrow> u32 \<Rightarrow> int \<times> arm_core" where
  "arm_coprocessor_load_store p ins = (UNDEFINED_INSTRUCTION, p)"

section \<open>The accesses on a well-formed core\<close>

lemma load_word_wf [core_simps]:
  "wf_core p \<Longrightarrow> rd \<le> 15 \<Longrightarrow> load_word p rd a = Some (if word_ok (core_mem p) a
    then (0, set_xreg p rd (word_at (core_mem p) a)) else (-1, p))"
  by (simp add: load_word_def core_simps)

lemma load_half_wf [core_simps]:
  "wf_core p \<Longrightarrow> rd \<le> 15 \<Longrightarrow> load_half p rd a = Some (if half_ok (core_mem p) a
    then (0, set_xreg p rd (ucast (half_at (core_mem p) a))) else (-1, p))"
  by (simp add: load_half_def core_simps)

lemma load_byte_wf [core_simps]:
  "wf_core p \<Longrightarrow> rd \<le> 15 \<Longrightarrow> load_byte p rd a =
    (if a = mem_size (core_mem p) then None
     else Some (if byte_ok (core_mem p) a
       then (0, set_xreg p rd (ucast (mem_data (core_mem p) ! unat a))) else (-1, p)))"
  by (simp add: load_byte_def core_simps)

lemma store_half_wf [core_simps]:
  "wf_core p \<Longrightarrow> rd \<le> 15 \<Longrightarrow> store_half p rd a = Some (if half_ok (core_mem p) a
    then (0, set_half p a (ucast (rval p rd))) else (-1, p))"
  by (simp add: store_half_def core_simps)

lemma store_word_wf [core_simps]:
  "wf_core p \<Longrightarrow> rd \<le> 15 \<Longrightarrow> store_byte_or_word p rd a False = Some (if word_ok (core_mem p) a
    then (0, set_word p a (rval p rd)) else (-1, p))"
  by (simp add: store_byte_or_word_def core_simps)

lemma store_byte_wf [core_simps]:
  "wf_core p \<Longrightarrow> rd \<le> 15 \<Longrightarrow> store_byte_or_word p rd a True =
    (if a = mem_size (core_mem p) then None
     else Some (if byte_ok (core_mem p) a then (0, set_byte p a (ucast (rval p rd))) else (-1, p)))"
  by (simp add: store_byte_or_word_def core_simps)

section \<open>The offset of a word or byte access\<close>

text \<open>
  The addressing modes of the manual (section A5.2): an immediate of twelve bits, or a register
  shifted by a constant.  Only for ASR with the count 0 the code differs (the manual shifts by
  32); there it depends on the host.
\<close>

definition offset_spec :: "host \<Rightarrow> arm_core \<Rightarrow> u32 \<Rightarrow> u32 option" where
  "offset_spec h p ins =
     (let x = rval p (ucast (get_bits ins 3 0)); type = get_bits ins 6 5;
          n = unat (get_bits ins 11 7)
      in if \<not> bit ins 25 then Some (get_bits ins 11 0)
         else if bit ins 4 then None
         else Some (if type = 0 then push_bit n x
           else if type = 1 then (if n = 0 then 0 else drop_bit n x)
           else if type = 2 then (if n = 0 then asr h x 0 else signed_drop_bit n x)
           else if n = 0 then push_bit 31 (of_c_bool (bit (cpsr p) 29)) OR drop_bit 1 x
           else word_rotr n x))"

lemma small_field:
  assumes "l \<le> h" "h < 32" "h - l < 8"
  shows "unat (ucast (get_bits ins h l) :: u8) = unat (get_bits ins h l)"
proof -
  have "(2 :: nat) ^ (h - l + 1) \<le> 2 ^ 8" using assms(3) by (intro power_increasing) simp_all
  then have "unat (get_bits ins h l) < 256" using get_bits_less [of l h ins] assms by simp
  then show ?thesis by (simp add: unsigned_ucast_eq take_bit_nat_eq_self)
qed

lemma load_store_offset_wf [core_simps]:
  assumes "wf_core p"
  shows "load_store_offset h p ins = Some (offset_spec h p ins)"
proof -
  let ?n = "ucast (get_bits ins 11 7) :: u8" and ?t = "ucast (get_bits ins 6 5) :: u8"
  have n: "unat ?n = unat (get_bits ins 11 7)" and t: "unat ?t = unat (get_bits ins 6 5)"
    by (simp_all add: small_field)
  have "unat (get_bits ins 11 7) < 32" using get_bits_less [of 7 11 ins] by simp
  then have sh: "?n < 32" by (simp only: word_less_nat_alt n) simp
  have "unat (get_bits ins 6 5) < 4" using get_bits_less [of 5 6 ins] by simp
  then have tt: "?t = 0 \<longleftrightarrow> get_bits ins 6 5 = 0" "?t = 1 \<longleftrightarrow> get_bits ins 6 5 = 1"
    "?t = 2 \<longleftrightarrow> get_bits ins 6 5 = 2"
    "\<not> get_bits ins 6 5 = 0 \<Longrightarrow> \<not> get_bits ins 6 5 = 1 \<Longrightarrow> \<not> get_bits ins 6 5 = 2 \<Longrightarrow> ?t = 3"
    by (auto simp: word_unat_eq_iff t)
  have z: "?n = 0 \<longleftrightarrow> unat (get_bits ins 11 7) = 0" by (simp add: word_unat_eq_iff n)
  have a: "asr h x ?n = (if ?n = 0 then asr h x 0 else signed_drop_bit (unat ?n) x)" for x
    using sh asr_eq [of ?n h x] by (auto simp: word_gt_0)
  show ?thesis
    using assms a sh 
    by (simp add: load_store_offset_def offset_spec_def Let_def core_simps tt z n ror_eq get_bit_c_bool)
qed

section \<open>The instructions on a well-formed core\<close>

text \<open>The access at address \<open>a\<close>: 0 and the new state, or -1 when the address is refused.\<close>

definition word_byte_access :: "arm_core \<Rightarrow> u32 \<Rightarrow> u32 \<Rightarrow> int \<times> arm_core" where
  "word_byte_access p ins a =
     (let rd = ucast (get_bits ins 15 12); m = core_mem p in
      if bit ins 22 then
        (if \<not> byte_ok m a then (-1, p)
         else if bit ins 20 then (0, set_xreg p rd (ucast (mem_data m ! unat a)))
         else (0, set_byte p a (ucast (rval p rd))))
      else
        (if \<not> word_ok m a then (-1, p)
         else if bit ins 20 then (0, set_xreg p rd (word_at m a))
         else (0, set_word p a (rval p rd))))"

definition half_access :: "arm_core \<Rightarrow> u32 \<Rightarrow> u32 \<Rightarrow> int \<times> arm_core" where
  "half_access p ins a =
     (let rd = ucast (get_bits ins 15 12); m = core_mem p in
      if \<not> half_ok m a then (-1, p)
      else if bit ins 20 then (0, set_xreg p rd (ucast (half_at m a)))
      else (0, set_half p a (ucast (rval p rd))))"

text \<open>
  The addresses of an instruction with the given offset: the one accessed, and the one a
  write-back leaves in the base register.
\<close>

definition base_register :: "u32 \<Rightarrow> u8" where
  "base_register ins = ucast (get_bits ins 19 16)"

definition indexed_address :: "arm_core \<Rightarrow> u32 \<Rightarrow> u32 \<Rightarrow> u32" where
  "indexed_address p ins offset =
     rval p (base_register ins) + (if bit ins 23 then offset else - offset)"

definition access_address :: "arm_core \<Rightarrow> u32 \<Rightarrow> u32 \<Rightarrow> u32" where
  "access_address p ins offset =
     (if bit ins 24 then indexed_address p ins offset else rval p (base_register ins))"

definition pre_indexed :: "arm_core \<Rightarrow> u32 \<Rightarrow> u32 \<Rightarrow> arm_core" where
  "pre_indexed p ins offset = (if bit ins 24 \<and> bit ins 21
     then set_xreg p (base_register ins) (indexed_address p ins offset) else p)"

lemma base_register_le [simp]: "base_register ins \<le> 15"
  by (simp add: base_register_def)

lemma pre_indexed_fields [simp]:
  "core_mem (pre_indexed p ins offset) = core_mem p" "mode (pre_indexed p ins offset) = mode p"
  "wf_core p \<Longrightarrow> wf_core (pre_indexed p ins offset)"
  by (simp_all add: pre_indexed_def)

lemma load_store_word_byte_wf:
  assumes "wf_core p" "get_bits ins 27 26 = 1"
  shows "arm_load_store h p ins = (case offset_spec h p ins of
      None \<Rightarrow> Some (UNDEFINED_INSTRUCTION, p)
    | Some offset \<Rightarrow>
        let a = access_address p ins offset in
        if bit ins 22 \<and> a = mem_size (core_mem p) then None
        else case word_byte_access (pre_indexed p ins offset) ins a of (r, q) \<Rightarrow>
          if r = -1 then Some (DATA_ABORT, q)
          else if bit ins 24 then Some (0, q)
          else if bit ins 21 then Some (UNDEFINED_INSTRUCTION, q)
          else Some (0, set_xreg q (base_register ins) (indexed_address p ins offset)))"
proof (cases "offset_spec h p ins")
  case None
  then show ?thesis using assms
    by (simp add: arm_load_store_def load_store_word_byte_def core_simps)
next
  case (Some offset)
  let ?rd = "ucast (get_bits ins 15 12) :: u8" and ?rn = "base_register ins"
  let ?q = "pre_indexed p ins offset" and ?a = "access_address p ins offset"
  have q: "wf_core ?q" using assms(1) by simp
  have access: "word_byte_transfer ?q ins ?rd (get_bit ins 20) ?a
    = (if bit ins 22 \<and> ?a = mem_size (core_mem p) then None else Some (word_byte_access ?q ins ?a))"
    using q by (cases "bit ins 22"; cases "bit ins 20")
      (auto simp: word_byte_transfer_def word_byte_access_def Let_def core_simps byte_ok_neq)
  have wf: "wf_core (snd (word_byte_access ?q ins ?a))"
    using q by (auto simp: word_byte_access_def Let_def intro: wf_intros)
  obtain r s where rs: "word_byte_access ?q ins ?a = (r, s)" by (cases "word_byte_access ?q ins ?a")
  have pre: "arm_write_register p ?rn v = Some (set_xreg p ?rn v)" for v
    using assms(1) by (simp add: core_simps)
  have post: "arm_write_register s ?rn v = Some (set_xreg s ?rn v)" for v
    using wf rs by (simp add: core_simps)
  show ?thesis
    using assms Some wf access rs
    unfolding arm_load_store_def load_store_word_byte_def Let_def base_register_def [symmetric]
    by (cases "bit ins 24"; cases "bit ins 21"; cases "bit ins 23")
     (simp_all add: arm_read_register_wf load_store_offset_wf pre post
       access_address_def indexed_address_def pre_indexed_def signed_offset_def)
qed

text \<open>The encodings the second half of the function accepts, and the offset they have.\<close>

definition halfword_encoding :: "u32 \<Rightarrow> bool" where
  "halfword_encoding ins \<longleftrightarrow> get_bits ins 27 25 = 0 \<and> bit ins 7 \<and> bit ins 4
     \<and> get_bits ins 31 28 \<noteq> 15 \<and> (bit ins 24 \<or> get_bits ins 6 5 \<noteq> 0)"

definition half_offset :: "arm_core \<Rightarrow> u32 \<Rightarrow> u32" where
  "half_offset p ins = (if bit ins 22 then push_bit 4 (get_bits ins 11 8) OR get_bits ins 3 0
     else rval p (ucast (get_bits ins 3 0)))"

lemma access_type_eq:
  "(ucast (push_bit 2 (get_bit ins 20)) :: u8) OR ucast (get_bits ins 6 5) = 1
    \<longleftrightarrow> \<not> bit ins 20 \<and> get_bits ins 6 5 = 1"
  "(ucast (push_bit 2 (get_bit ins 20)) :: u8) OR ucast (get_bits ins 6 5) = 5
    \<longleftrightarrow> bit ins 20 \<and> get_bits ins 6 5 = 1"
proof -
  have t: "unat (ucast (get_bits ins 6 5) :: u8) = unat (get_bits ins 6 5)"
    by (simp add: small_field)
  have s: "get_bits ins 6 5 = 1 \<longleftrightarrow> (ucast (get_bits ins 6 5) :: u8) = 1"
    unfolding word_unat_eq_iff t by simp
  show "(ucast (push_bit 2 (get_bit ins 20)) :: u8) OR ucast (get_bits ins 6 5) = 1
    \<longleftrightarrow> \<not> bit ins 20 \<and> get_bits ins 6 5 = 1"
   "(ucast (push_bit 2 (get_bit ins 20)) :: u8) OR ucast (get_bits ins 6 5) = 5
    \<longleftrightarrow> bit ins 20 \<and> get_bits ins 6 5 = 1"
    unfolding s u8_eq_iff by (auto simp: bit_simps bit_get_bits get_bit_def bit_1_iff)
qed

lemma load_store_halfword_wf:
  assumes "wf_core p" "get_bits ins 27 26 \<noteq> 1"
  shows "arm_load_store h p ins =
    (let offset = half_offset p ins; q = pre_indexed p ins offset in
     if \<not> halfword_encoding ins then Some (UNDEFINED_INSTRUCTION, p)
     else if get_bits ins 6 5 \<noteq> 1 then Some (UNDEFINED_INSTRUCTION, q)
     else case half_access q ins (access_address p ins offset) of (r, s) \<Rightarrow>
       if r = -1 then Some (DATA_ABORT, s)
       else if bit ins 24 then Some (0, s)
       else Some (0, set_xreg s (base_register ins) (indexed_address p ins offset)))"
proof (cases "halfword_encoding ins")
  case False
  then show ?thesis using assms
    by (auto simp: arm_load_store_def halfword_encoding_def core_simps)
next
  case True
  let ?rd = "ucast (get_bits ins 15 12) :: u8" and ?rn = "base_register ins"
  let ?o = "half_offset p ins"
  let ?q = "pre_indexed p ins ?o" and ?a = "access_address p ins ?o"
  define t where "t = (ucast (push_bit 2 (get_bit ins 20)) :: u8) OR ucast (get_bits ins 6 5)"
  note t = access_type_eq [of ins, folded t_def]
  have q: "wf_core ?q" using assms(1) by simp
  have access: "get_bits ins 6 5 = 1 \<Longrightarrow> half_transfer ?q t ?rd ?a = Some (half_access ?q ins ?a)"
    using q by (auto simp: half_transfer_def half_access_def t Let_def core_simps)
  have wf: "wf_core (snd (half_access ?q ins ?a))"
    using q by (auto simp: half_access_def Let_def intro: wf_intros)
  obtain r s where rs: "half_access ?q ins ?a = (r, s)" by (cases "half_access ?q ins ?a")
  have pre: "arm_write_register p ?rn v = Some (set_xreg p ?rn v)" for v
    using assms(1) by (simp add: core_simps)
  have post: "arm_write_register s ?rn v = Some (set_xreg s ?rn v)" for v
    using wf rs by (simp add: core_simps)
  have offset: "(if get_bit ins 22 \<noteq> 0 then
         Some (push_bit 4 (get_bits ins 11 8) OR get_bits ins 3 0)
       else arm_read_register p (ucast (get_bits ins 3 0))) = Some ?o"
    using assms(1) by (simp add: half_offset_def core_simps)
  have enc: "(get_bits ins 27 25 = 0b000 \<and> get_bit ins 7 = 1 \<and> get_bit ins 4 = 1
         \<and> get_bits ins 31 28 \<noteq> 0b1111) \<and> \<not> (get_bit ins 24 = 0 \<and> get_bits ins 6 5 = 0b00)"
    using True by (auto simp: halfword_encoding_def)
  show ?thesis
    using assms access True rs
    unfolding arm_load_store_def load_store_halfword_def Let_def base_register_def [symmetric]
      offset if_P [OF enc] t_def [symmetric]
    by (cases "bit ins 24"; cases "bit ins 21"; cases "bit ins 23"; cases "get_bits ins 6 5 = 1")
      (simp_all add: arm_read_register_wf pre post t
       access_address_def indexed_address_def pre_indexed_def signed_offset_def)
qed

section \<open>The frame of the instructions\<close>

lemma pre_indexed_keeps: "wf_core p \<Longrightarrow> keeps_status p (pre_indexed p ins offset)"
  by (auto simp: pre_indexed_def intro: wf_intros)

lemma access_keeps:
  "keeps_status p q \<Longrightarrow> keeps_status p (snd (word_byte_access q ins a))"
  "keeps_status p q \<Longrightarrow> keeps_status p (snd (half_access q ins a))"
  by (auto simp: word_byte_access_def half_access_def Let_def intro: wf_intros)

lemma arm_load_store_keeps:
  assumes "wf_core p" "arm_load_store h p ins = Some (r, q)"
  shows "keeps_status p q"
proof (cases "get_bits ins 27 26 = 1")
  case True
  then show ?thesis
  proof (cases "offset_spec h p ins")
    case None
    then show ?thesis using assms True by (auto simp: load_store_word_byte_wf intro: wf_intros)
  next
    case (Some offset)
    let ?s = "word_byte_access (pre_indexed p ins offset) ins (access_address p ins offset)"
    have "keeps_status p (snd ?s)" using assms(1) by (intro access_keeps pre_indexed_keeps)
    then show ?thesis using assms Some True
      by (auto simp: load_store_word_byte_wf Let_def split: prod.splits if_splits intro: wf_intros)
  qed
next
  case False
  let ?o = "half_offset p ins"
  let ?s = "half_access (pre_indexed p ins ?o) ins (access_address p ins ?o)"
  have "keeps_status p (snd ?s)" "keeps_status p (pre_indexed p ins ?o)"
    using assms(1) by (intro access_keeps pre_indexed_keeps; assumption)+
  then show ?thesis using assms False
    by (auto simp: load_store_halfword_wf Let_def split: prod.splits if_splits intro: wf_intros)
qed

text \<open>The only accesses that are undefined are byte accesses at the end of the memory.\<close>

lemma arm_load_store_defined:
  assumes "wf_core p"
  shows "arm_load_store h p ins = None \<longleftrightarrow> get_bits ins 27 26 = 1 \<and> bit ins 22 \<and>
    (\<exists>offset. offset_spec h p ins = Some offset
      \<and> access_address p ins offset = mem_size (core_mem p))"
proof (cases "get_bits ins 27 26 = 1")
  case True
  show ?thesis
  proof (cases "offset_spec h p ins")
    case None
    then show ?thesis using assms True by (simp add: load_store_word_byte_wf)
  next
    case (Some offset)
    then show ?thesis using assms True
      by (simp add: load_store_word_byte_wf Let_def split_beta)
  qed
next
  case False
  then show ?thesis using assms
    by (simp add: load_store_halfword_wf Let_def split_beta)
qed

section \<open>Transfers of register lists\<close>

definition listed :: "u32 \<Rightarrow> nat list \<Rightarrow> nat list" where
  "listed register_list rs = filter (bit register_list) rs"

text \<open>The addresses of \<open>n\<close> transfers.\<close>

fun transfer_addresses :: "u32 \<Rightarrow> u32 \<Rightarrow> nat \<Rightarrow> u32 list" where
  "transfer_addresses step a 0 = []"
| "transfer_addresses step a (Suc n) = a # transfer_addresses step (a + step) n"

lemma length_transfer_addresses [simp]: "length (transfer_addresses step a n) = n"
  by (induction n arbitrary: a) auto

lemma transfer_addresses_eq:
  "transfer_addresses step a n = map (\<lambda>i. a + step * word_of_nat i) [0..<n]"
proof (induction n arbitrary: a)
  case (Suc n)
  have "[0..<Suc n] = 0 # map Suc [0..<n]" by (simp add: upt_conv_Cons map_Suc_upt del: upt_Suc)
  then show ?case by (simp add: Suc algebra_simps del: upt_Suc)
qed simp

lemma distinct_transfer_addresses:
  assumes "step = 4 \<or> step = -4" "n \<le> 16"
  shows "distinct (transfer_addresses step a n)"
proof -
  have u: "unat (4 * word_of_nat i :: u32) = 4 * i" if "i < n" for i
    using that assms(2) by (simp add: unat_word_ariths unat_of_nat)
  have "i = j" if "i < n" "j < n" "a + step * word_of_nat i = a + step * word_of_nat j" for i j
  proof -
    have "4 * word_of_nat i = (4 * word_of_nat j :: u32)" using that(3) assms(1) by auto
    then have "4 * i = 4 * j" using u that(1,2) by metis
    then show ?thesis by simp
  qed
  then show ?thesis by (auto simp: transfer_addresses_eq distinct_map inj_on_def)
qed

lemma rval_cong: "core_regs q = core_regs p \<Longrightarrow> rval q n = rval p n"
  by (simp add: rval_def xreg_def)

lemma reg_number: "r \<le> 15 \<Longrightarrow> (word_of_nat r :: u8) \<le> 15"
  by (simp add: u8_le_15 unat_of_nat)

lemma reg_number_eq: "r \<le> 15 \<Longrightarrow> s \<le> 15 \<Longrightarrow> (word_of_nat r :: u8) = word_of_nat s \<longleftrightarrow> r = s"
  by (auto simp: word_unat_eq_iff unat_of_nat)

lemma listed_simps [simp]:
  "listed l [] = []" "listed l (r # rs) = (if bit l r then r # listed l rs else listed l rs)"
  by (simp_all add: listed_def)

lemma set_listed: "set (listed l rs) = {r \<in> set rs. bit l r}"
  by (auto simp: listed_def)

text \<open>Whatever the addresses are, the loops are defined and keep the status.\<close>

lemma stm_loop_keeps:
  assumes "wf_core p" "set rs \<subseteq> {..15}"
  shows "\<exists>c q b. stm_loop l step rs p a = Some (c, q, b) \<and> keeps_status p q
    \<and> core_regs q = core_regs p \<and> c \<in> {0, DATA_ABORT}"
  using assms
proof (induction rs arbitrary: p a)
  case (Cons r rs)
  show ?case
  proof (cases "bit l r \<and> word_ok (core_mem p) a")
    case True
    let ?p = "set_word p a (rval p (word_of_nat r))"
    have "keeps_status p ?p" using Cons.prems True by (auto intro: wf_intros)
    moreover have "wf_core ?p" using Cons.prems(1) True by simp
    with Cons.IH [of ?p "a + step"] Cons.prems(2)
    obtain c q b where "stm_loop l step rs ?p (a + step) = Some (c, q, b)" "keeps_status ?p q"
      "core_regs q = core_regs ?p" "c \<in> {0, DATA_ABORT}" by auto
    ultimately show ?thesis using True Cons.prems
      by (auto simp: core_simps reg_number intro: keeps_status_trans)
  next
    case False
    then show ?thesis using Cons by (auto simp: core_simps reg_number intro: wf_intros)
  qed
qed (auto intro: wf_intros)

lemma ldm_loop_keeps:
  assumes "wf_core p" "set rs \<subseteq> {..15}"
  shows "\<exists>c q b. ldm_loop l step rs p a = Some (c, q, b) \<and> keeps_status p q
    \<and> core_mem q = core_mem p \<and> c \<in> {0, DATA_ABORT}"
  using assms
proof (induction rs arbitrary: p a)
  case (Cons r rs)
  show ?case
  proof (cases "bit l r \<and> word_ok (core_mem p) a")
    case True
    let ?p = "set_xreg p (word_of_nat r) (word_at (core_mem p) a)"
    have "keeps_status p ?p" using Cons.prems by (auto intro: wf_intros)
    moreover have "wf_core ?p" using Cons.prems(1) by simp
    with Cons.IH [of ?p "a + step"] Cons.prems(2)
    obtain c q b where "ldm_loop l step rs ?p (a + step) = Some (c, q, b)" "keeps_status ?p q"
      "core_mem q = core_mem ?p" "c \<in> {0, DATA_ABORT}" by auto
    ultimately show ?thesis using True Cons.prems
      by (auto simp: core_simps reg_number intro: keeps_status_trans)
  next
    case False
    then show ?thesis using Cons by (auto simp: core_simps reg_number intro: wf_intros)
  qed
qed (auto intro: wf_intros)

lemma ldm_keeps:
  assumes "wf_core p"
  shows "\<exists>c q b. ldm l step p a = Some (c, q, b) \<and> keeps_status p q
    \<and> core_mem q = core_mem p \<and> c \<in> {0, DATA_ABORT}"
proof -
  obtain c q b where q: "ldm_loop l step [0..<15] p a = Some (c, q, b)" "keeps_status p q"
    "core_mem q = core_mem p" "c \<in> {0, DATA_ABORT}"
    using ldm_loop_keeps [OF assms, of "[0..<15]"] by fastforce
  then show ?thesis
    using keeps_status_wf [OF q(2)]
    by (auto simp: ldm_def ldm_pc_def core_simps intro: wf_intros)
qed

lemma arm_load_store_multiple_keeps:
  assumes "wf_core p"
  shows "\<exists>c q. arm_load_store_multiple p ins = Some (c, q) \<and> keeps_status p q"
proof -
  let ?s = "if get_bit ins 23 \<noteq> 0 then 4 else -4" and ?rn = "ucast (get_bits ins 19 16) :: u8"
  let ?a = "if get_bit ins 24 \<noteq> 0 then rval p ?rn + ?s else rval p ?rn"
  have "\<exists>c q b. (if get_bit ins 20 \<noteq> 0 then ldm (get_bits ins 15 0) ?s p ?a
      else stm_loop (get_bits ins 15 0) ?s [0..<16] p ?a) = Some (c, q, b) \<and> keeps_status p q"
    using ldm_keeps [OF assms, of "get_bits ins 15 0" ?s ?a]
      stm_loop_keeps [OF assms, of "[0..<16]" "get_bits ins 15 0" ?s ?a] by fastforce
  then obtain c q b where "(if get_bit ins 20 \<noteq> 0 then ldm (get_bits ins 15 0) ?s p ?a
      else stm_loop (get_bits ins 15 0) ?s [0..<16] p ?a) = Some (c, q, b)" "keeps_status p q"
    by blast
  then show ?thesis
    using assms keeps_status_wf [of p q]
    by (auto simp: arm_load_store_multiple_def Let_def core_simps intro: wf_intros)
qed

text \<open>When every address is accepted, the loops transfer the listed registers in order.\<close>

definition all_ok :: "arm_core \<Rightarrow> u32 list \<Rightarrow> bool" where
  "all_ok p addresses \<longleftrightarrow> (\<forall>x \<in> set addresses. word_ok (core_mem p) x)"

definition list_addresses :: "u32 \<Rightarrow> u32 \<Rightarrow> nat list \<Rightarrow> u32 \<Rightarrow> u32 list" where
  "list_addresses l step rs a = transfer_addresses step a (length (listed l rs))"

lemma list_addresses_simps [simp]:
  "list_addresses l step [] a = []"
  "list_addresses l step (r # rs) a =
    (if bit l r then a # list_addresses l step rs (a + step) else list_addresses l step rs a)"
  by (simp_all add: list_addresses_def)

definition end_address :: "u32 \<Rightarrow> u32 \<Rightarrow> nat list \<Rightarrow> u32 \<Rightarrow> u32" where
  "end_address l step rs a = a + step * word_of_nat (length (listed l rs))"

lemma end_address_simps [simp]:
  "end_address l step [] a = a"
  "end_address l step (r # rs) a =
    (if bit l r then end_address l step rs (a + step) else end_address l step rs a)"
  by (simp_all add: end_address_def algebra_simps)

definition list_values :: "u32 \<Rightarrow> nat list \<Rightarrow> arm_core \<Rightarrow> u32 list" where
  "list_values l rs p = map (\<lambda>r. rval p (word_of_nat r)) (listed l rs)"

abbreviation put_word :: "arm_core \<Rightarrow> u32 \<Rightarrow> u32 \<Rightarrow> arm_core option" where
  "put_word \<equiv> \<lambda>p a v. committed (arm_write_word p a v)"

lemma stm_loop_eq:
  assumes "wf_core p" "set rs \<subseteq> {..15}" "all_ok p (list_addresses l step rs a)"
  shows "\<exists>q. stm_loop l step rs p a = Some (0, q, end_address l step rs a)
    \<and> puts put_word (zip (list_addresses l step rs a) (list_values l rs p)) p = Some q"
  using assms
proof (induction rs arbitrary: p a)
  case (Cons r rs)
  show ?case
  proof (cases "bit l r")
    case True
    let ?p = "set_word p a (rval p (word_of_nat r))"
    have ok: "word_ok (core_mem p) a" using Cons.prems(3) True by (simp add: all_ok_def)
    then have "wf_core ?p" "all_ok ?p (list_addresses l step rs (a + step))"
      using Cons.prems True by (auto simp: all_ok_def)
    with Cons.IH [of ?p "a + step"] Cons.prems(2) obtain q where
      "stm_loop l step rs ?p (a + step) = Some (0, q, end_address l step rs (a + step))"
      "puts put_word (zip (list_addresses l step rs (a + step)) (list_values l rs ?p)) ?p = Some q"
      by auto
    moreover have "list_values l rs ?p = list_values l rs p"
      by (simp add: list_values_def)
    ultimately show ?thesis using True ok Cons.prems
      by (simp add: core_simps reg_number) (simp add: list_values_def core_simps)
  next
    case False
    then show ?thesis using Cons by (simp add: list_values_def)
  qed
qed (simp add: list_values_def)

definition load_list :: "(nat \<times> u32) list \<Rightarrow> arm_core \<Rightarrow> arm_core" where
  "load_list rvs p = fold (\<lambda>(r, v) q. set_xreg q (word_of_nat r) v) rvs p"

lemma load_list_simps [simp]:
  "load_list [] p = p"
  "load_list ((r, v) # rvs) p = load_list rvs (set_xreg p (word_of_nat r) v)"
  by (simp_all add: load_list_def)

definition list_words :: "u32 \<Rightarrow> u32 \<Rightarrow> nat list \<Rightarrow> arm_core \<Rightarrow> u32 \<Rightarrow> u32 list" where
  "list_words l step rs p a = map (word_at (core_mem p)) (list_addresses l step rs a)"

lemma ldm_loop_eq:
  assumes "wf_core p" "set rs \<subseteq> {..15}" "all_ok p (list_addresses l step rs a)"
  shows "ldm_loop l step rs p a =
    Some (0, load_list (zip (listed l rs) (list_words l step rs p a)) p, end_address l step rs a)"
  using assms
proof (induction rs arbitrary: p a)
  case (Cons r rs)
  show ?case
  proof (cases "bit l r")
    case True
    let ?p = "set_xreg p (word_of_nat r) (word_at (core_mem p) a)"
    have ok: "word_ok (core_mem p) a" using Cons.prems(3) True by (simp add: all_ok_def)
    then have "wf_core ?p" "all_ok ?p (list_addresses l step rs (a + step))"
      using Cons.prems True by (auto simp: all_ok_def)
    with Cons.IH [of ?p "a + step"] Cons.prems(2) have
      "ldm_loop l step rs ?p (a + step) = Some (0,
        load_list (zip (listed l rs) (list_words l step rs ?p (a + step))) ?p,
        end_address l step rs (a + step))"
      by auto
    moreover have "list_words l step rs ?p b = list_words l step rs p b" for b
      by (simp add: list_words_def)
    ultimately show ?thesis using True ok Cons.prems
      by (simp add: core_simps reg_number) (simp add: list_words_def)
  next
    case False
    then show ?thesis using Cons by (simp add: list_words_def)
  qed
qed simp

lemma load_list_xreg:
  assumes "wf_core p" "fst ` set rvs \<subseteq> {..15}" "distinct (map fst rvs)" "n \<le> 15"
  shows "wf_core (load_list rvs p) \<and> core_mem (load_list rvs p) = core_mem p
    \<and> mode (load_list rvs p) = mode p
    \<and> xreg (load_list rvs p) (word_of_nat n)
      = (case map_of rvs n of Some v \<Rightarrow> v | None \<Rightarrow> xreg p (word_of_nat n))"
  using assms
proof (induction rvs arbitrary: p)
  case (Cons rv rvs)
  obtain r v where rv: "rv = (r, v)" by (cases rv)
  have "map_of rvs r = None" using Cons.prems(3) rv by (simp add: map_of_eq_None_iff)
  with Cons rv show ?case
    by (auto simp: reg_number reg_number_eq split: option.split)
qed simp

text \<open>
  What one loop stores, the other loop over the same list and from the same address loads, into
  any core that shares the memory.
\<close>

lemma stm_ldm_loop:
  assumes p: "wf_core p" "all_ok p (list_addresses l step rs a)"
    and rs: "set rs \<subseteq> {..15}" "length rs \<le> 16" and step: "step = 4 \<or> step = -4"
    and stm: "stm_loop l step rs p a = Some (0, q, b)"
    and q: "wf_core q'" "core_mem q' = core_mem q"
  shows "ldm_loop l step rs q' a = Some (0, load_list (zip (listed l rs) (list_values l rs p)) q', b)"
proof -
  let ?A = "list_addresses l step rs a"
  have puts: "puts put_word (zip ?A (list_values l rs p)) p = Some q"
    and b: "b = end_address l step rs a"
    using stm_loop_eq [OF p(1) rs(1) p(2)] stm by auto
  have len: "length (listed l rs) \<le> 16"
    using le_trans [OF length_filter_le rs(2)] by (simp only: listed_def)
  have dist: "distinct ?A"
    unfolding list_addresses_def by (rule distinct_transfer_addresses [OF step len])
  have cells: "set ?A \<subseteq> {a. word_ok (core_mem p) a}" using p(2) by (auto simp: all_ok_def)
  have keeps: "keeps_status p q"
    using stm_loop_keeps [OF p(1) rs(1), of l step a] stm by auto
  then have ok: "all_ok q ?A" using p(2) by (simp add: all_ok_def keeps_status_same)
  have "gets (\<lambda>s a. granted (arm_read_word s a)) ?A q = Some (list_values l rs p)"
    by (rule core_words.cell.gets_puts [OF p(1) cells dist _ puts])
      (simp add: list_values_def list_addresses_def)
  moreover have "gets (\<lambda>s a. granted (arm_read_word s a)) ?A q = Some (map (word_at (core_mem q)) ?A)"
    using ok keeps_status_wf [OF keeps] by (intro gets_eq_map) (simp add: core_simps all_ok_def)
  ultimately have "list_words l step rs q' a = list_values l rs p"
    by (simp add: list_words_def q(2))
  moreover have "all_ok q' ?A" using ok q(2) by (simp add: all_ok_def)
  ultimately show ?thesis
    using ldm_loop_eq [OF q(1) rs(1), of l step a] b by simp
qed
text \<open>The loop returns 0 exactly when every address is accepted.\<close>

lemma stm_loop_zero:
  "wf_core p \<Longrightarrow> set rs \<subseteq> {..15} \<Longrightarrow> stm_loop l step rs p a = Some (0, q, b)
    \<Longrightarrow> all_ok p (list_addresses l step rs a)"
proof (induction rs arbitrary: p a)
  case (Cons r rs)
  show ?case
  proof (cases "bit l r")
    case True
    let ?p = "set_word p a (rval p (word_of_nat r))"
    have ok: "word_ok (core_mem p) a" 
      using Cons.prems True by (auto simp: core_simps reg_number split: if_splits)
    then have "all_ok ?p (list_addresses l step rs (a + step))"
      using Cons.prems True by (intro Cons.IH) (auto simp: core_simps reg_number split: if_splits)
    then show ?thesis using True ok by (simp add: all_ok_def)
  qed (use Cons in simp)
qed (simp add: all_ok_def)

section \<open>STM and LDM as instructions\<close>

text \<open>The first address of a multiple transfer, its step, and its list of registers.\<close>

definition list_step :: "u32 \<Rightarrow> u32" where
  "list_step ins = (if bit ins 23 then 4 else -4)"

definition list_start :: "arm_core \<Rightarrow> u32 \<Rightarrow> u32" where
  "list_start p ins = rval p (base_register ins) + (if bit ins 24 then list_step ins else 0)"

definition list_back :: "arm_core \<Rightarrow> u32 \<Rightarrow> u32 \<Rightarrow> arm_core" where
  "list_back p ins b = (if bit ins 21
     then set_xreg p (base_register ins) (b - (if bit ins 24 then list_step ins else 0)) else p)"

lemma arm_load_store_multiple_wf:
  assumes "wf_core p" "\<not> bit ins 22"
    and "(if bit ins 20 then ldm (get_bits ins 15 0) (list_step ins) p (list_start p ins)
      else stm_loop (get_bits ins 15 0) (list_step ins) [0..<16] p (list_start p ins)) = Some (c, q, b)"
    and "wf_core q"
  shows "arm_load_store_multiple p ins =
    Some (if c \<noteq> 0 then (c, q) else (0, list_back q ins b))"
  using assms
  unfolding arm_load_store_multiple_def Let_def base_register_def [symmetric]
  by (cases "bit ins 20"; cases "bit ins 21"; cases "bit ins 23"; cases "bit ins 24")
    (simp_all add: core_simps list_start_def list_step_def list_back_def)

lemma upto_15: "[0..<16] = [0..<15] @ [15 :: nat]"
  by (simp add: upt_rec)

lemma stm_loop_skip: "\<not> bit l r \<Longrightarrow> stm_loop l step (rs @ [r]) p a = stm_loop l step rs p a"
  by (induction rs arbitrary: p a) (simp_all cong: if_cong prod.case_cong)

text \<open>
  An LDM with the same addressing mode, base and list as an STM undoes it: the listed registers
  get the values they had when they were stored.
\<close>

lemma stm_ldm_roundtrip:
  assumes p: "wf_core p"
    and stm: "\<not> bit ins 20" "\<not> bit ins 22" "\<not> bit ins 21" "\<not> bit ins 15"
    and run: "arm_load_store_multiple p ins = Some (0, q)"
    and q': "wf_core q'" "core_mem q' = core_mem q" "rval q' (base_register ins) = rval p (base_register ins)"
  shows "\<exists>r. arm_load_store_multiple q' (set_bit_macro ins 20) = Some (0, r) \<and> wf_core r
    \<and> core_mem r = core_mem q \<and> (\<forall>n \<le> 14. xreg r (word_of_nat n) =
        (if bit ins n then xreg p (word_of_nat n) else xreg q' (word_of_nat n)))"
proof -
  let ?l = "get_bits ins 15 0" and ?s = "list_step ins" and ?a = "list_start p ins"
  let ?i = "set_bit_macro ins 20"
  have l: "bit ?l n \<longleftrightarrow> n \<le> 15 \<and> bit ins n" for n by (simp add: bit_get_bits)
  have f: "get_bits ?i 15 0 = ?l" "base_register ?i = base_register ins"
    unfolding base_register_def
    by (rule word32_eqI, simp add: upt_32 bit_get_bits bit_set_bit_macro)
      (rule arg_cong [where f = ucast], rule word32_eqI, simp add: upt_32 bit_get_bits bit_set_bit_macro)
  have b: "bit ?i 20" "bit ?i n \<longleftrightarrow> bit ins n" if "n \<noteq> 20" "n < 32" for n
    using that by (simp_all add: bit_set_bit_macro)
  have g: "list_step ?i = ?s" "list_start q' ?i = ?a"
    using q'(3) by (simp_all add: list_step_def list_start_def f bit_set_bit_macro)
  obtain c r e where loop: "stm_loop ?l ?s [0..<16] p ?a = Some (c, r, e)" "keeps_status p r"
    using stm_loop_keeps [OF p, of "[0..<16]" ?l ?s ?a] by fastforce
  have "c = 0" "r = q"
    using arm_load_store_multiple_wf [OF p stm(2)] loop stm run keeps_status_wf [OF loop(2)]
    by (auto simp: list_back_def split: if_splits)
  then have loop: "stm_loop ?l ?s [0..<15] p ?a = Some (0, q, e)"
    using loop(1) stm(4) by (simp add: upto_15 stm_loop_skip l)
  have rs: "set [0..<15] \<subseteq> {..15}" "length [0..<15] \<le> 16" by auto
  let ?r = "load_list (zip (listed ?l [0..<15]) (list_values ?l [0..<15] p)) q'"
  have "ldm_loop ?l ?s [0..<15] q' ?a = Some (0, ?r, e)"
    by (rule stm_ldm_loop [OF p stm_loop_zero [OF p rs(1) loop] rs _ loop q'(1,2)])
      (simp add: list_step_def)
  then have ldm: "ldm ?l ?s q' ?a = Some (0, ?r, e)"
    using stm(4) by (simp add: ldm_def ldm_pc_def l)
  have d: "distinct (listed ?l [0..<15])" by (simp add: listed_def)
  have m: "map_of (zip (listed ?l [0..<15]) (list_values ?l [0..<15] p)) n
      = (if bit ins n then Some (xreg p (word_of_nat n)) else None)" if "n \<le> 14" for n
    using that by (auto simp: list_values_def map_of_zip_map set_listed l rval_def word_unat_eq_iff unat_of_nat)
  have "fst ` set (zip (listed ?l [0..<15]) (list_values ?l [0..<15] p)) \<subseteq> {..15}"
    by (auto dest!: set_zip_leftD simp: set_listed)
  then have x: "wf_core ?r \<and> core_mem ?r = core_mem q' \<and> mode ?r = mode q'
    \<and> xreg ?r (word_of_nat n) = (if bit ins n then xreg p (word_of_nat n) else xreg q' (word_of_nat n))"
    if "n \<le> 14" for n
    using load_list_xreg [OF q'(1), of "zip (listed ?l [0..<15]) (list_values ?l [0..<15] p)" n] that d m [OF that]
    by (simp add: list_values_def split: option.splits)
  have "arm_load_store_multiple q' ?i = Some (0, ?r)"
    using arm_load_store_multiple_wf [OF q'(1), of ?i 0 ?r e] ldm stm x [of 0]
    by (simp add: f g bit_set_bit_macro list_back_def)
  then show ?thesis using x q'(2) by auto
qed

end
