(* ===== verification/Instruction.thy ===== *)
theory Instruction
  imports Branch DataProcessing LoadStore
begin

text \<open>
  \<open>arm_instruction.c\<close>: the condition test, the decoder and the step of the processor.

  When the fetch is refused the variable \<open>opcode\<close> keeps the indeterminate value it was declared
  with, and the code goes on to decode it; the argument \<open>junk\<close> stands for that value.
\<close>

definition inst_cond :: "arm_core \<Rightarrow> u32 \<Rightarrow> bool option" where
  "inst_cond p ins = do {
     flags \<leftarrow> arm_read_cpsr p;
     let flag_N = drop_bit N_flag flags AND 1;
     let flag_Z = drop_bit Z_flag flags AND 1;
     let flag_C = drop_bit C_flag flags AND 1;
     let flag_V = drop_bit V_flag flags AND 1;
     let cond = drop_bit 28 ins;
     Some (if cond = 0x0 then flag_Z = 1
       else if cond = 0x1 then flag_Z = 0
       else if cond = 0x2 then flag_C = 1
       else if cond = 0x3 then flag_C = 0
       else if cond = 0x4 then flag_N = 1
       else if cond = 0x5 then flag_N = 0
       else if cond = 0x6 then flag_V = 1
       else if cond = 0x7 then flag_V = 0
       else if cond = 0x8 then flag_C = 1 \<and> flag_Z = 0
       else if cond = 0x9 then flag_C = 0 \<or> flag_Z = 1
       else if cond = 0xA then flag_N = flag_V
       else if cond = 0xB then flag_N \<noteq> flag_V
       else if cond = 0xC then flag_Z = 0 \<and> flag_N = flag_V
       else if cond = 0xD then flag_Z = 1 \<or> flag_N \<noteq> flag_V
       else if cond = 0xE then True
       else if cond = 0xF then True
       else False)
   }"

definition returned :: "(int \<times> arm_core) option \<Rightarrow> arm_core outcome option" where
  "returned x = map_option (\<lambda>(res, p). Return res p) x"

text \<open>The handler a decoded instruction is given to; \<open>res\<close> is the code of the fetch.\<close>

definition arm_decode :: "host \<Rightarrow> int \<Rightarrow> arm_core \<Rightarrow> u32 \<Rightarrow> arm_core outcome option" where
  "arm_decode h res p opcode =
     (if get_bits opcode 27 25 = 0 \<and> get_bits opcode 7 4 = 0b1011 then
        returned (arm_load_store h p opcode)
      else if get_bits opcode 27 25 = 0b010
          \<or> get_bits opcode 27 25 = 0b011 \<and> get_bit opcode 4 = 0 then
        returned (arm_load_store h p opcode)
      else if get_bits opcode 27 25 = 0b100 then returned (arm_load_store_multiple p opcode)
      else if get_bits opcode 27 25 = 0b101 then returned (arm_branch p opcode)
      else if get_bits opcode 27 23 = 0b00010 \<and> get_bits opcode 21 20 = 0b00 then
        returned (arm_miscellaneous p opcode)
      else if get_bits opcode 27 24 = 0b1111 then Some (arm_coprocessor_others_swi p opcode)
      else if get_bits opcode 27 26 = 0b00 then returned (arm_data_processing_shift h p opcode)
      else Some (Return res p))"

definition arm_execute_instruction :: "host \<Rightarrow> u32 \<Rightarrow> arm_core \<Rightarrow> arm_core outcome option" where
  "arm_execute_instruction h junk p = do {
     (fetch, p) \<leftarrow> arm_fetch p;
     let res = (case fetch of Denied \<Rightarrow> -1 | Granted _ \<Rightarrow> 0);
     let opcode = (case fetch of Denied \<Rightarrow> junk | Granted value \<Rightarrow> value);
     execute \<leftarrow> inst_cond p opcode;
     if execute then arm_decode h res p opcode else Some (Return res p)
   }"

definition arm_step :: "host \<Rightarrow> u32 \<Rightarrow> arm_core \<Rightarrow> arm_core outcome option" where
  "arm_step h junk p = do {
     outcome \<leftarrow> arm_execute_instruction h junk p;
     case outcome of
       Exit code \<Rightarrow> Some (Exit code)
     | Return result p \<Rightarrow>
         if result \<noteq> 0 then do {
           p \<leftarrow> arm_exception p (word_of_int result);
           Some (Return result p)
         }
         else Some (Return result p)
   }"

section \<open>Conditions\<close>

text \<open>The sixteen conditions of the manual (section A3.2) on the flags.\<close>

definition condition_holds :: "u32 \<Rightarrow> bool \<Rightarrow> bool \<Rightarrow> bool \<Rightarrow> bool \<Rightarrow> bool" where
  "condition_holds cond n z c v =
     (let base = [z, c, n, v, c \<and> \<not> z, n = v, \<not> z \<and> n = v, True] ! unat (drop_bit 1 cond)
      in if cond < 14 \<and> bit cond 0 then \<not> base else base)"

lemma condition_cases:
  "drop_bit 28 (ins :: u32) \<in> {0, 1, 2, 3, 4, 5, 6, 7, 8, 9, 0xA, 0xB, 0xC, 0xD, 0xE, 0xF}"
proof -
  have "drop_bit 28 ins = get_bits ins 31 28"
    by (rule bit_word_eqI) (auto simp: bit_drop_bit_eq bit_get_bits add.commute dest: bit_imp_le_length)
  then have "unat (drop_bit 28 ins) < 16" using get_bits_less [of 28 31 ins] by simp
  then have "unat (drop_bit 28 ins) \<in> {0, 1, 2, 3, 4, 5, 6, 7, 8, 9, 10, 11, 12, 13, 14, 15}"
    unfolding insert_iff empty_iff by arith
  then show ?thesis by (auto simp: word_unat_eq_iff)
qed

lemma inst_cond_wf [core_simps]:
  assumes "wf_core p"
  shows "inst_cond p ins = Some (condition_holds (drop_bit 28 ins)
    (bit (cpsr p) 31) (bit (cpsr p) 30) (bit (cpsr p) 29) (bit (cpsr p) 28))"
  using condition_cases [of ins] assms
  unfolding inst_cond_def get_bit_def [symmetric] get_bit_c_bool
  by (elim insertE emptyE) (simp_all add: core_simps condition_holds_def Let_def)

section \<open>What a step keeps\<close>

text \<open>
  Every handler keeps well-formedness, the cycle counter and the layout of the memory, and does
  not leave User mode.
\<close>

definition keeps_machine :: "arm_core \<Rightarrow> arm_core \<Rightarrow> bool" where
  "keeps_machine p q \<longleftrightarrow> wf_core q \<and> cycle_count q = cycle_count p
     \<and> mem_size (core_mem q) = mem_size (core_mem p)
     \<and> is_big_endian_type (core_mem q) = is_big_endian_type (core_mem p)
     \<and> (mode p = USR \<longrightarrow> mode q = USR)"

lemma keeps_status_machine: "keeps_status p q \<Longrightarrow> keeps_machine p q"
  using keeps_status_same(1) [of p q] by (auto simp: keeps_machine_def keeps_status_def)

lemma set_xreg_keeps: "wf_core p \<Longrightarrow> keeps_machine p (set_xreg p n v)"
  by (simp add: keeps_machine_def)

lemma keeps_machine_refl: "wf_core p \<Longrightarrow> keeps_machine p p"
  by (simp add: keeps_machine_def)

lemma dp_exec_keeps:
  assumes "wf_core p"
  shows "keeps_machine p (dp_exec p opcode rd rn S b sc)"
    and "core_mem (dp_exec p opcode rd rn S b sc) = core_mem p"
  using assms
  by (simp_all add: dp_exec_def dp_write_def Let_def keeps_machine_def mode_set_cpsr_user)

definition step_codes :: "int set" where
  "step_codes = {0, -1, UNDEFINED_INSTRUCTION, SOFTWARE_INTERRUPT, DATA_ABORT}"

lemma arm_load_store_code:
  assumes "wf_core p" "arm_load_store h p ins = Some (r, q)"
  shows "r \<in> step_codes"
proof (cases "get_bits ins 27 26 = 1")
  case True
  show ?thesis
  proof (cases "offset_spec h p ins")
    case None
    then show ?thesis using assms True by (auto simp: load_store_word_byte_wf step_codes_def)
  next
    case (Some offset)
    then show ?thesis using assms True
      by (auto simp: load_store_word_byte_wf Let_def step_codes_def split: prod.splits if_splits)
  qed
next
  case False
  then show ?thesis using assms
    by (auto simp: load_store_halfword_wf Let_def step_codes_def split: prod.splits if_splits)
qed

lemma arm_load_store_multiple_code:
  assumes "wf_core p"
  shows "\<exists>c q. arm_load_store_multiple p ins = Some (c, q) \<and> keeps_status p q \<and> c \<in> step_codes"
proof -
  obtain c q where q: "arm_load_store_multiple p ins = Some (c, q)" "keeps_status p q"
    using arm_load_store_multiple_keeps [OF assms] by blast
  have "c \<in> step_codes"
  proof (cases "bit ins 22")
    case True
    then show ?thesis using assms q(1)
      by (auto simp: arm_load_store_multiple_def Let_def core_simps step_codes_def)
  next
    case False
    let ?x = "if bit ins 20 then ldm (get_bits ins 15 0) (list_step ins) p (list_start p ins)
      else stm_loop (get_bits ins 15 0) (list_step ins) [0..<16] p (list_start p ins)"
    have "\<exists>c q b. ?x = Some (c, q, b) \<and> keeps_status p q \<and> c \<in> {0, DATA_ABORT}"
      using ldm_keeps [OF assms, of "get_bits ins 15 0" "list_step ins" "list_start p ins"]
        stm_loop_keeps [OF assms, of "[0..<16]" "get_bits ins 15 0" "list_step ins" "list_start p ins"]
      by fastforce
    then obtain d r b where x: "?x = Some (d, r, b)" "keeps_status p r" "d \<in> {0, DATA_ABORT}" by blast
    show ?thesis
      using arm_load_store_multiple_wf [OF assms False x(1) keeps_status_wf [OF x(2)]] q(1) x(3)
      by (auto simp: step_codes_def)
  qed
  with q show ?thesis by blast
qed

text \<open>The byte access at the end of the memory, the only one that is undefined.\<close>

definition stray_byte_access :: "host \<Rightarrow> arm_core \<Rightarrow> u32 \<Rightarrow> bool" where
  "stray_byte_access h p ins \<longleftrightarrow> get_bits ins 27 26 = 1 \<and> bit ins 22 \<and>
     (\<exists>offset. offset_spec h p ins = Some offset
       \<and> access_address p ins offset = mem_size (core_mem p))"

lemma arm_load_store_outcome:
  assumes "wf_core p"
  shows "if stray_byte_access h p ins then arm_load_store h p ins = None
    else \<exists>r q. arm_load_store h p ins = Some (r, q) \<and> keeps_machine p q \<and> r \<in> step_codes"
  using arm_load_store_defined [OF assms, of h ins] arm_load_store_keeps [OF assms, of h ins]
    arm_load_store_code [OF assms, of h ins] keeps_status_machine [of p]
  by (cases "arm_load_store h p ins") (auto simp: stray_byte_access_def)

definition is_load_store :: "u32 \<Rightarrow> bool" where
  "is_load_store ins \<longleftrightarrow> get_bits ins 27 25 = 0 \<and> get_bits ins 7 4 = 0b1011
     \<or> get_bits ins 27 25 = 0b010 \<or> get_bits ins 27 25 = 0b011 \<and> \<not> bit ins 4"

definition good_outcome :: "arm_core \<Rightarrow> arm_core outcome option \<Rightarrow> bool" where
  "good_outcome p x \<longleftrightarrow> x = Some (Exit 0) \<or>
     (\<exists>r q. x = Some (Return r q) \<and> keeps_machine p q \<and> r \<in> step_codes)"

lemma good_returned:
  "x = Some (r, q) \<Longrightarrow> keeps_machine p q \<Longrightarrow> r \<in> step_codes \<Longrightarrow> good_outcome p (returned x)"
  by (simp add: good_outcome_def returned_def)

lemma arm_decode_outcome:
  assumes "wf_core p" "res \<in> step_codes" "\<not> (is_load_store ins \<and> stray_byte_access h p ins)"
  shows "good_outcome p (arm_decode h res p ins)"
proof -
  have ls: "is_load_store ins \<Longrightarrow> good_outcome p (returned (arm_load_store h p ins))"
    using arm_load_store_outcome [OF assms(1), of h ins] assms(3) by (auto intro: good_returned)
  have multi: "good_outcome p (returned (arm_load_store_multiple p ins))"
    using arm_load_store_multiple_code [OF assms(1), of ins] keeps_status_machine
    by (blast intro: good_returned)
  have branch: "good_outcome p (returned (arm_branch p ins))"
    using assms(1)
    by (intro good_returned [OF arm_branch_wf]) (simp_all add: keeps_machine_def step_codes_def)
  have misc: "good_outcome p (returned (arm_miscellaneous p ins))"
    using assms(1)
    by (auto simp: core_simps step_codes_def good_outcome_def returned_def
        intro: set_xreg_keeps keeps_machine_refl)
  have dp: "good_outcome p (returned (arm_data_processing_shift h p ins))"
    using assms(1)
    by (auto simp: core_simps step_codes_def good_outcome_def returned_def
        intro: dp_exec_keeps keeps_machine_refl split: option.split)
  have swi: "good_outcome p (Some (arm_coprocessor_others_swi p ins))"
    using assms(1)
    by (simp add: arm_coprocessor_others_swi_def step_codes_def good_outcome_def keeps_machine_refl)
  have none: "good_outcome p (Some (Return res p))"
    using assms(1,2) by (simp add: good_outcome_def keeps_machine_refl)
  have bit_4: "get_bit ins 4 = 0 \<longleftrightarrow> \<not> bit ins 4" by simp
  show ?thesis
    using ls multi branch misc dp swi none
    unfolding arm_decode_def is_load_store_def bit_4 by (simp only: split: if_split) blast
qed

text \<open>What the step executes: the fetched word, or the indeterminate one.\<close>

definition current_instruction :: "u32 \<Rightarrow> arm_core \<Rightarrow> u32" where
  "current_instruction junk p = (if word_ok (core_mem p) (fetch_address p)
     then word_at (core_mem p) (fetch_address p) else junk)"

definition instruction_passes :: "arm_core \<Rightarrow> u32 \<Rightarrow> bool" where
  "instruction_passes p ins \<longleftrightarrow> condition_holds (drop_bit 28 ins)
     (bit (cpsr p) 31) (bit (cpsr p) 30) (bit (cpsr p) 29) (bit (cpsr p) 28)"

definition fetch_code :: "arm_core \<Rightarrow> int" where
  "fetch_code p = (if word_ok (core_mem p) (fetch_address p) then 0 else -1)"

lemma arm_execute_instruction_wf:
  assumes "wf_core p"
  shows "arm_execute_instruction h junk p = (let ins = current_instruction junk p in
    if instruction_passes p ins then arm_decode h (fetch_code p) (fetched p) ins
    else Some (Return (fetch_code p) (fetched p)))"
  using assms
  by (simp add: arm_execute_instruction_def arm_fetch_wf current_instruction_def fetch_code_def
      instruction_passes_def Let_def inst_cond_wf)

text \<open>
  None of the codes a handler returns is RESET, the one exception \<open>arm_exception\<close> acts on: a
  step never enters an exception.
\<close>

lemma arm_exception_step_codes:
  "r \<in> step_codes \<Longrightarrow> r \<noteq> 0 \<Longrightarrow> arm_exception p (word_of_int r) = Some p"
  by (auto simp: step_codes_def arm_exception_def)

lemma arm_step_execute:
  assumes "good_outcome (fetched p) (arm_execute_instruction h junk p)"
  shows "arm_step h junk p = arm_execute_instruction h junk p"
  using assms arm_exception_step_codes
  by (auto simp: arm_step_def good_outcome_def)

lemma fetched_keeps:
  "wf_core p \<Longrightarrow> keeps_machine (fetched p) q \<Longrightarrow> keeps_machine (p\<lparr>cycle_count := cycle_count p + 1\<rparr>) q"
  by (simp add: keeps_machine_def)

text \<open>
  The step, for every state: it is defined unless the instruction is a byte access at the end of
  the memory, it is the executed instruction, and it keeps the machine.
\<close>

definition stray_step :: "host \<Rightarrow> u32 \<Rightarrow> arm_core \<Rightarrow> bool" where
  "stray_step h junk p \<longleftrightarrow> (let ins = current_instruction junk p in
     instruction_passes p ins \<and> is_load_store ins \<and> stray_byte_access h (fetched p) ins)"

lemma arm_execute_outcome:
  assumes "wf_core p" "\<not> stray_step h junk p"
  shows "good_outcome (fetched p) (arm_execute_instruction h junk p)"
proof -
  have "fetch_code p \<in> step_codes" by (simp add: fetch_code_def step_codes_def)
  then show ?thesis
    using assms arm_decode_outcome [of "fetched p" "fetch_code p" "current_instruction junk p" h]
    by (auto simp: arm_execute_instruction_wf Let_def stray_step_def good_outcome_def
        intro: keeps_machine_refl)
qed

lemma arm_step_outcome:
  assumes "wf_core p" "\<not> stray_step h junk p"
  shows "good_outcome (fetched p) (arm_step h junk p)"
    and "arm_step h junk p = arm_execute_instruction h junk p"
  using arm_execute_outcome [OF assms] arm_step_execute by (simp_all add: good_outcome_def)
lemma arm_step_stray:
  assumes "wf_core p" "stray_step h junk p"
  shows "arm_step h junk p = None"
proof -
  have "arm_load_store h (fetched p) (current_instruction junk p) = None"
    using arm_load_store_outcome [of "fetched p" h "current_instruction junk p"] assms
    by (auto simp: stray_step_def Let_def)
  then show ?thesis
    using assms
    by (auto simp: arm_step_def arm_execute_instruction_wf Let_def stray_step_def arm_decode_def
        is_load_store_def returned_def)
qed

section \<open>Runs of the processor\<close>

text \<open>
  A step as a transition of the core: defined when the step returns to its caller.  The list of
  inputs of a run are the indeterminate opcodes, used where a fetch is refused.
\<close>

definition machine_step :: "host \<Rightarrow> u32 \<Rightarrow> arm_core \<Rightarrow> arm_core option" where
  "machine_step h junk p = (case arm_step h junk p of Some (Return c q) \<Rightarrow> Some q | _ \<Rightarrow> None)"

lemma machine_step_keeps:
  assumes "wf_core p" "machine_step h junk p = Some q"
  shows "keeps_machine (fetched p) q"
proof (cases "stray_step h junk p")
  case True
  then show ?thesis using assms by (simp add: machine_step_def arm_step_stray)
next
  case False
  then show ?thesis using assms arm_step_outcome [OF assms(1) False]
    by (auto simp: machine_step_def good_outcome_def)
qed

interpretation machine: step_system "machine_step h" wf_core for h
  by unfold_locales (use machine_step_keeps in \<open>auto simp: keeps_machine_def\<close>)

interpretation user_machine: step_system "machine_step h" "\<lambda>p. wf_core p \<and> mode p = USR" for h
  by unfold_locales (use machine_step_keeps in \<open>auto simp: keeps_machine_def\<close>)

interpretation sized_machine: step_system "machine_step h"
  "\<lambda>p. wf_core p \<and> mem_size (core_mem p) = n \<and> is_big_endian_type (core_mem p) = b" for h n b
  by unfold_locales (use machine_step_keeps in \<open>auto simp: keeps_machine_def\<close>)

end
