(* ===== verification/InstructionProperties.thy ===== *)
theory InstructionProperties
  imports Instruction CoreProperties
begin

text \<open>
  The properties of the instructions: conditions, data processing, loads and stores, branches.
  The witnesses run on \<open>demo_core\<close>; \<open>demo_host\<close> is a little-endian host that masks shift
  counts.
\<close>

definition demo_host :: host where
  "demo_host = \<lparr>host_shifter = Masking, host_big_endian = False\<rparr>"

lemma operand_of_shifter:
  assumes "wf_core p" "shifter_operand h p ins = Some (Some (b, sc))"
  shows "operand_spec p ins = Some (b, sc \<noteq> 0)"
  using assms by (auto simp: shifter_operand_wf)

section \<open>Conditions\<close>

text \<open>An instruction is executed under the sixteen conditions of the manual: the eight basic
  conditions on the flags, and their negations for the odd codes below 14.\<close>

lemma conditions_of_the_manual:
  assumes "wf_core p"
  shows "inst_cond p ins = Some (condition_holds (drop_bit 28 ins)
    (bit (cpsr p) 31) (bit (cpsr p) 30) (bit (cpsr p) 29) (bit (cpsr p) 28))"
  using assms by (rule inst_cond_wf)

text \<open>What the conditions mean after a comparison; the conditions on a single flag N or V mean
  nothing on their own.\<close>

definition cmp_relation :: "u32 \<Rightarrow> u32 \<Rightarrow> u32 \<Rightarrow> bool option" where
  "cmp_relation cond a b =
     (if cond = 0 then Some (a = b) else if cond = 1 then Some (a \<noteq> b)
      else if cond = 2 then Some (b \<le> a) else if cond = 3 then Some (a < b)
      else if cond = 8 then Some (b < a) else if cond = 9 then Some (a \<le> b)
      else if cond = 10 then Some (sint b \<le> sint a) else if cond = 11 then Some (sint a < sint b)
      else if cond = 12 then Some (sint b < sint a) else if cond = 13 then Some (sint a \<le> sint b)
      else if cond = 14 \<or> cond = 15 then Some True else None)"

lemma signed_flags:
  "bit (a - b) 31 = (sint a - sint b \<notin> signed_range) \<longleftrightarrow> sint b \<le> sint (a :: u32)"
proof -
  obtain x y where x: "uint a = x" "0 \<le> x" "x < 2 ^ 32" and y: "uint b = y" "0 \<le> y" "y < 2 ^ 32"
    using uint_u32 by blast
  show ?thesis using x(2,3) y(2,3)
    by (auto simp: bit_31 sint_if uint_sub_if' signed_range_def x(1) y(1))
qed

lemma cmp_conditions:
  assumes "cmp_relation cond a b = Some r"
  shows "condition_holds cond (bit (a - b) 31) (a - b = 0) (b \<le> a)
    (sint a - sint b \<notin> signed_range) = r"
proof -
  obtain x y where x: "uint a = x" "0 \<le> x" "x < 2 ^ 32" and y: "uint b = y" "0 \<le> y" "y < 2 ^ 32"
    using uint_u32 by blast
  have "a = b \<longleftrightarrow> sint a = sint b"
    using x(2,3) y(2,3) by (auto simp: sint_if word_uint_eq_iff x(1) y(1))
  then show ?thesis
    using assms signed_flags [of a b]
    by (auto simp: cmp_relation_def condition_holds_def Let_def split: if_splits)
qed

text \<open>C6: After a CMP of \<open>a\<close> with the operand \<open>b\<close> the conditions are the relations of the two
  words: equality, the unsigned order (CS, CC, HI, LS) and the signed order (GE, LT, GT, LE);
  registers and memory have not changed.\<close>

theorem cmp_decides_conditions:
  assumes "wf_core p" "shifter_operand h p ins = Some (Some (b, sc))" "get_bits ins 24 21 = 0xa"
    and "a = rval p (ucast (get_bits ins 19 16))"
  shows "\<exists>q. arm_data_processing_shift h p ins = Some (0, q) \<and> core_mem q = core_mem p
    \<and> (\<forall>n. xreg q n = xreg p n)
    \<and> (\<forall>i r. cmp_relation (drop_bit 28 i) a b = Some r \<longrightarrow> inst_cond q i = Some r)"
proof -
  let ?q = "set_flags p (bit (a - b) 31) (a - b = 0) (b \<le> a) (sint a - sint b \<notin> signed_range)"
  have "arm_data_processing_shift h p ins = Some (0, ?q)"
    using assms operand_of_shifter [OF assms(1,2)]
    by (simp add: arm_data_processing_shift_wf dp_defs)
  moreover have "inst_cond ?q i = Some r" if "cmp_relation (drop_bit 28 i) a b = Some r" for i r
    using assms(1) cmp_conditions [OF that] by (simp add: inst_cond_wf bit_cpsr_set_flags)
  ultimately show ?thesis using assms(1) by auto
qed

theorem cmp_decides_conditions_witness:
  "\<exists>q. arm_data_processing_shift demo_host demo_core 0xE3500005 = Some (0, q)
    \<and> inst_cond q 0xB0000000 = Some True \<and> inst_cond q 0x20000000 = Some False"
proof -
  have "shifter_operand demo_host demo_core 0xE3500005 = Some (Some (5, 0))"
    "get_bits 0xE3500005 24 21 = 0xa" "get_bits 0xE3500005 19 16 = 0"
    by code_simp+
  then show ?thesis
    using cmp_decides_conditions [of demo_core demo_host "0xE3500005" 5 0 0]
    by (auto simp: cmp_relation_def)
qed

section \<open>Data processing\<close>

text \<open>C4: Without the bit S, an instruction that is not a comparison writes to its destination
  the result of the operation table of the manual on the first register, the shifter operand
  and the carry flag, and changes no other register, nor the memory or the CPSR.\<close>

theorem data_processing_result:
  assumes "wf_core p" "shifter_operand h p ins = Some (Some (b, sc))" "\<not> bit ins 20"
    and "get_bits ins 24 21 \<notin> {8, 9, 0xa, 0xb}"
  shows "\<exists>q. arm_data_processing_shift h p ins = Some (0, q) \<and> wf_core q
    \<and> xreg q (ucast (get_bits ins 15 12)) = alu_result (get_bits ins 24 21)
        (rval p (ucast (get_bits ins 19 16))) b (bit (cpsr p) 29)
    \<and> (\<forall>n \<le> 15. n \<noteq> ucast (get_bits ins 15 12) \<longrightarrow> xreg q n = xreg p n)
    \<and> core_mem q = core_mem p \<and> cpsr q = cpsr p"
proof -
  let ?r = "alu_result (get_bits ins 24 21) (rval p (ucast (get_bits ins 19 16))) b (bit (cpsr p) 29)"
  have "arm_data_processing_shift h p ins = Some (0, set_xreg p (ucast (get_bits ins 15 12)) ?r)"
    using assms operand_of_shifter [OF assms(1,2)]
    by (simp add: arm_data_processing_shift_wf dp_exec_def dp_write_def Let_def)
  then show ?thesis using assms(1) by simp
qed

theorem data_processing_result_witness:
  "\<exists>q. arm_data_processing_shift demo_host demo_core 0xE2810005 = Some (0, q) \<and> xreg q 0 = 5"
proof -
  have "shifter_operand demo_host demo_core 0xE2810005 = Some (Some (5, 0))"
    "get_bits 0xE2810005 24 21 = 4" "get_bits 0xE2810005 19 16 = 1" "get_bits 0xE2810005 15 12 = 0"
    "\<not> bit (0xE2810005 :: u32) 20"
    by code_simp+
  then show ?thesis
    using data_processing_result [of demo_core demo_host "0xE2810005" 5 0]
    by (auto simp: alu_result_def)
qed

text \<open>C5: The flags of a SUBS whose destination is neither its first operand nor r15: N and Z are
  those of the difference, C says that no borrow occurred and V that the signed difference is out
  of range.\<close>

theorem subs_flags:
  assumes "wf_core p" "shifter_operand h p ins = Some (Some (b, sc))" "get_bits ins 24 21 = 2"
    and "bit ins 20" "ucast (get_bits ins 15 12) \<noteq> (15 :: u8)"
    and "get_bits ins 15 12 \<noteq> get_bits ins 19 16" "a = rval p (ucast (get_bits ins 19 16))"
  shows "\<exists>q. arm_data_processing_shift h p ins = Some (0, q)
    \<and> xreg q (ucast (get_bits ins 15 12)) = a - b
    \<and> (bit (cpsr q) 31 \<longleftrightarrow> sint (a - b) < 0) \<and> (bit (cpsr q) 30 \<longleftrightarrow> a = b)
    \<and> (bit (cpsr q) 29 \<longleftrightarrow> unat b \<le> unat a)
    \<and> (bit (cpsr q) 28 \<longleftrightarrow> sint a - sint b \<notin> signed_range)
    \<and> (\<forall>n < 28. bit (cpsr q) n = bit (cpsr p) n)"
proof -
  let ?rd = "ucast (get_bits ins 15 12) :: u8" and ?rn = "ucast (get_bits ins 19 16) :: u8"
  have "unat ?rd = unat (get_bits ins 15 12)" "unat ?rn = unat (get_bits ins 19 16)"
    by (simp_all add: small_field)
  then have neq: "?rn \<noteq> ?rd" using assms(6) by (metis word_unat_eq_iff)
  let ?q = "set_flags (set_xreg p ?rd (a - b)) (bit (a - b) 31) (a - b = 0) (b \<le> a)
    (sint a - sint b \<notin> signed_range)"
  have "rval (set_xreg p ?rd (a - b)) ?rn = a"
    using assms(1,7) neq by (simp add: rval_set_xreg)
  then have "arm_data_processing_shift h p ins = Some (0, ?q)"
    using assms operand_of_shifter [OF assms(1,2)]
    by (simp add: arm_data_processing_shift_wf dp_defs dp_write_def get_bit_eq)
  moreover have "bit (a - b) 31 \<longleftrightarrow> sint (a - b) < 0" using bit_last_iff [of "a - b"] by simp
  ultimately show ?thesis
    using assms(1) xreg_set_xreg [OF assms(1) register_fields(1) register_fields(1)]
    by (auto simp: bit_cpsr_set_flags word_le_nat_alt)
qed

theorem subs_flags_witness:
  "\<exists>q. arm_data_processing_shift demo_host demo_core 0xE2510005 = Some (0, q)
    \<and> xreg q 0 = -5 \<and> bit (cpsr q) 31 \<and> \<not> bit (cpsr q) 29"
proof -
  have "shifter_operand demo_host demo_core 0xE2510005 = Some (Some (5, 0))"
    "get_bits 0xE2510005 24 21 = 2" "get_bits 0xE2510005 19 16 = 1" "get_bits 0xE2510005 15 12 = 0"
    "bit (0xE2510005 :: u32) 20" "sint (- 5 :: u32) < 0"
    by code_simp+
  then show ?thesis
    using subs_flags [of demo_core demo_host "0xE2510005" 5 0 0] by auto
qed

text \<open>C25: When the destination of a SUBS is its first operand, and not r15, the flags C and V are computed from
  the register after it has been overwritten: for \<open>a - b\<close> they are those of \<open>(a - b) - b\<close>, while the result, N
  and Z are right.  Two equal operands other than 0 give 0 and set Z, but clear C, as if a borrow had
  occurred.\<close>

theorem subs_same_register_carry:
  assumes "wf_core p" "shifter_operand h p ins = Some (Some (b, sc))" "get_bits ins 24 21 = 2"
    and "bit ins 20" "ucast (get_bits ins 15 12) \<noteq> (15 :: u8)"
    and "get_bits ins 15 12 = get_bits ins 19 16" "a = xreg p (ucast (get_bits ins 15 12))"
  shows "\<exists>q. arm_data_processing_shift h p ins = Some (0, q)
    \<and> xreg q (ucast (get_bits ins 15 12)) = a - b
    \<and> (bit (cpsr q) 31 \<longleftrightarrow> sint (a - b) < 0) \<and> (bit (cpsr q) 30 \<longleftrightarrow> a = b)
    \<and> (bit (cpsr q) 29 \<longleftrightarrow> unat b \<le> unat (a - b))
    \<and> (bit (cpsr q) 28 \<longleftrightarrow> sint (a - b) - sint b \<notin> signed_range)
    \<and> (\<forall>n < 28. bit (cpsr q) n = bit (cpsr p) n)
    \<and> (a = b \<and> b \<noteq> 0 \<longrightarrow> bit (cpsr q) 30 \<and> \<not> bit (cpsr q) 29)"
proof -
  let ?rd = "ucast (get_bits ins 15 12) :: u8" and ?r = "a - b"
  let ?q = "set_flags (set_xreg p ?rd ?r) (bit ?r 31) (?r = 0) (b \<le> ?r) (sint ?r - sint b \<notin> signed_range)"
  have rn: "get_bits ins 19 16 = get_bits ins 15 12" using assms(6) by (rule sym)
  have v: "rval p ?rd = a" "rval (set_xreg p ?rd ?r) ?rd = ?r"
    using assms(1,5,7) by (simp_all add: rval_def)
  have run: "arm_data_processing_shift h p ins = Some (0, ?q)"
    using assms(1-5) operand_of_shifter [OF assms(1,2)] v
    by (simp add: arm_data_processing_shift_wf dp_defs dp_write_def get_bit_eq rn)
  have n: "bit ?r 31 \<longleftrightarrow> sint ?r < 0" using bit_last_iff [of ?r] by simp
  have "xreg ?q ?rd = ?r" "bit (cpsr ?q) 31 = bit ?r 31" "bit (cpsr ?q) 30 \<longleftrightarrow> a = b"
    "bit (cpsr ?q) 29 \<longleftrightarrow> unat b \<le> unat ?r" "bit (cpsr ?q) 28 \<longleftrightarrow> sint ?r - sint b \<notin> signed_range"
    "\<forall>n < 28. bit (cpsr ?q) n = bit (cpsr p) n"
    using assms(1) xreg_set_xreg [OF assms(1) register_fields(1) register_fields(1)]
    by (simp_all add: bit_cpsr_set_flags word_le_nat_alt)
  moreover have "\<not> unat b \<le> unat ?r" if "a = b" "b \<noteq> 0" using that by (simp add: unat_gt_0)
  ultimately show ?thesis using run n by blast
qed

theorem subs_same_register_carry_witness:
  "\<exists>q. arm_data_processing_shift demo_host (set_xreg demo_core 0 1) 0xE2500001 = Some (0, q)
    \<and> xreg q 0 = 0 \<and> bit (cpsr q) 30 \<and> \<not> bit (cpsr q) 29 \<and> \<not> bit (cpsr q) 28"
proof -
  let ?p = "set_xreg demo_core 0 1"
  have f: "shifter_operand demo_host ?p 0xE2500001 = Some (Some (1, 0))"
    "get_bits 0xE2500001 24 21 = 2" "get_bits 0xE2500001 19 16 = 0" "get_bits 0xE2500001 15 12 = 0"
    "bit (0xE2500001 :: u32) 20"
    by code_simp+
  have "wf_core ?p" "1 = xreg ?p (ucast (get_bits 0xE2500001 15 12))"
    "ucast (get_bits 0xE2500001 15 12) \<noteq> (15 :: u8)" "get_bits 0xE2500001 15 12 = get_bits 0xE2500001 19 16"
    by (simp_all add: f(3,4))
  from subs_same_register_carry [OF this(1) f(1,2,5) this(3,4,2), unfolded f(4)]
  obtain q where q: "arm_data_processing_shift demo_host ?p 0xE2500001 = Some (0, q)"
    "xreg q (ucast (0 :: u32)) = 1 - 1"
    "bit (cpsr q) 28 \<longleftrightarrow> sint (1 - 1 :: u32) - sint (1 :: u32) \<notin> signed_range"
    "(1 :: u32) = 1 \<and> (1 :: u32) \<noteq> 0 \<longrightarrow> bit (cpsr q) 30 \<and> \<not> bit (cpsr q) 29"
    by blast
  moreover have "sint (1 - 1 :: u32) - sint (1 :: u32) \<in> signed_range" by (simp add: signed_range_def)
  ultimately show ?thesis by simp
qed

text \<open>C7: The shifter operand of a register shifted left, logically right or arithmetically right
  is the shift of the manual with its carry, for every count: the count is five bits of the
  instruction or the low byte of a register, and an immediate 0 of a right shift stands for 32.\<close>

theorem shifter_operand_shifts:
  assumes "wf_core p" "\<not> bit ins 25" "\<not> (bit ins 4 \<and> bit ins 7)" "get_bits ins 6 5 \<noteq> 3"
  shows "shifter_operand h p ins = Some (Some (map_prod id of_c_bool
    (shift_spec (get_bits ins 6 5)
      (if bit ins 4 then unat (rval p (ucast (get_bits ins 11 8)) AND 0xff)
       else if unat (get_bits ins 11 7) = 0 \<and> get_bits ins 6 5 \<noteq> 0 then 32
       else unat (get_bits ins 11 7))
      (rval p (ucast (get_bits ins 3 0))) (bit (cpsr p) 29))))"
proof -
  have "unat (ucast (get_bits ins 11 7) :: u8) = unat (get_bits ins 11 7)"
    by (simp add: small_field)
  then show ?thesis using assms
    by (simp add: shifter_operand_wf operand_spec_def Let_def code_shift_def shift_amount_def
        map_prod_def split_beta)
qed

theorem shifter_operand_shifts_witness:
  "shifter_operand demo_host (set_xreg demo_core 1 0x80000001) 0x000000C1 = Some (Some (0xC0000000, 1))
    \<and> shifter_operand demo_host (set_xreg demo_core 1 0x80000001) 0x000000A1 = Some (Some (0x40000000, 1))"
proof -
  have f: "get_bits 0x000000C1 6 5 = 2" "get_bits 0x000000C1 11 7 = 1" "get_bits 0x000000C1 3 0 = 1"
    "get_bits 0x000000A1 6 5 = 1" "get_bits 0x000000A1 11 7 = 1" "get_bits 0x000000A1 3 0 = 1"
    "\<not> bit (0x000000C1 :: u32) 25" "\<not> bit (0x000000C1 :: u32) 4"
    "\<not> bit (0x000000A1 :: u32) 25" "\<not> bit (0x000000A1 :: u32) 4"
    "shift_spec 1 1 0x80000001 False = (0x40000000, True)"
    by code_simp+
  then have "shift_spec 2 1 0x80000001 False = (0xC0000000, True)"
    by code_simp
  then show ?thesis
    using shifter_operand_shifts [of "set_xreg demo_core 1 0x80000001" "0x000000C1" demo_host] f
      shifter_operand_shifts [of "set_xreg demo_core 1 0x80000001" "0x000000A1" demo_host]
    by (simp add: rval_set_xreg)
qed

text \<open>The immediate operand is a byte rotated right by twice the four-bit count; the carry is
  bit 31 of the result, or the flag C when the count is zero.\<close>

lemma shifter_operand_rotated_immediate:
  assumes "wf_core p" "bit ins 25" "v = word_rotr (2 * unat (get_bits ins 11 8)) (ins AND 0xff)"
  shows "shifter_operand h p ins = Some (Some (v, of_c_bool
    (if get_bits ins 11 8 = 0 then bit (cpsr p) 29 else bit v 31)))"
proof -
  have "unat (get_bits ins 11 8) = 0 \<longleftrightarrow> get_bits ins 11 8 = 0" by (simp add: word_unat_eq_iff)
  then show ?thesis using assms by (simp add: shifter_operand_wf operand_spec_def Let_def)
qed

text \<open>The rotation that the manual asks for, against the arithmetic shift.\<close>

lemma rotr_signed:
  assumes "n < 32"
  shows "word_rotr n x = signed_drop_bit n (x :: u32) \<longleftrightarrow> (\<forall>k < n. bit x k = bit x 31)"
proof -
  have r: "bit (word_rotr n x) k = (if k + n < 32 then bit x (k + n) else bit x (k + n - 32))" if "k < 32" for k
    using that assms by (auto simp: bit_word_rotr_iff mod_if)
  have s: "bit (signed_drop_bit n x) k = (if k + n < 32 then bit x (k + n) else bit x 31)" if "k < 32" for k
    using that assms by (simp add: bit_signed_drop_bit_iff add.commute not_le le_diff_conv less_diff_conv del: One_nat_def)
  have "word_rotr n x = signed_drop_bit n x \<longleftrightarrow> (\<forall>k < 32. 32 \<le> k + n \<longrightarrow> bit x (k + n - 32) = bit x 31)"
    using r s by (auto simp: bit_eq_iff [of "word_rotr n x"] dest: bit_imp_le_length)
  also have "\<dots> \<longleftrightarrow> (\<forall>k < n. bit x k = bit x 31)"
    (is "?L \<longleftrightarrow> ?R")
  proof
    assume l: ?L
    show ?R
    proof (intro allI impI)
      fix k assume "k < n"
      then show "bit x k = bit x 31" using l [rule_format, of "k + 32 - n"] assms by simp
    qed
  next
    assume r: ?R
    then show ?L using r [rule_format, of "k + n - 32" for k] by auto
  qed
  finally show ?thesis .
qed

text \<open>C24: The operand of a register rotated right by a constant is not the rotation but the
  arithmetic shift; the two agree only when the bits rotated out are all equal to the sign.\<close>

theorem ror_operand_is_asr:
  assumes "wf_core p" "\<not> bit ins 25" "\<not> bit ins 4" "get_bits ins 6 5 = 3"
    and "n = unat (get_bits ins 11 7)" "0 < n" "x = rval p (ucast (get_bits ins 3 0))"
  shows "shifter_operand h p ins
    = Some (Some (signed_drop_bit n x, of_c_bool (bit x (n - 1))))
    \<and> (signed_drop_bit n x = word_rotr n x \<longleftrightarrow> (\<forall>k < n. bit x k = bit x 31))"
proof -
  have f: "unat (ucast (get_bits ins 11 7) :: u8) = n"
    by (simp add: small_field assms(5))
  have "n < 32" using get_bits_less [of 7 11 ins] assms(5) by simp
  then show ?thesis using assms(1-4,6,7) f rotr_signed [of n x]
    by (auto simp: shifter_operand_wf operand_spec_def Let_def code_shift_def shift_amount_def)
qed

theorem ror_operand_is_asr_witness:
  "shifter_operand demo_host (set_xreg demo_core 1 1) 0x000000E1 = Some (Some (0, 1))
    \<and> word_rotr 1 (1 :: u32) \<noteq> 0"
proof -
  have "get_bits 0x000000E1 6 5 = 3" "get_bits 0x000000E1 11 7 = 1" "get_bits 0x000000E1 3 0 = 1"
    "\<not> bit (0x000000E1 :: u32) 25" "\<not> bit (0x000000E1 :: u32) 4" "\<not> bit (1 :: u32) 31"
    "signed_drop_bit 1 (1 :: u32) = 0"
    by code_simp+
  then show ?thesis
    using ror_operand_is_asr [of "set_xreg demo_core 1 1" "0x000000E1" 1 1 demo_host]
    by (simp add: rval_set_xreg)
qed

section \<open>The flag functions\<close>

text \<open>C21: The overflow computed from the signs of the operands and of the result is exactly that
  the sum, or the difference, of the signed values is out of range, and the borrow is exact; the
  carry of an addition is exact only when the first operand is at least \<open>2 ^ 28\<close>: below, a carry
  is reported as soon as the sum reaches \<open>2 ^ 28\<close>.\<close>

theorem flags_against_integers:
  "overflow_from ADDITION a b = of_c_bool (sint a + sint b \<notin> signed_range)
    \<and> overflow_from SOUSTRACTION a b = of_c_bool (sint a - sint b \<notin> signed_range)
    \<and> borrow_from a b = of_c_bool (unat a < unat b)
    \<and> carry_from a b = of_c_bool ((if unat a < 2 ^ 28 then 2 ^ 28 else 2 ^ 32) \<le> unat a + unat b)"
  unfolding carry_from_eq overflow_add overflow_sub borrow_from_eq
  by (cases "unat a < 2 ^ 28") simp_all

section \<open>Loads and stores\<close>

text \<open>C8: A load of a word whose address is aligned and inside the memory gives the destination the
  word at the address of the addressing mode: with an offset, pre-indexed or post-indexed (bit 24 clear and
  bit 21 set, the access with the rights of User mode, is excluded: it is refused).  The base register takes the
  indexed address for the last two.  When the destination is the base register it keeps the word
  after an offset or pre-indexed load, and the indexed address after a post-indexed one.  No other register, nor the memory,
  changes.\<close>

theorem ldr_word:
  assumes "wf_core p" "get_bits ins 27 26 = 1" "bit ins 20" "\<not> bit ins 22" "bit ins 24 \<or> \<not> bit ins 21"
    and "offset_spec h p ins = Some offset" "word_ok (core_mem p) (access_address p ins offset)"
    and "rd = ucast (get_bits ins 15 12)" "rn = base_register ins"
  shows "\<exists>q. arm_load_store h p ins = Some (0, q) \<and> wf_core q \<and> core_mem q = core_mem p
    \<and> (\<forall>n \<le> 15. xreg q n =
        (if n = rd \<and> (bit ins 24 \<or> rd \<noteq> rn) then word_at (core_mem p) (access_address p ins offset)
         else if n = rn \<and> (\<not> bit ins 24 \<or> bit ins 21) then indexed_address p ins offset
         else xreg p n))"
proof -
  have "rd \<le> 15" "rn \<le> 15" using assms(8,9) by simp_all
  then show ?thesis
    using assms
    by (cases "bit ins 24"; cases "bit ins 21")
      (auto simp: load_store_word_byte_wf Let_def word_byte_access_def pre_indexed_def)
qed

theorem ldr_word_witness:
  "\<exists>q. arm_load_store demo_host demo_core 0xE4910004 = Some (0, q) \<and> xreg q 0 = 0x00010203
    \<and> xreg q 1 = 4"
proof -
  have f: "get_bits 0xE4910004 27 26 = 1" "get_bits 0xE4910004 15 12 = 0" "get_bits 0xE4910004 11 0 = 4"
    "base_register 0xE4910004 = 1" "bit (0xE4910004 :: u32) 20" "bit (0xE4910004 :: u32) 23"
    "\<not> bit (0xE4910004 :: u32) 21" "\<not> bit (0xE4910004 :: u32) 22" "\<not> bit (0xE4910004 :: u32) 24"
    "\<not> bit (0xE4910004 :: u32) 25" "word_ok demo_memory 0" "word_at demo_memory 0 = 0x00010203"
    by code_simp+
  then have "offset_spec demo_host demo_core 0xE4910004 = Some 4"
    "access_address demo_core 0xE4910004 4 = 0" "indexed_address demo_core 0xE4910004 4 = 4"
    by (simp_all add: offset_spec_def access_address_def indexed_address_def)
  then show ?thesis
    using ldr_word [of demo_core "0xE4910004" demo_host 4 0 1] f by (auto dest: spec [of _ 0] spec [of _ 1])
qed

lemma stored_word: "wf_core p \<Longrightarrow> word_ok (core_mem p) a \<Longrightarrow> word_at (core_mem (set_word p a v)) a = v"
  by (simp add: set_word_def word_at_set_word)

lemma stored_byte:
  "wf_core p \<Longrightarrow> byte_ok (core_mem p) a \<Longrightarrow> mem_data (core_mem (set_byte p a v)) ! unat a = v"
  by (simp add: set_byte_def nth_set_byte)

text \<open>Bit 20, the bit that turns a store into the load of the same encoding.\<close>

lemma load_encoding_fields:
  "get_bits (set_bit_macro ins 20) 27 26 = get_bits ins 27 26"
  "get_bits (set_bit_macro ins 20) 15 12 = get_bits ins 15 12"
  "get_bits (set_bit_macro ins 20) 19 16 = get_bits ins 19 16"
  "get_bits (set_bit_macro ins 20) 11 0 = get_bits ins 11 0"
  "get_bits (set_bit_macro ins 20) 3 0 = get_bits ins 3 0"
  "get_bits (set_bit_macro ins 20) 6 5 = get_bits ins 6 5"
  "get_bits (set_bit_macro ins 20) 11 7 = get_bits ins 11 7"
  by (rule word32_eqI; simp add: upt_32 bit_get_bits bit_set_bit_macro)+

lemma low_byte: "(ucast (ucast (x :: u32) :: u8) :: u32) = x AND 0xff"
  by (rule word32_eqI) (simp add: upt_32 bit_simps)

text \<open>C9: With an offset and no write-back (bit 24 set, bit 21 clear), what a store that succeeds has
  written the load with the same fields, executed in the state the store leaves, reads back: the word, or the low byte
  of the register.  Nothing changes but the destination.\<close>

theorem str_ldr_roundtrip:
  assumes "wf_core p" "get_bits ins 27 26 = 1" "\<not> bit ins 20" "bit ins 24" "\<not> bit ins 21"
    and "arm_load_store h p ins = Some (0, q)"
  shows "arm_load_store h q (set_bit_macro ins 20) = Some (0, set_xreg q (ucast (get_bits ins 15 12))
    (if bit ins 22 then rval p (ucast (get_bits ins 15 12)) AND 0xff
     else rval p (ucast (get_bits ins 15 12))))"
proof -
  let ?i = "set_bit_macro ins 20" and ?v = "rval p (ucast (get_bits ins 15 12))"
  obtain offset where o: "offset_spec h p ins = Some offset"
    using assms(1,2,6) by (cases "offset_spec h p ins") (auto simp: load_store_word_byte_wf)
  let ?a = "access_address p ins offset"
  have q: "q = (if bit ins 22 then set_byte p ?a (ucast ?v) else set_word p ?a ?v)"
    "if bit ins 22 then byte_ok (core_mem p) ?a else word_ok (core_mem p) ?a"
    using assms o
    by (auto simp: load_store_word_byte_wf Let_def word_byte_access_def pre_indexed_def
        split: if_splits prod.splits)
  have regs: "core_regs q = core_regs p" "cpsr q = cpsr p" "rval q n = rval p n" for n
    unfolding q(1) by simp_all
  have "offset_spec h q ?i = Some offset" "access_address q ?i offset = ?a" "wf_core q"
    using o q assms(1)
    by (auto simp: offset_spec_def Let_def load_encoding_fields bit_set_bit_macro regs
        access_address_def indexed_address_def base_register_def)
  then show ?thesis
    using q assms
    by (cases "bit ins 22")
      (simp_all add: load_store_word_byte_wf load_encoding_fields bit_set_bit_macro Let_def
        word_byte_access_def pre_indexed_def stored_word stored_byte low_byte byte_ok_neq)
qed

theorem str_ldr_roundtrip_witness:
  "arm_load_store demo_host (set_word (set_xreg demo_core 0 7) 8 7) 0xE5910008
    = Some (0, set_xreg (set_word (set_xreg demo_core 0 7) 8 7) 0 7)"
proof -
  have f: "get_bits 0xE5810008 27 26 = 1" "get_bits 0xE5810008 15 12 = 0" "get_bits 0xE5810008 11 0 = 8"
    "base_register 0xE5810008 = 1" "\<not> bit (0xE5810008 :: u32) 20" "bit (0xE5810008 :: u32) 23"
    "\<not> bit (0xE5810008 :: u32) 21" "\<not> bit (0xE5810008 :: u32) 22" "bit (0xE5810008 :: u32) 24"
    "\<not> bit (0xE5810008 :: u32) 25" "set_bit_macro 0xE5810008 20 = 0xE5910008" "word_ok demo_memory 8"
    by code_simp+
  have "arm_load_store demo_host (set_xreg demo_core 0 7) 0xE5810008
      = Some (0, set_word (set_xreg demo_core 0 7) 8 7)"
    using f by (simp add: load_store_word_byte_wf offset_spec_def Let_def access_address_def
        indexed_address_def rval_set_xreg word_byte_access_def pre_indexed_def)
  then show ?thesis
    using str_ldr_roundtrip [of "set_xreg demo_core 0 7" "0xE5810008" demo_host] f
    by (simp add: rval_set_xreg)
qed

text \<open>A word access that the memory refuses is a data abort: neither the memory nor the
  destination change, but a pre-indexed base register has already been written.\<close>

lemma refused_word_access:
  assumes "wf_core p" "get_bits ins 27 26 = 1" "\<not> bit ins 22" "offset_spec h p ins = Some offset"
    and "\<not> word_ok (core_mem p) (access_address p ins offset)"
  shows "arm_load_store h p ins = Some (DATA_ABORT, if bit ins 24 \<and> bit ins 21
    then set_xreg p (base_register ins) (access_address p ins offset) else p)"
  using assms
  by (auto simp: load_store_word_byte_wf Let_def word_byte_access_def pre_indexed_def access_address_def)

text \<open>C10: For lists without r15, without write-back and without the bit S (bits 15, 21 and 22 clear), a load
  multiple with the list and addressing mode of a store multiple that succeeded gives each listed register the
  value it had when it was stored, and changes no other of the registers r0 to r14, in any state with the memory the
  store left and the same base address.\<close>

theorem ldm_restores_stm:
  assumes "wf_core p" "\<not> bit ins 20" "\<not> bit ins 22" "\<not> bit ins 21" "\<not> bit ins 15"
    and "arm_load_store_multiple p ins = Some (0, q)"
    and "wf_core q'" "core_mem q' = core_mem q"
    and "rval q' (base_register ins) = rval p (base_register ins)"
  shows "\<exists>r. arm_load_store_multiple q' (set_bit_macro ins 20) = Some (0, r) \<and> wf_core r
    \<and> core_mem r = core_mem q \<and> (\<forall>n \<le> 14. xreg r (word_of_nat n) =
        (if bit ins n then xreg p (word_of_nat n) else xreg q' (word_of_nat n)))"
  using assms by (rule stm_ldm_roundtrip)

text \<open>Only the listed registers count.\<close>

lemma stm_loop_listed: "stm_loop l step rs p a = stm_loop l step (listed l rs) p a"
  by (induction rs arbitrary: p a) (simp_all cong: if_cong prod.case_cong)

lemma ldm_loop_listed: "ldm_loop l step rs p a = ldm_loop l step (listed l rs) p a"
proof (induction rs arbitrary: p a)
  case (Cons r rs)
  have "ldm_loop l step rs = ldm_loop l step (listed l rs)" by (intro ext Cons)
  then show ?case by simp
qed simp

lemma short_lists:
  "listed 1 [0..<16] = [0]" "listed 3 [0..<16] = [0, 1]" "listed 3 [0..<15] = [0, 1]"
  by code_simp+

theorem ldm_restores_stm_witness:
  "\<exists>r. arm_load_store_multiple (set_xreg (set_word (set_xreg demo_core 0 7) 0 7) 0 1) 0xE8910001 = Some (0, r)
    \<and> xreg r 0 = 7"
proof -
  let ?p = "set_xreg demo_core 0 7"
  have f: "get_bits 0xE8810001 15 0 = 1" "base_register 0xE8810001 = 1" "bit (0xE8810001 :: u32) 23"
    "\<not> bit (0xE8810001 :: u32) 20" "\<not> bit (0xE8810001 :: u32) 21" "\<not> bit (0xE8810001 :: u32) 22"
    "\<not> bit (0xE8810001 :: u32) 24" "\<not> bit (0xE8810001 :: u32) 15" "bit (0xE8810001 :: u32) 0"
    "set_bit_macro 0xE8810001 20 = 0xE8910001" "word_ok demo_memory 0"
    by code_simp+
  have "stm_loop 1 4 [0..<16] ?p 0 = Some (0, set_word ?p 0 7, 4)"
    unfolding stm_loop_listed [of _ _ "[0..<16]"] short_lists
    using f by (simp add: core_simps rval_set_xreg)
  then have "arm_load_store_multiple ?p 0xE8810001 = Some (0, set_word ?p 0 7)"
    using f arm_load_store_multiple_wf [of ?p "0xE8810001" 0 "set_word ?p 0 7" 4]
    by (simp add: list_step_def list_start_def list_back_def rval_set_xreg)
  then show ?thesis
    using ldm_restores_stm [of ?p "0xE8810001" "set_word ?p 0 7" "set_xreg (set_word ?p 0 7) 0 1"] f
    by (force simp: rval_set_xreg)
qed

text \<open>
  A descending store multiple followed by an ascending load multiple, the push and pop of two
  registers: with the lowest register at the highest address.
\<close>

lemma stmdb_push:
  assumes "wf_core p" "s = xreg p 13" "word_ok (core_mem p) (s - 4)" "word_ok (core_mem p) (s - 8)"
  shows "arm_load_store_multiple p 0xE92D0003 = Some (0,
    set_xreg (set_word (set_word p (s - 4) (xreg p 0)) (s - 8) (xreg p 1)) 13 (s - 8))"
proof -
  have f: "get_bits 0xE92D0003 15 0 = 3" "base_register 0xE92D0003 = 13" "\<not> bit (0xE92D0003 :: u32) 23"
    "\<not> bit (0xE92D0003 :: u32) 20" "bit (0xE92D0003 :: u32) 21" "\<not> bit (0xE92D0003 :: u32) 22"
    "bit (0xE92D0003 :: u32) 24" "bit (3 :: u32) 0" "bit (3 :: u32) 1"
    by code_simp+
  let ?q = "set_word (set_word p (s - 4) (xreg p 0)) (s - 8) (xreg p 1)"
  have "stm_loop 3 (-4) [0..<16] p (s - 4) = Some (0, ?q, s - 12)"
    unfolding stm_loop_listed [of _ _ "[0..<16]"] short_lists
    using assms f by (simp add: core_simps rval_def)
  then show ?thesis
    using f assms arm_load_store_multiple_wf [of p "0xE92D0003" 0 ?q "s - 12"]
    by (simp add: list_step_def list_start_def list_back_def rval_def)
qed

lemma ldmia_pop:
  assumes "wf_core p" "s = xreg p 13" "word_ok (core_mem p) s" "word_ok (core_mem p) (s + 4)"
  shows "arm_load_store_multiple p 0xE8BD0003 = Some (0, set_xreg (set_xreg (set_xreg p
    0 (word_at (core_mem p) s)) 1 (word_at (core_mem p) (s + 4))) 13 (s + 8))"
proof -
  have f: "get_bits 0xE8BD0003 15 0 = 3" "base_register 0xE8BD0003 = 13" "bit (0xE8BD0003 :: u32) 23"
    "bit (0xE8BD0003 :: u32) 20" "bit (0xE8BD0003 :: u32) 21" "\<not> bit (0xE8BD0003 :: u32) 22"
    "\<not> bit (0xE8BD0003 :: u32) 24" "bit (3 :: u32) 0" "bit (3 :: u32) 1" "\<not> bit (3 :: u32) 15"
    by code_simp+
  let ?q = "set_xreg (set_xreg p 0 (word_at (core_mem p) s)) 1 (word_at (core_mem p) (s + 4))"
  have "ldm 3 4 p s = Some (0, ?q, s + 8)"
    unfolding ldm_def ldm_loop_listed [of _ _ "[0..<15]"] short_lists
    using assms f by (simp add: core_simps ldm_pc_def)
  then show ?thesis
    using f assms arm_load_store_multiple_wf [of p "0xE8BD0003" 0 ?q "s + 8"]
    by (simp add: list_step_def list_start_def list_back_def rval_def)
qed

text \<open>C23: The push \<open>STMDB sp!, {r0, r1}\<close> and the pop \<open>LDMIA sp!, {r0, r1}\<close> do not undo each
  other: the descending store puts the lowest register at the highest address, so the pop
  exchanges the two registers; the stack pointer is back where it was.\<close>

theorem push_pop_swaps:
  assumes "wf_core p" "s = xreg p 13" "word_ok (core_mem p) (s - 4)" "word_ok (core_mem p) (s - 8)"
    and "arm_load_store_multiple p 0xE92D0003 = Some (c, q)"
  shows "c = 0 \<and> (\<exists>r. arm_load_store_multiple q 0xE8BD0003 = Some (0, r)
    \<and> xreg r 0 = xreg p 1 \<and> xreg r 1 = xreg p 0 \<and> xreg r 13 = s)"
proof -
  let ?p1 = "set_word p (s - 4) (xreg p 0)"
  let ?p2 = "set_word ?p1 (s - 8) (xreg p 1)"
  have q: "c = 0" "q = set_xreg ?p2 13 (s - 8)"
    using stmdb_push [OF assms(1-4)] assms(5) by auto
  have wf: "wf_core ?p1" "wf_core ?p2" "wf_core q" using assms q(2) by simp_all
  have "word_at (core_mem ?p2) (s - 8) = xreg p 1"
    using assms wf by (simp add: stored_word)
  moreover have "word_at (core_mem ?p2) (s - 4) = word_at (core_mem ?p1) (s - 4)"
    using word_at_set_other [of "core_mem ?p1" "s - 8" "s - 4"] assms wf
    by (simp add: set_word_def)
  then have "word_at (core_mem ?p2) (s - 4) = xreg p 0"
    using assms by (simp add: stored_word)
  ultimately show ?thesis
    using ldmia_pop [OF wf(3), of "s - 8"] assms wf q by simp
qed

theorem push_pop_swaps_witness:
  "\<exists>q r. arm_load_store_multiple (set_xreg (set_xreg demo_core 13 8) 0 7) 0xE92D0003 = Some (0, q)
    \<and> arm_load_store_multiple q 0xE8BD0003 = Some (0, r) \<and> xreg r 0 = 0 \<and> xreg r 1 = 7"
proof -
  let ?p = "set_xreg (set_xreg demo_core 13 8) 0 7"
  have w: "word_ok demo_memory 0" by code_simp
  obtain q where "arm_load_store_multiple ?p 0xE92D0003 = Some (0, q)"
    using stmdb_push [of ?p 8] w by auto
  then show ?thesis using push_pop_swaps [of ?p 8 0 q] w by auto
qed

section \<open>Steps\<close>

lemma aligned_fetch:
  "word_ok (core_mem p) (xreg p 15) \<Longrightarrow> fetch_address p = xreg p 15"
  by (simp add: fetch_address_aligned word_ok_def)

text \<open>The step at a word that is fetched and passes its condition.\<close>

lemma arm_step_at:
  assumes "wf_core p" "word_ok (core_mem p) (xreg p 15)" "ins = word_at (core_mem p) (xreg p 15)"
    and "instruction_passes p ins"
    and "arm_decode h 0 (fetched p) ins = Some x" "\<And>r q. x = Return r q \<Longrightarrow> r \<in> step_codes"
  shows "arm_step h junk p = Some x"
  using assms arm_exception_step_codes
  by (cases x) (auto simp: arm_step_def arm_execute_instruction_wf Let_def current_instruction_def
      fetch_code_def aligned_fetch)

text \<open>C11: A taken branch at address \<open>a\<close> continues at \<open>a + 8\<close> plus four times the signed 24-bit field
  of the instruction, and leaves \<open>a + 4\<close> in r14 when its link bit is set; no other register changes, nor the memory or the CPSR.\<close>

theorem branch_step:
  assumes "wf_core p" "a = xreg p 15" "word_ok (core_mem p) a" "ins = word_at (core_mem p) a"
    and "instruction_passes p ins" "get_bits ins 27 25 = 5"
  shows "\<exists>q. arm_step h junk p = Some (Return 0 q)
    \<and> xreg q 15 = a + 8 + push_bit 2 (scast (ucast ins :: 24 word))
    \<and> xreg q 14 = (if bit ins 24 then a + 4 else xreg p 14)
    \<and> (\<forall>n \<le> 13. xreg q n = xreg p n) \<and> core_mem q = core_mem p \<and> cpsr q = cpsr p"
proof -
  have r: "rval (fetched p) 15 = a + 8"
    using assms(1-3) by (subst rval_pc) (simp_all add: aligned_fetch word_ok_def aligned_add_4)
  let ?q = "set_xreg (if bit ins 24 then set_xreg (fetched p) 14 (4 + a) else fetched p) 15
    (a + 8 + push_bit 2 (scast (ucast ins :: 24 word)))"
  have d: "arm_decode h 0 (fetched p) ins = Some (Return 0 ?q)"
    using assms(1,6) r by (simp add: arm_decode_def returned_def arm_branch_wf)
  have "arm_step h junk p = Some (Return 0 ?q)"
    by (rule arm_step_at [OF assms(1) _ _ assms(5) d]) (use assms(2-4) in \<open>auto simp: step_codes_def\<close>)
  then show ?thesis using assms(1) by (auto simp: word_le_nat_alt)
qed

theorem branch_step_witness:
  "\<exists>q. arm_step demo_host 0 (set_word demo_core 0 0xEBFFFFFE) = Some (Return 0 q)
    \<and> xreg q 15 = 0 \<and> xreg q 14 = 4"
proof -
  have "word_ok demo_memory 0" "get_bits 0xEBFFFFFE 27 25 = 5" "bit (0xEBFFFFFE :: u32) 24"
    "push_bit 2 (scast (ucast (0xEBFFFFFE :: u32) :: 24 word)) = (-8 :: u32)"
    "condition_holds (drop_bit 28 0xEBFFFFFE) False False False False"
    by code_simp+
  then show ?thesis
    using branch_step [of "set_word demo_core 0 0xEBFFFFFE" 0 "0xEBFFFFFE" demo_host 0]
    by (auto simp: stored_word instruction_passes_def)
qed

text \<open>An instruction whose condition fails only advances the program counter and counts a cycle.\<close>

lemma failed_condition_step:
  assumes "wf_core p" "a = xreg p 15" "word_ok (core_mem p) a"
    and "\<not> instruction_passes p (word_at (core_mem p) a)"
  shows "\<exists>q. arm_step h junk p = Some (Return 0 q) \<and> xreg q 15 = a + 4
    \<and> (\<forall>n \<le> 14. xreg q n = xreg p n) \<and> core_mem q = core_mem p \<and> cpsr q = cpsr p
    \<and> cycle_count q = cycle_count p + 1"
proof -
  have "arm_step h junk p = Some (Return 0 (fetched p))"
    using assms by (simp add: arm_step_def arm_execute_instruction_wf Let_def current_instruction_def
      fetch_code_def aligned_fetch)
  then show ?thesis using assms by (auto simp: aligned_fetch word_le_nat_alt)
qed

text \<open>C1: A step of a well-formed core is undefined exactly when the instruction is a byte access at
  the address that is the size of the memory.  Otherwise it ends the simulation or returns one of
  five codes with a core that is well formed, one cycle further, with a memory of the same size
  and byte order.\<close>

theorem step_outcomes:
  assumes "wf_core p"
  shows "if stray_step h junk p then arm_step h junk p = None
    else arm_step h junk p = Some (Exit 0) \<or> (\<exists>r q. arm_step h junk p = Some (Return r q)
      \<and> r \<in> {0, -1, UNDEFINED_INSTRUCTION, SOFTWARE_INTERRUPT, DATA_ABORT}
      \<and> wf_core q \<and> cycle_count q = cycle_count p + 1
      \<and> mem_size (core_mem q) = mem_size (core_mem p)
      \<and> is_big_endian_type (core_mem q) = is_big_endian_type (core_mem p))"
proof (cases "stray_step h junk p")
  case True
  then show ?thesis using assms by (simp add: arm_step_stray)
next
  case False
  then show ?thesis using arm_step_outcome(1) [OF assms False]
    by (auto simp: good_outcome_def step_codes_def keeps_machine_def)
qed

theorem step_outcomes_witness:
  "\<exists>r q. arm_step demo_host 0 demo_core = Some (Return r q) \<and> wf_core q \<and> cycle_count q = 1"
proof -
  have d: "word_ok demo_memory 0" "word_at demo_memory 0 = 0x00010203" "\<not> bit (0x1D3 :: u32) 30"
    "\<not> condition_holds (drop_bit 28 0x00010203) False False False False"
    by code_simp+
  then have c: "current_instruction 0 demo_core = 0x00010203" "\<not> instruction_passes demo_core 0x00010203"
    by (simp_all add: current_instruction_def aligned_fetch instruction_passes_def)
  then have "\<not> stray_step demo_host 0 demo_core" by (simp add: stray_step_def)
  moreover have "arm_step demo_host 0 demo_core \<noteq> Some (Exit 0)"
    using c d by (simp add: arm_step_def arm_execute_instruction_wf fetch_code_def aligned_fetch)
  ultimately show ?thesis using step_outcomes [of demo_core demo_host 0] by auto
qed

text \<open>C2: No sequence of steps leaves User mode, whatever the memory holds and whatever indeterminate
  words are executed where a fetch is refused.\<close>

theorem user_mode_confined:
  assumes "wf_core p" "mode p = USR" "for_each (machine_step h) junks p = Some q"
  shows "wf_core q \<and> mode q = USR \<and> mem_size (core_mem q) = mem_size (core_mem p)"
  using user_machine.run_inv [of p h junks q]
    sized_machine.run_inv [of p "mem_size (core_mem p)" "is_big_endian_type (core_mem p)" h junks q]
    assms by blast

theorem user_mode_confined_witness:
  "\<exists>q. for_each (machine_step demo_host) [0] demo_user_core = Some q \<and> mode q = USR"
proof -
  have "word_ok demo_memory 0" "word_at demo_memory 0 = 0x00010203" "\<not> bit (0x10 :: u32) 30"
    "\<not> condition_holds (drop_bit 28 0x00010203) False False False False"
    "core_mem demo_user_core = demo_memory" "xreg demo_user_core 15 = 0" "cpsr demo_user_core = 0x10"
    by code_simp+
  then have "for_each (machine_step demo_host) [0] demo_user_core = Some (fetched demo_user_core)"
    by (simp add: machine_step_def arm_step_def arm_execute_instruction_wf current_instruction_def
      fetch_code_def aligned_fetch instruction_passes_def)
  then show ?thesis using user_mode_confined [of demo_user_core demo_host "[0]"] by auto
qed

text \<open>The fields that select the handler, as bits of the instruction.\<close>

lemma get_bits_eq_iff:
  "get_bits ins h l = c \<longleftrightarrow> (\<forall>n \<in> set [0..<32]. bit (get_bits ins h l) n = bit c n)"
  using word32_eqI by blast

lemma class_bits:
  "get_bits ins 27 25 = 0 \<longleftrightarrow> \<not> bit ins 27 \<and> \<not> bit ins 26 \<and> \<not> bit ins 25"
  "get_bits ins 27 25 = 2 \<longleftrightarrow> \<not> bit ins 27 \<and> bit ins 26 \<and> \<not> bit ins 25"
  "get_bits ins 27 25 = 3 \<longleftrightarrow> \<not> bit ins 27 \<and> bit ins 26 \<and> bit ins 25"
  "get_bits ins 27 25 = 4 \<longleftrightarrow> bit ins 27 \<and> \<not> bit ins 26 \<and> \<not> bit ins 25"
  "get_bits ins 27 25 = 5 \<longleftrightarrow> bit ins 27 \<and> \<not> bit ins 26 \<and> bit ins 25"
  "get_bits ins 27 25 = 6 \<longleftrightarrow> bit ins 27 \<and> bit ins 26 \<and> \<not> bit ins 25"
  "get_bits ins 27 26 = 0 \<longleftrightarrow> \<not> bit ins 27 \<and> \<not> bit ins 26"
  "get_bits ins 27 24 = 0xE \<longleftrightarrow> bit ins 27 \<and> bit ins 26 \<and> bit ins 25 \<and> \<not> bit ins 24"
  "get_bits ins 27 24 = 0xF \<longleftrightarrow> bit ins 27 \<and> bit ins 26 \<and> bit ins 25 \<and> bit ins 24"
  "get_bits ins 27 23 = 2 \<longleftrightarrow>
    \<not> bit ins 27 \<and> \<not> bit ins 26 \<and> \<not> bit ins 25 \<and> bit ins 24 \<and> \<not> bit ins 23"
  unfolding get_bits_eq_iff by (auto simp: upt_32 bit_get_bits)

text \<open>A software interrupt either ends the simulation with status 0, for the number
  \<open>0x123456\<close>, or is only reported to the caller: the core is the fetched one, no exception mode is
  entered, r14 and the CPSR keep their values.\<close>

lemma swi_step:
  assumes "wf_core p" "a = xreg p 15" "word_ok (core_mem p) a" "ins = word_at (core_mem p) a"
    and "instruction_passes p ins" "get_bits ins 27 24 = 0xF"
  shows "if ins AND 0xFFFFFF = 0x123456 then arm_step h junk p = Some (Exit 0)
    else \<exists>q. arm_step h junk p = Some (Return SOFTWARE_INTERRUPT q) \<and> xreg q 15 = a + 4
      \<and> (\<forall>n \<le> 14. xreg q n = xreg p n) \<and> mode q = mode p \<and> cpsr q = cpsr p \<and> core_mem q = core_mem p"
proof -
  have b: "bit ins 27" "bit ins 26" "bit ins 25" "bit ins 24"
    using assms(6) by (simp_all add: class_bits)
  have d: "arm_decode h 0 (fetched p) ins = Some (if ins AND 0xFFFFFF = 0x123456 then Exit 0
      else Return SOFTWARE_INTERRUPT (fetched p))"
    using b by (simp add: arm_decode_def class_bits arm_coprocessor_others_swi_def get_bit_eq)
  have "arm_step h junk p = Some (if ins AND 0xFFFFFF = 0x123456 then Exit 0
      else Return SOFTWARE_INTERRUPT (fetched p))"
    by (rule arm_step_at [OF assms(1) _ _ assms(5) d])
      (use assms(2-4) in \<open>auto simp: step_codes_def split: if_splits\<close>)
  then show ?thesis using assms(1-3) by (auto simp: aligned_fetch word_le_nat_alt)
qed

text \<open>Coprocessor instructions other than SWI and undefined register-offset encodings (bits 27
  to 25 equal to 3 with bit 4 set) are no operations: the step reports success.\<close>

lemma unimplemented_step:
  assumes "wf_core p" "a = xreg p 15" "word_ok (core_mem p) a" "ins = word_at (core_mem p) a"
    and "instruction_passes p ins"
    and "get_bits ins 27 25 = 6 \<or> get_bits ins 27 24 = 0xE \<or> get_bits ins 27 25 = 3 \<and> bit ins 4"
  shows "\<exists>q. arm_step h junk p = Some (Return 0 q) \<and> xreg q 15 = a + 4
      \<and> (\<forall>n \<le> 14. xreg q n = xreg p n) \<and> cpsr q = cpsr p \<and> core_mem q = core_mem p"
proof -
  have d: "arm_decode h 0 (fetched p) ins = Some (Return 0 (fetched p))"
    using assms(6) by (auto simp: arm_decode_def class_bits get_bit_eq)
  have "arm_step h junk p = Some (Return 0 (fetched p))"
    by (rule arm_step_at [OF assms(1) _ _ assms(5) d]) (use assms(2-4) in \<open>auto simp: step_codes_def\<close>)
  then show ?thesis using assms(1-3) by (auto simp: aligned_fetch word_le_nat_alt)
qed

text \<open>C22: Where the memory refuses the fetch the step is not a prefetch abort: the indeterminate word
  left in the local variable is executed, so that with the word of \<open>MOV r0, #1\<close> the step sets r0
  and reports success.\<close>

theorem refused_fetch_executes:
  assumes "wf_core p" "\<not> word_ok (core_mem p) (fetch_address p)"
  shows "\<exists>q. arm_step h 0xE3A00001 p = Some (Return 0 q) \<and> xreg q 0 = 1
    \<and> (\<forall>n. 0 < n \<longrightarrow> n \<le> 14 \<longrightarrow> xreg q n = xreg p n)"
proof -
  let ?i = "0xE3A00001 :: u32"
  have b: "get_bits ?i 24 21 = 0xd" "get_bits ?i 15 12 = 0" "get_bits ?i 11 8 = 0" "\<not> bit ?i 20"
    "bit ?i 25" "\<not> bit ?i 27" "\<not> bit ?i 26" "bit ?i 24" "bit ?i 23"
    "word_rotr 0 (?i AND 0xff) = 1" "drop_bit 28 ?i = 14"
    by code_simp+
  then have "operand_spec (fetched p) ?i = Some (1, bit (cpsr p) 29)"
    by (simp add: operand_spec_def Let_def)
  then have "arm_decode h (-1) (fetched p) ?i = Some (Return 0 (set_xreg (fetched p) 0 1))"
    using b assms(1)
    by (simp add: arm_decode_def class_bits get_bit_eq returned_def arm_data_processing_shift_wf
        dp_exec_def dp_write_def Let_def alu_result_def)
  moreover have "instruction_passes p ?i"
    using b by (simp add: instruction_passes_def condition_holds_def Let_def)
  ultimately have "arm_step h ?i p = Some (Return 0 (set_xreg (fetched p) 0 1))"
    using assms by (simp add: arm_step_def arm_execute_instruction_wf current_instruction_def fetch_code_def)
  then show ?thesis using assms(1) by (auto simp: word_le_nat_alt)
qed

theorem refused_fetch_executes_witness:
  "\<exists>q. arm_step demo_host 0xE3A00001 (set_xreg demo_core 15 16) = Some (Return 0 q) \<and> xreg q 0 = 1"
proof -
  have "\<not> word_ok demo_memory 16" "4 dvd (16 :: nat)" by code_simp+
  then show ?thesis
    using refused_fetch_executes [of "set_xreg demo_core 15 16" demo_host]
    by (auto simp: fetch_address_aligned)
qed

end
