(* ===== verification/Gdb.thy ===== *)
theory Gdb
  imports Instruction
begin

text \<open>
  \<open>gdb_protocol.c\<close>: the gdb server.  Received packets are checked and dispatched to one handler
  per command; a handler acts on the core and builds its answer in a packet buffer of
  \<open>MAX_PACKET_SIZE\<close> bytes, which is sent between \<open>$\<close> and the checksum.

  Bytes are \<open>u8\<close> values and a C string is a list of bytes that is read up to its first 0.  A
  write outside the packet buffer is undefined (\<open>None\<close>), and so is a read past the bytes that
  were received.  The function \<open>junk\<close> gives the content of the variables the code reads before
  it has written them: \<open>sscanf\<close> leaves its arguments as they are where the input does not
  match, and so does a refused memory access.  The memory of the server is the memory of its
  core: \<open>main\<close> passes the same pointer to both.  The tracing switches and the lock are not part
  of the state.
\<close>

section \<open>Bytes and strings\<close>

definition ascii :: "string \<Rightarrow> u8 list" where
  "ascii s = map of_char s"

text \<open>The string at a pointer: the bytes before the first 0, which must exist.\<close>

definition c_string :: "u8 list \<Rightarrow> u8 list option" where
  "c_string bs = (if 0 \<in> set bs then Some (takeWhile (\<lambda>b. b \<noteq> 0) bs) else None)"

text \<open>\<open>sprintf\<close> and \<open>strcpy\<close>: the bytes and their terminating 0 are stored from \<open>i\<close> on.\<close>

definition poke :: "u8 list \<Rightarrow> nat \<Rightarrow> u8 list \<Rightarrow> u8 list option" where
  "poke arr i bs = (if i + length bs < length arr
     then Some (take i arr @ bs @ [0] @ drop (i + length bs + 1) arr) else None)"

definition hex_digit :: "u8 \<Rightarrow> u8" where
  "hex_digit d = (if d < 10 then d + 0x30 else d + 0x57)"

text \<open>The conversion \<open>%02x\<close> of a byte.\<close>

definition hex2 :: "u8 \<Rightarrow> u8 list" where
  "hex2 b = [hex_digit (drop_bit 4 b), hex_digit (b AND 0xf)]"

definition hex_value :: "u8 \<Rightarrow> nat option" where
  "hex_value c = (if 0x30 \<le> c \<and> c \<le> 0x39 then Some (unat c - 0x30)
     else if 0x61 \<le> c \<and> c \<le> 0x66 then Some (unat c - 0x57)
     else if 0x41 \<le> c \<and> c \<le> 0x46 then Some (unat c - 0x37)
     else None)"

definition is_space :: "u8 \<Rightarrow> bool" where
  "is_space c \<longleftrightarrow> c = 0x20 \<or> 0x09 \<le> c \<and> c \<le> 0x0d"

text \<open>
  The conversion \<open>%x\<close> of \<open>sscanf\<close>: white space is skipped, then at most \<open>w\<close> characters are an
  optional sign, an optional \<open>0x\<close> and at least one digit.  The result is the value and the rest
  of the input, or \<open>None\<close> on a matching failure.  The number is converted as an unsigned integer of 64 bits, where
  a larger one is the largest, and its low 32 bits are stored.  \<open>hex_number\<close> reads the digits.
\<close>

fun hex_number :: "u8 list \<Rightarrow> nat \<Rightarrow> nat \<times> u8 list" where
  "hex_number [] n = (n, [])"
| "hex_number (c # cs) n =
     (case hex_value c of None \<Rightarrow> (n, c # cs) | Some d \<Rightarrow> hex_number cs (16 * n + d))"

definition scan_sign :: "u8 list \<Rightarrow> bool \<times> u8 list" where
  "scan_sign cs = (case cs of [] \<Rightarrow> (False, [])
     | c # cs' \<Rightarrow> if c = 0x2d then (True, cs') else if c = 0x2b then (False, cs') else (False, cs))"

definition scan_prefix :: "u8 list \<Rightarrow> u8 list" where
  "scan_prefix cs = (case cs of c # d # cs' \<Rightarrow>
     if c = 0x30 \<and> (d = 0x78 \<or> d = 0x58) then cs' else cs | _ \<Rightarrow> cs)"

definition scan_hex :: "nat \<Rightarrow> u8 list \<Rightarrow> (u32 \<times> u8 list) option" where
  "scan_hex w s =
     (let s = dropWhile is_space s;
          (negative, cs) = scan_sign (take w s);
          cs = scan_prefix cs;
          (n, rest) = hex_number cs 0
      in if cs = rest then None
         else Some (if 2 ^ 64 \<le> n then - 1 else if negative then - word_of_nat n else word_of_nat n,
           rest @ drop w s))"

text \<open>\<open>atoi\<close>.\<close>

definition dec_value :: "u8 \<Rightarrow> nat option" where
  "dec_value c = (if 0x30 \<le> c \<and> c \<le> 0x39 then Some (unat c - 0x30) else None)"

fun dec_number :: "u8 list \<Rightarrow> int \<Rightarrow> int" where
  "dec_number [] n = n"
| "dec_number (c # cs) n =
     (case dec_value c of None \<Rightarrow> n | Some d \<Rightarrow> dec_number cs (10 * n + int d))"

definition atoi :: "u8 list \<Rightarrow> int option" where
  "atoi s = (let (negative, cs) = scan_sign (dropWhile is_space s); n = dec_number cs 0;
       v = (if negative then - n else n)
     in if - (2 ^ 31) \<le> v \<and> v < 2 ^ 31 then Some v else None)"

section \<open>Words as strings of hexadecimal bytes\<close>

text \<open>The build defines \<open>BIG_ENDIAN_SIMULATOR\<close>.\<close>

definition target_big_endian :: bool where
  "target_big_endian = True"

text \<open>
  The union: \<open>bytes\<close> in the order of their addresses, \<open>integer\<close> the word the host sees there.
\<close>

definition be_word :: "u8 list \<Rightarrow> u32" where
  "be_word bytes = foldl (\<lambda>w b. push_bit 8 w OR ucast b) 0 bytes"

definition union_integer :: "host \<Rightarrow> u8 list \<Rightarrow> u32" where
  "union_integer h bytes = be_word (if is_big_endian h then bytes else rev bytes)"

definition union_bytes :: "host \<Rightarrow> u32 \<Rightarrow> u8 list" where
  "union_bytes h value = word_bytes (is_big_endian h) value"

text \<open>The bytes in the order of the loop, which starts at index 0 or at index 3.\<close>

definition loop_order :: "host \<Rightarrow> u8 list \<Rightarrow> u8 list" where
  "loop_order h bytes = (if is_big_endian h = target_big_endian then bytes else rev bytes)"

text \<open>
  The loop of \<open>read_uint32\<close>: \<open>value\<close> keeps its content where two characters are no number.
\<close>

fun read_bytes :: "nat \<Rightarrow> u8 list \<Rightarrow> u32 \<Rightarrow> u8 list option" where
  "read_bytes 0 data value = Some []"
| "read_bytes (Suc n) data value = do {
     s \<leftarrow> c_string data;
     let value = (case scan_hex 2 s of Some (v, _) \<Rightarrow> v | None \<Rightarrow> value);
     bytes \<leftarrow> read_bytes n (drop 2 data) value;
     Some (ucast value # bytes)
   }"

definition read_uint32 :: "host \<Rightarrow> u32 \<Rightarrow> u8 list \<Rightarrow> u32 option" where
  "read_uint32 h junk data = do {
     bytes \<leftarrow> read_bytes 4 data junk;
     Some (union_integer h (loop_order h bytes))
   }"

fun write_bytes :: "u8 list \<Rightarrow> nat \<Rightarrow> u8 list \<Rightarrow> u8 list option" where
  "write_bytes arr i [] = aset arr i 0"
| "write_bytes arr i (b # bs) = do { arr \<leftarrow> poke arr i (hex2 b); write_bytes arr (i + 2) bs }"

definition write_uint32 :: "host \<Rightarrow> u8 list \<Rightarrow> nat \<Rightarrow> u32 \<Rightarrow> u8 list option" where
  "write_uint32 h arr i value = write_bytes arr i (loop_order h (union_bytes h value))"

section \<open>The server and its answers\<close>

text \<open>
  \<open>sent\<close> is what the server has written to its socket, one element per call of \<open>Rio_writen\<close> that
  succeeded.  \<open>writes_left\<close> is the number of calls that still succeed: the next one fails, because the client is gone
  or because the writing side has been shut down, and ends the process, in \<open>unix_error\<close> or by the signal of the
  broken connection.  The number is not known in advance: like the success of an allocation it is an argument.
\<close>

record gdb_data =
  arm :: arm_core
  target_exception :: int
  packet :: "u8 list"
  gdb_len :: nat
  sent :: "u8 list list"
  writes_left :: nat

text \<open>
  What a handler does: return, end the process with \<open>exit\<close>, a failed \<open>assert\<close> or a failed write, or not come to
  an end within the fuel of the model.  \<open>after_service\<close> is what follows a call in a handler.
\<close>

datatype service = Served gdb_data | Exited int | Aborted | Write_failed | Out_of_fuel

definition after_service :: "service \<Rightarrow> (gdb_data \<Rightarrow> service option) \<Rightarrow> service option" where
  "after_service x f = (case x of Served g \<Rightarrow> f g | _ \<Rightarrow> Some x)"

definition rio_writen :: "gdb_data \<Rightarrow> u8 list \<Rightarrow> service" where
  "rio_writen g bs = (if writes_left g = 0 then Write_failed
     else Served (g\<lparr>sent := sent g @ [bs], writes_left := writes_left g - 1\<rparr>))"

definition gdb_send_ack :: "gdb_data \<Rightarrow> service" where
  "gdb_send_ack g = rio_writen g (ascii ''+'')"

definition gdb_require_retransmission :: "gdb_data \<Rightarrow> service" where
  "gdb_require_retransmission g = rio_writen g (ascii ''-'')"

definition gdb_transmit_packet :: "gdb_data \<Rightarrow> service option" where
  "gdb_transmit_packet g = (if gdb_len g \<le> length (packet g)
     then Some (rio_writen g (take (gdb_len g) (packet g))) else None)"

definition gdb_send_buffer :: "gdb_data \<Rightarrow> service option" where
  "gdb_send_buffer g = do {
     arr \<leftarrow> aset (packet g) 0 0x24;
     s \<leftarrow> c_string (drop 1 arr);
     let check = sum_list s;
     let i = 1 + length s;
     arr \<leftarrow> aset arr i 0x23;
     let i = i + 1;
     arr \<leftarrow> poke arr i (hex2 check);
     let i = i + 2;
     arr \<leftarrow> aset arr i 0;
     gdb_transmit_packet (g\<lparr>packet := arr, gdb_len := i\<rparr>)
   }"

definition gdb_send_data :: "gdb_data \<Rightarrow> u8 list \<Rightarrow> service option" where
  "gdb_send_data g data = do {
     arr \<leftarrow> poke (packet g) 1 data;
     gdb_send_buffer (g\<lparr>packet := arr\<rparr>)
   }"

definition gdb_send_stop_reason :: "gdb_data \<Rightarrow> service option" where
  "gdb_send_stop_reason g =
     (if target_exception g = UNDEFINED_INSTRUCTION then gdb_send_data g (ascii ''S04'')
      else if target_exception g = PREFETCH_ABORT \<or> target_exception g = DATA_ABORT then
        gdb_send_data g (ascii ''S10'')
      else gdb_send_data g (ascii ''S05''))"

section \<open>The commands\<close>

text \<open>
  The loop of \<open>cont\<close>: one unit of fuel per instruction.  \<open>instruction\<close> keeps its content when
  the read is refused; the opcode of a refused fetch is \<open>junk\<close> of the remaining fuel.
\<close>

datatype cont_end = Stopped arm_core int | Cont_exit int | Cont_fuel

fun cont_loop :: "host \<Rightarrow> (nat \<Rightarrow> u32) \<Rightarrow> nat \<Rightarrow> u32 \<Rightarrow> arm_core \<Rightarrow> int \<Rightarrow> cont_end option" where
  "cont_loop h junk 0 instruction p exception = Some Cont_fuel"
| "cont_loop h junk (Suc fuel) instruction p exception = do {
     pc \<leftarrow> arm_read_register p 15;
     let r15 = pc - 4;
     access \<leftarrow> arm_read_word p r15;
     let instruction = (case access of Granted value \<Rightarrow> value | Denied \<Rightarrow> instruction);
     if instruction AND 0xFFF000F0 = 0xE7F000F0 then Some (Stopped p exception)
     else do {
       outcome \<leftarrow> arm_step h (junk fuel) p;
       case outcome of
         Exit code \<Rightarrow> Some (Cont_exit code)
       | Return result p \<Rightarrow> cont_loop h junk fuel instruction p result
     }
   }"

definition cont :: "host \<Rightarrow> (nat \<Rightarrow> u32) \<Rightarrow> nat \<Rightarrow> gdb_data \<Rightarrow> u8 list \<Rightarrow> service option" where
  "cont h junk fuel g data = do {
     ending \<leftarrow> cont_loop h junk fuel (junk fuel) (arm g) (target_exception g);
     case ending of
       Cont_fuel \<Rightarrow> Some Out_of_fuel
     | Cont_exit code \<Rightarrow> Some (Exited code)
     | Stopped p exception \<Rightarrow>
         gdb_send_stop_reason (g\<lparr>arm := p, target_exception := exception\<rparr>)
   }"

definition kill_request :: "gdb_data \<Rightarrow> u8 list \<Rightarrow> service option" where
  "kill_request g data = Some (Served (g\<lparr>writes_left := 0\<rparr>))"

definition query :: "gdb_data \<Rightarrow> u8 list \<Rightarrow> service option" where
  "query g data = do {
     s \<leftarrow> c_string data;
     if s = ascii ''Offsets'' then gdb_send_data g (ascii ''Text=0;Data=0;Bss=0'')
       else if take 9 s = ascii ''Supported'' then gdb_send_data g (ascii ''PacketSize=400'')
       else if s = ascii ''TStatus'' then gdb_send_data g (ascii ''T0;tnotrun:0'')
       else if s = ascii ''Symbol::'' then gdb_send_data g []
       else gdb_send_data g []
   }"

text \<open>The words \<open>vs\<close> from position \<open>i\<close> on, and \<open>n\<close> words of no value.\<close>

fun write_registers_at ::
  "host \<Rightarrow> arm_core \<Rightarrow> nat list \<Rightarrow> u8 list \<Rightarrow> nat \<Rightarrow> (u8 list \<times> nat) option" where
  "write_registers_at h p [] arr position = Some (arr, position)"
| "write_registers_at h p (r # rs) arr position = do {
     value \<leftarrow> arm_read_register p (word_of_nat r);
     arr \<leftarrow> write_uint32 h arr position value;
     write_registers_at h p rs arr (position + 8)
   }"

fun write_unavailable :: "nat \<Rightarrow> u8 list \<Rightarrow> nat \<Rightarrow> (u8 list \<times> nat) option" where
  "write_unavailable 0 arr position = Some (arr, position)"
| "write_unavailable (Suc n) arr position = do {
     arr \<leftarrow> poke arr position (ascii ''xxxxxxxx'');
     write_unavailable n arr (position + 8)
   }"

definition read_general_registers :: "host \<Rightarrow> gdb_data \<Rightarrow> u8 list \<Rightarrow> service option" where
  "read_general_registers h g data = do {
     (arr, position) \<leftarrow> write_registers_at h (arm g) [0..<15] (packet g) 1;
     pc \<leftarrow> arm_read_register (arm g) 15;
     arr \<leftarrow> write_uint32 h arr position (pc - 4);
     let position = position + 8;
     (arr, position) \<leftarrow> write_unavailable (8 * 3) arr position;
     (arr, position) \<leftarrow> write_unavailable 1 arr position;
     psr \<leftarrow> arm_read_cpsr (arm g);
     arr \<leftarrow> write_uint32 h arr position psr;
     gdb_send_buffer (g\<lparr>packet := arr\<rparr>)
   }"

text \<open>
  \<open>sscanf(data, "%x,%x", ...)\<close>: the address keeps its junk when there is no number, the size when
  no second number follows a comma.
\<close>

definition scan_address_size :: "(nat \<Rightarrow> u32) \<Rightarrow> u8 list \<Rightarrow> u32 \<times> u32" where
  "scan_address_size junk s = (case scan_hex (length s) s of
     None \<Rightarrow> (junk 0, junk 1)
   | Some (address, rest) \<Rightarrow>
       (case rest of [] \<Rightarrow> (address, junk 1)
        | c # rest' \<Rightarrow> if c = 0x2c then
            (case scan_hex (length rest') rest' of None \<Rightarrow> (address, junk 1)
             | Some (count, _) \<Rightarrow> (address, count))
          else (address, junk 1)))"

fun read_memory_loop :: "memory \<Rightarrow> nat \<Rightarrow> u32 \<Rightarrow> u8 list \<Rightarrow> nat \<Rightarrow> u8 list option" where
  "read_memory_loop m 0 address arr position = Some arr"
| "read_memory_loop m (Suc count) address arr position = do {
     access \<leftarrow> memory_read_byte m address;
     case access of
       Denied \<Rightarrow> Some arr
     | Granted value \<Rightarrow> do {
         arr \<leftarrow> poke arr position (hex2 value);
         read_memory_loop m count (address + 1) arr (position + 2)
       }
   }"

definition read_memory :: "(nat \<Rightarrow> u32) \<Rightarrow> gdb_data \<Rightarrow> u8 list \<Rightarrow> service option" where
  "read_memory junk g data = do {
     s \<leftarrow> c_string data;
     let (address, count) = scan_address_size junk s;
     arr \<leftarrow> aset (packet g) 1 0;
     arr \<leftarrow> read_memory_loop (core_mem (arm g)) (unat count) address arr 1;
     gdb_send_buffer (g\<lparr>packet := arr\<rparr>)
   }"

text \<open>The register number is scanned in decimal here.\<close>

definition read_register_command :: "host \<Rightarrow> gdb_data \<Rightarrow> u8 list \<Rightarrow> service option" where
  "read_register_command h g data = do {
     s \<leftarrow> c_string data;
     n \<leftarrow> atoi s;
     let reg = (word_of_int n :: u32);
     if \<not> reg < 16 then Some Aborted
     else do {
       value \<leftarrow> arm_read_register (arm g) (ucast reg);
       arr \<leftarrow> write_uint32 h (packet g) 1 (value - (if reg = 15 then 4 else 0));
       gdb_send_buffer (g\<lparr>packet := arr\<rparr>)
     }
   }"

definition reason :: "gdb_data \<Rightarrow> u8 list \<Rightarrow> service option" where
  "reason g data = gdb_send_stop_reason g"

definition set_thread :: "gdb_data \<Rightarrow> u8 list \<Rightarrow> service option" where
  "set_thread g data = do {
     type \<leftarrow> aget data 0;
     s \<leftarrow> c_string (drop 1 data);
     value \<leftarrow> atoi s;
     if (type = of_char (CHR ''c'') \<or> type = of_char (CHR ''g'')) \<and> value < 1 \<and> value > -2
       then gdb_send_data g (ascii ''OK'')
       else gdb_send_data g (ascii ''E01'')
   }"

definition step_command :: "host \<Rightarrow> (nat \<Rightarrow> u32) \<Rightarrow> gdb_data \<Rightarrow> u8 list \<Rightarrow> service option" where
  "step_command h junk g data = do {
     outcome \<leftarrow> arm_step h (junk 0) (arm g);
     case outcome of
       Exit code \<Rightarrow> Some (Exited code)
     | Return result p \<Rightarrow>
         gdb_send_stop_reason (g\<lparr>arm := p, target_exception := result\<rparr>)
   }"

fun read_registers_at ::
  "host \<Rightarrow> (nat \<Rightarrow> u32) \<Rightarrow> nat list \<Rightarrow> u8 list \<Rightarrow> arm_core \<Rightarrow> arm_core option" where
  "read_registers_at h junk [] data p = Some p"
| "read_registers_at h junk (r # rs) data p = do {
     value \<leftarrow> read_uint32 h (junk r) data;
     p \<leftarrow> arm_write_register p (word_of_nat r) value;
     read_registers_at h junk rs (drop 8 data) p
   }"

text \<open>The words that are read and not used.\<close>

fun skip_words :: "host \<Rightarrow> nat \<Rightarrow> u8 list \<Rightarrow> u8 list option" where
  "skip_words h 0 data = Some data"
| "skip_words h (Suc n) data = do {
     _ \<leftarrow> read_uint32 h 0 data;
     skip_words h n (drop 8 data)
   }"

definition write_general_registers ::
  "host \<Rightarrow> (nat \<Rightarrow> u32) \<Rightarrow> gdb_data \<Rightarrow> u8 list \<Rightarrow> service option" where
  "write_general_registers h junk g data = do {
     p \<leftarrow> read_registers_at h junk [0..<16] data (arm g);
     rest \<leftarrow> skip_words h (8 * 3) (drop (16 * 8) data);
     rest \<leftarrow> skip_words h 1 rest;
     value \<leftarrow> read_uint32 h (junk 16) rest;
     p \<leftarrow> arm_write_cpsr p value;
     gdb_send_data (g\<lparr>arm := p\<rparr>) (ascii ''OK'')
   }"

text \<open>\<open>index\<close>: the bytes after the first occurrence; without one the null pointer is used.\<close>

definition after_char :: "u8 \<Rightarrow> u8 list \<Rightarrow> u8 list option" where
  "after_char c data = do {
     s \<leftarrow> c_string data;
     if c \<in> set s then Some (drop (length (takeWhile (\<lambda>b. b \<noteq> c) s) + 1) data) else None
   }"

text \<open>
  The loop of \<open>write_memory_binary\<close>; the flag is the C variable \<open>write_ok\<close>.
\<close>

fun write_binary_loop :: "arm_core \<Rightarrow> nat \<Rightarrow> u32 \<Rightarrow> u8 list \<Rightarrow> bool \<Rightarrow> (bool \<times> arm_core) option" where
  "write_binary_loop p 0 address content write_ok = Some (write_ok, p)"
| "write_binary_loop p (Suc n) address content write_ok =
     (if \<not> write_ok then Some (write_ok, p)
      else do {
        c \<leftarrow> aget content 0;
        (value, content) \<leftarrow> (if c = 0x7d then do {
            c \<leftarrow> aget content 1;
            Some (c XOR 0x20, drop 1 content)
          }
          else Some (c, content));
        (result, m) \<leftarrow> memory_write_byte (core_mem p) address value;
        write_binary_loop (p\<lparr>core_mem := m\<rparr>) n (address + 1) (drop 1 content) (result = 0)
      })"

definition write_memory_binary :: "(nat \<Rightarrow> u32) \<Rightarrow> gdb_data \<Rightarrow> u8 list \<Rightarrow> service option" where
  "write_memory_binary junk g data = do {
     s \<leftarrow> c_string data;
     let (address, count) = scan_address_size junk s;
     content \<leftarrow> after_char 0x3a data;
     let write_ok = (ucast address < memory_get_size (core_mem (arm g)));
     (write_ok, p) \<leftarrow> write_binary_loop (arm g) (unat count) address content write_ok;
     let g = g\<lparr>arm := p\<rparr>;
     if write_ok then gdb_send_data g (ascii ''OK'') else gdb_send_data g (ascii ''E02'')
   }"

definition write_register_command :: "host \<Rightarrow> (nat \<Rightarrow> u32) \<Rightarrow> gdb_data \<Rightarrow> u8 list \<Rightarrow> service option" where
  "write_register_command h junk g data = do {
     s \<leftarrow> c_string data;
     let reg = (case scan_hex (length s) s of Some (n, _) \<Rightarrow> n | None \<Rightarrow> junk 0);
     data \<leftarrow> after_char 0x3d data;
     value \<leftarrow> read_uint32 h (junk 1) data;
     if \<not> reg < 16 then Some Aborted
     else do {
       p \<leftarrow> arm_write_register (arm g) (ucast reg) value;
       gdb_send_data (g\<lparr>arm := p\<rparr>) (ascii ''OK'')
     }
   }"

section \<open>Dispatch\<close>

text \<open>
  The first argument says whether the structure is allocated, the second one how many writes the connection
  takes; the packet is not initialised.
\<close>

definition gdb_init_data :: "bool \<Rightarrow> nat \<Rightarrow> u8 list \<Rightarrow> arm_core \<Rightarrow> gdb_data option" where
  "gdb_init_data ok writes buffer p = (if ok then
     Some \<lparr>arm = p, target_exception = 0, packet = buffer, gdb_len = 0, sent = [],
       writes_left = writes\<rparr>
   else None)"

datatype gdb_command = Cont | Kill_request | Query | Read_general_registers | Read_memory
  | Read_register | Reason | Set_thread | Step | Write_general_registers | Write_memory_binary
  | Write_register

definition gdb_init :: "u8 \<Rightarrow> gdb_command option" where
  "gdb_init = [of_char (CHR ''c'') \<mapsto> Cont, of_char (CHR ''k'') \<mapsto> Kill_request,
     of_char (CHR ''q'') \<mapsto> Query, of_char (CHR ''g'') \<mapsto> Read_general_registers,
     of_char (CHR ''m'') \<mapsto> Read_memory, of_char (CHR ''p'') \<mapsto> Read_register,
     of_char (CHR ''?'') \<mapsto> Reason, of_char (CHR ''H'') \<mapsto> Set_thread,
     of_char (CHR ''s'') \<mapsto> Step, of_char (CHR ''G'') \<mapsto> Write_general_registers,
     of_char (CHR ''X'') \<mapsto> Write_memory_binary, of_char (CHR ''P'') \<mapsto> Write_register]"

definition handle_command ::
  "host \<Rightarrow> (nat \<Rightarrow> u32) \<Rightarrow> nat \<Rightarrow> gdb_command \<Rightarrow> gdb_data \<Rightarrow> u8 list \<Rightarrow> service option" where
  "handle_command h junk fuel c g data = (case c of
     Cont \<Rightarrow> cont h junk fuel g data
   | Kill_request \<Rightarrow> kill_request g data
   | Query \<Rightarrow> query g data
   | Read_general_registers \<Rightarrow> read_general_registers h g data
   | Read_memory \<Rightarrow> read_memory junk g data
   | Read_register \<Rightarrow> read_register_command h g data
   | Reason \<Rightarrow> reason g data
   | Set_thread \<Rightarrow> set_thread g data
   | Step \<Rightarrow> step_command h junk g data
   | Write_general_registers \<Rightarrow> write_general_registers h junk g data
   | Write_memory_binary \<Rightarrow> write_memory_binary junk g data
   | Write_register \<Rightarrow> write_register_command h junk g data)"

text \<open>
  \<open>bytes\<close> is the token of the scanner, without the 0 that ends it in memory.  \<open>check\<close> sums the
  bytes between the first one and the last three.
\<close>

definition gdb_packet_analysis ::
  "host \<Rightarrow> (nat \<Rightarrow> u32) \<Rightarrow> nat \<Rightarrow> gdb_data \<Rightarrow> u8 list \<Rightarrow> service option" where
  "gdb_packet_analysis h junk fuel g bytes = do {
     let len = length bytes;
     let i = max 1 (len - 3);
     let check = sum_list (take (i - 1) (drop 1 bytes));
     s \<leftarrow> c_string (drop (i + 1) (bytes @ [0]));
     let given = (case scan_hex (length s) s of Some (v, _) \<Rightarrow> v | None \<Rightarrow> junk 0);
     if ucast check = given then after_service (gdb_send_ack g) (\<lambda>g. do {
       bytes \<leftarrow> aset (bytes @ [0]) i 0;
       index \<leftarrow> aget bytes 1;
       case gdb_init index of
         Some c \<Rightarrow> handle_command h junk fuel c g (drop 2 bytes)
       | None \<Rightarrow> gdb_send_data g []
     })
     else Some (gdb_require_retransmission g)
   }"

section \<open>Hexadecimal digits\<close>

lemma hex_digit_facts:
  assumes "d \<le> (15 :: u8)"
  shows "hex_value (hex_digit d) = Some (unat d)" "\<not> is_space (hex_digit d)" "hex_digit d \<noteq> 0"
    "hex_digit d \<notin> {0x23, 0x24, 0x2b, 0x2c, 0x2d, 0x3a, 0x3d, 0x58, 0x78}"
  using reg_cases [OF assms] unfolding hex_digit_def hex_value_def is_space_def
  by (elim insertE emptyE; simp)+

lemma nibbles [simp]: "drop_bit 4 (b :: u8) \<le> 15" "b AND 0xf \<le> 15"
proof -
  have "drop_bit 4 b AND 0xf = drop_bit 4 b"
    unfolding u8_eq_iff by (auto simp: bit_simps dest: bit_imp_le_length)
  then show "drop_bit 4 b \<le> 15" by (metis word_and_le1)
  show "b AND 0xf \<le> 15" by (rule word_and_le1)
qed

lemma nibbles_sum: "16 * unat (drop_bit 4 (b :: u8)) + unat (b AND 0xf) = unat b"
proof -
  have "unat (b AND 0xf) = unat (take_bit 4 b)" by (simp add: take_bit_eq_mask mask_numeral)
  also have "\<dots> = take_bit 4 (unat b)" by (rule unsigned_take_bit_eq)
  also have "\<dots> = unat b mod 16" by (simp add: take_bit_eq_mod)
  finally have m: "unat (b AND 0xf) = unat b mod 16" .
  have d: "unat (drop_bit 4 b) = unat b div 2 ^ 4"
    by (simp only: unat_drop_bit_eq) (simp only: drop_bit_eq_div)
  show ?thesis unfolding m d using mult_div_mod_eq [of 16 "unat b"] by simp
qed

lemma hex2_facts:
  "length (hex2 b) = 2" "0 \<notin> set (hex2 b)" "c \<in> set (hex2 b) \<Longrightarrow> \<not> is_space c \<and> c \<noteq> 0x23 \<and> c \<noteq> 0x24 \<and> hex_value c \<noteq> None"
  using hex_digit_facts [OF nibbles(1), of b] hex_digit_facts [OF nibbles(2), of b]
  by (auto simp: hex2_def)

lemma scan_hex2: "scan_hex 2 (hex2 b @ rest) = Some (ucast b, rest)"
proof -
  have w: "word_of_nat (unat b) = (ucast b :: u32)" by simp
  have n: "hex_number (hex2 b) 0 = (unat b, [])"
    using hex_digit_facts(1) [OF nibbles(1), of b] hex_digit_facts(1) [OF nibbles(2), of b]
    by (simp add: hex2_def nibbles_sum)
  have "unat b < 2 ^ 64" using unat_u8_less [of b] by simp
  then show ?thesis
    using hex_digit_facts [OF nibbles(1), of b] hex_digit_facts [OF nibbles(2), of b] n
    by (simp add: scan_hex_def hex2_def scan_sign_def scan_prefix_def Let_def w)
qed

lemma c_string_append:
  assumes "0 \<notin> set xs"
  shows "c_string (xs @ 0 # ys) = Some xs"
    and "0 \<in> set ys \<Longrightarrow> c_string (xs @ ys) = Some (xs @ takeWhile (\<lambda>b. b \<noteq> 0) ys)"
  using assms by (auto simp: c_string_def takeWhile_append)

definition hex_bytes :: "u8 list \<Rightarrow> u8 list" where
  "hex_bytes bs = concat (map hex2 bs)"

lemma hex_bytes_simps [simp]:
  "hex_bytes [] = []" "hex_bytes (b # bs) = hex2 b @ hex_bytes bs"
  "hex_bytes (bs @ cs) = hex_bytes bs @ hex_bytes cs"
  by (simp_all add: hex_bytes_def)

lemma length_hex_bytes [simp]: "length (hex_bytes bs) = 2 * length bs"
  by (induction bs) (simp_all add: hex2_facts)

lemma zero_hex_bytes [simp]: "0 \<notin> set (hex_bytes bs)"
  by (induction bs) (simp_all add: hex2_facts)

lemma ucast_u8_u32 [simp]: "ucast (ucast b :: u32) = (b :: u8)"
  unfolding u8_eq_iff by (simp add: bit_simps)

text \<open>Reading what was written gives the bytes back, whatever follows.\<close>

lemma read_hex_bytes:
  assumes "0 \<in> set rest"
  shows "read_bytes (length bs) (hex_bytes bs @ rest) v = Some bs"
  using assms
proof (induction bs arbitrary: v)
  case (Cons b bs)
  have "c_string (hex2 b @ (hex_bytes bs @ rest)) = Some (hex2 b @ takeWhile (\<lambda>b. b \<noteq> 0) (hex_bytes bs @ rest))"
    using Cons.prems by (intro c_string_append(2)) (simp_all add: hex2_facts)
  moreover have "drop 2 (hex2 b @ hex_bytes bs @ rest) = hex_bytes bs @ rest"
    by (simp add: hex2_facts)
  ultimately show ?case using Cons by (simp add: scan_hex2)
qed simp

lemma length_poke: "poke arr i bs = Some arr' \<Longrightarrow> length arr' = length arr"
  by (auto simp: poke_def split: if_splits)

text \<open>A string stored over the 0 of another one continues it.\<close>

lemma poke_append:
  "poke arr i xs \<bind> (\<lambda>a. poke a (i + length xs) ys) = poke arr i (xs @ ys)"
proof (cases "i + length (xs @ ys) < length arr")
  case True
  have "length (take i arr) = i" "Suc (length arr - Suc 0) = length arr" using True by auto
  then show ?thesis using True by (simp add: poke_def add.commute add.left_commute)
next
  case False
  then show ?thesis by (auto simp: poke_def)
qed

lemma write_bytes_eq: "write_bytes arr i bs = poke arr i (hex_bytes bs)"
proof (induction bs arbitrary: arr i)
  case Nil
  then show ?case by (simp add: aset_def poke_def upd_conv_take_nth_drop)
next
  case (Cons b bs)
  then show ?case using poke_append [of arr i "hex2 b" "hex_bytes bs"] by (simp add: hex2_facts)
qed

section \<open>Words on the wire\<close>

text \<open>
  Both directions use the big-endian order of the target, on every host.
\<close>

definition hex_word :: "u32 \<Rightarrow> u8 list" where
  "hex_word v = hex_bytes (word_bytes True v)"

lemma length_hex_word [simp]: "length (hex_word v) = 8"
  by (simp add: hex_word_def)

lemma zero_hex_word [simp]: "0 \<notin> set (hex_word v)"
  by (simp add: hex_word_def)

lemma rev_word_bytes: "rev (word_bytes b v) = word_bytes (\<not> b) v"
  by (simp add: word_bytes_def Let_def)

lemma write_uint32_eq: "write_uint32 h arr i v = poke arr i (hex_word v)"
  by (simp add: write_uint32_def write_bytes_eq hex_word_def loop_order_def union_bytes_def
      is_big_endian_def target_big_endian_def rev_word_bytes)

lemma be_word_bytes: "be_word (word_bytes True v) = v"
proof -
  have "be_word (word_bytes True v) = push_bit 24 (ucast (ucast (drop_bit 24 v) :: u8))
    OR push_bit 16 (ucast (ucast (drop_bit 16 v) :: u8))
    OR push_bit 8 (ucast (ucast (drop_bit 8 v) :: u8)) OR ucast (ucast v :: u8)"
    by (rule word32_eqI) (simp add: be_word_def word_bytes_def Let_def bit_simps upt_32)
  then show ?thesis by (simp add: join_word_bytes)
qed

lemma read_uint32_hex_word:
  assumes "0 \<in> set rest"
  shows "read_uint32 h junk (hex_word v @ rest) = Some v"
  using read_hex_bytes [OF assms, of "word_bytes True v" junk]
  by (auto simp: read_uint32_def hex_word_def union_integer_def loop_order_def is_big_endian_def
      target_big_endian_def be_word_bytes)

section \<open>Sending\<close>

text \<open>
  A string without 0 that fits in the buffer is sent in a frame: \<open>$\<close>, the string, \<open>#\<close>, and the
  sum of its bytes in two hexadecimal digits.
\<close>

definition frame :: "u8 list \<Rightarrow> u8 list" where
  "frame s = [0x24] @ s @ [0x23] @ hex2 (sum_list s)"

lemma length_frame [simp]: "length (frame s) = length s + 4"
  by (simp add: frame_def hex2_facts)

definition after_send :: "gdb_data \<Rightarrow> u8 list \<Rightarrow> gdb_data \<Rightarrow> bool" where
  "after_send g s g' \<longleftrightarrow> arm g' = arm g \<and> target_exception g' = target_exception g
     \<and> writes_left g = Suc (writes_left g') \<and> length (packet g') = length (packet g)
     \<and> sent g' = sent g @ [frame s]"

lemma gdb_send_buffer_poked:
  assumes "0 \<notin> set s" "length s + 5 \<le> length (packet g)" "poke (packet g) 1 s = Some arr" "0 < writes_left g"
  shows "\<exists>g'. gdb_send_buffer (g\<lparr>packet := arr\<rparr>) = Some (Served g') \<and> after_send g s g'"
proof -
  obtain c A where A: "packet g = c # A" using assms(2) by (cases "packet g") auto
  have lenA: "length s + 4 \<le> length A" using assms(2) A by simp
  define B where "B = drop (length s + 1) A"
  have B: "length B \<ge> 3" "drop (length s + 1) A = B" using lenA by (simp_all add: B_def)
  then obtain b1 b2 b3 C where C: "B = b1 # b2 # b3 # C"
    by (auto simp: numeral_3_eq_3 Suc_le_length_iff)
  have arr: "arr = c # s @ 0 # b1 # b2 # b3 # C"
    using assms(3) A B C lenA by (auto simp: poke_def split: if_splits)
  have up1: "(x # s @ y # ys)[Suc (length s) := z] = x # s @ z # ys" for x y z :: u8 and ys
    by simp
  let ?h = "hex2 (sum_list s)"
  obtain h1 h2 where h: "?h = [h1, h2]" by (simp add: hex2_def)
  let ?n = "Suc (Suc (Suc (Suc (length s))))"
  let ?arr = "0x24 # s @ [0x23, h1, h2, 0] @ C"
  have "gdb_send_buffer (g\<lparr>packet := arr\<rparr>) =
      Some (rio_writen (g\<lparr>packet := ?arr, gdb_len := ?n\<rparr>) (take ?n ?arr))"
    using assms(1) up1
    by (simp add: gdb_send_buffer_def arr aset_def c_string_append h poke_def gdb_transmit_packet_def Let_def
        list_update_append)
  moreover have "take ?n ?arr = frame s" by (simp add: frame_def h)
  ultimately show ?thesis
    using A lenA B C arr assms(4) by (auto simp: after_send_def rio_writen_def dest: arg_cong [where f = length])
qed

text \<open>A longer one is undefined.\<close>

lemma gdb_send_buffer_overflow:
  assumes "0 \<notin> set s" "length (packet g) < length s + 5" "poke (packet g) 1 s = Some arr"
  shows "gdb_send_buffer (g\<lparr>packet := arr\<rparr>) = None"
proof -
  obtain c A where A: "packet g = c # A" using assms(3) by (cases "packet g") (auto simp: poke_def)
  have arr: "arr = c # s @ 0 # drop (Suc (length s)) A"
    using assms(3) A by (auto simp: poke_def split: if_splits)
  have len: "length arr = length (packet g)" using assms(3) by (rule length_poke)
  have "c_string (s @ 0 # ys) = Some s" for ys using assms(1) by (rule c_string_append)
  moreover have "poke b (Suc (Suc (length s))) (hex2 k) = None" if "length b = length arr" for b k
    using that assms(2) len by (simp add: poke_def hex2_facts)
  ultimately show ?thesis
    by (auto simp: gdb_send_buffer_def arr aset_def Let_def Option.bind_eq_None_conv)
qed

lemma gdb_send_data_wf:
  assumes "0 \<notin> set s" "length s + 5 \<le> length (packet g)" "0 < writes_left g"
  shows "\<exists>g'. gdb_send_data g s = Some (Served g') \<and> after_send g s g'"
proof -
  obtain arr where arr: "poke (packet g) 1 s = Some arr" using assms(2) by (auto simp: poke_def)
  show ?thesis using gdb_send_buffer_poked [OF assms(1,2) arr assms(3)] arr by (simp add: gdb_send_data_def)
qed

section \<open>Receiving\<close>

lemma gdb_init_0 [simp]: "gdb_init 0 = None"
  by (simp add: gdb_init_def)

definition dispatch ::
  "host \<Rightarrow> (nat \<Rightarrow> u32) \<Rightarrow> nat \<Rightarrow> gdb_data \<Rightarrow> u8 list \<Rightarrow> u8 list \<Rightarrow> service option" where
  "dispatch h junk fuel g s trail = (case s of
     [] \<Rightarrow> gdb_send_data g []
   | c # args \<Rightarrow> (case gdb_init c of
       Some command \<Rightarrow> handle_command h junk fuel command g (args @ 0 # trail)
     | None \<Rightarrow> gdb_send_data g []))"

text \<open>
  A packet is acknowledged and dispatched when its checksum is the sum of its bytes, and its
  retransmission is required when it is not.
\<close>

lemma gdb_packet_analysis_eq:
  "gdb_packet_analysis h junk fuel g ([0x24] @ s @ [0x23] @ hex2 b) =
    (if b = sum_list s then after_service (gdb_send_ack g) (\<lambda>g. dispatch h junk fuel g s (hex2 b @ [0]))
     else Some (gdb_require_retransmission g))"
proof -
  obtain h1 h2 where h: "hex2 b = [h1, h2]" by (simp add: hex2_def)
  have z: "h1 \<noteq> 0" "h2 \<noteq> 0" using hex2_facts(2) [of b] h by auto
  let ?bytes = "0x24 # s @ [0x23, h1, h2]"
  have i: "max 1 (length ?bytes - 3) = Suc (length s)" by simp
  have check: "take (length s) (drop 1 ?bytes) = s" by simp
  have given: "c_string (drop (Suc (length s) + 1) (?bytes @ [0])) = Some [h1, h2]"
    using c_string_append(1) [of "[h1, h2]" "[]"] z by simp
  have scan: "scan_hex (length [h1, h2]) [h1, h2] = Some (ucast b, [])"
    using scan_hex2 [of b "[]"] h by (simp add: numeral_2_eq_2)
  have eq: "ucast (sum_list s) = (ucast b :: u32) \<longleftrightarrow> b = sum_list s"
    by (metis ucast_u8_u32)
  have set: "aset (?bytes @ [0]) (Suc (length s)) 0 = Some (0x24 # s @ [0, h1, h2, 0])"
    by (simp add: aset_def list_update_append)
  have first: "aget (0x24 # s @ [0, h1, h2, 0]) 1 = Some (case s of [] \<Rightarrow> 0 | c # _ \<Rightarrow> c)"
    by (cases s) (simp_all add: aget_def)
  have bytes: "[0x24] @ s @ [0x23] @ hex2 b = ?bytes" by (simp add: h)
  have d: "(case gdb_init (case s of [] \<Rightarrow> 0 | c # _ \<Rightarrow> c) of
         Some c \<Rightarrow> handle_command h junk fuel c g (drop 2 (0x24 # s @ [0, h1, h2, 0]))
       | None \<Rightarrow> gdb_send_data g [])
     = dispatch h junk fuel g s (hex2 b @ [0])" for g
    by (cases s; cases "gdb_init (hd s)") (simp_all add: dispatch_def h)
  have "gdb_packet_analysis h junk fuel g ([0x24] @ s @ [0x23] @ hex2 b) =
    (if b = sum_list s then after_service (gdb_send_ack g) (\<lambda>g.
       (case gdb_init (case s of [] \<Rightarrow> 0 | c # _ \<Rightarrow> c) of
         Some c \<Rightarrow> handle_command h junk fuel c g (drop 2 (0x24 # s @ [0, h1, h2, 0]))
       | None \<Rightarrow> gdb_send_data g []))
     else Some (gdb_require_retransmission g))"
    by (simp only: gdb_packet_analysis_def Let_def bytes i check given scan Option.bind.simps
        option.case prod.case eq set first diff_Suc_1)
  then show ?thesis by (simp only: d)
qed

section \<open>The register commands\<close>

lemma poke_poke: "poke arr i xs = Some a \<Longrightarrow> poke a (i + length xs) ys = poke arr i (xs @ ys)"
  using poke_append [of arr i xs ys] by simp

lemma poke_None: "poke arr i xs = None \<Longrightarrow> poke arr i (xs @ ys) = None"
  by (auto simp: poke_def split: if_splits)

definition registers_hex :: "arm_core \<Rightarrow> nat list \<Rightarrow> u8 list" where
  "registers_hex p rs = concat (map (\<lambda>r. hex_word (rval p (word_of_nat r))) rs)"

lemma registers_hex_simps [simp]:
  "registers_hex p [] = []"
  "registers_hex p (r # rs) = hex_word (rval p (word_of_nat r)) @ registers_hex p rs"
  "0 \<notin> set (registers_hex p rs)" "length (registers_hex p rs) = 8 * length rs"
  by (simp_all add: registers_hex_def, induction rs) auto

lemma write_registers_at_eq:
  "wf_core p \<Longrightarrow> set rs \<subseteq> {..15} \<Longrightarrow> rs \<noteq> [] \<Longrightarrow> write_registers_at h p rs arr i =
    map_option (\<lambda>a. (a, i + 8 * length rs)) (poke arr i (registers_hex p rs))"
proof (induction rs arbitrary: arr i)
  case (Cons r rs)
  let ?w = "hex_word (rval p (word_of_nat r))"
  show ?case
  proof (cases "rs = []")
    case True
    then show ?thesis using Cons.prems
      by (cases "poke arr i ?w") (simp_all add: core_simps reg_number write_uint32_eq)
  next
    case False
    then show ?thesis using Cons poke_poke [of arr i ?w] poke_None [of arr i ?w]
      by (cases "poke arr i ?w")
        (simp_all add: core_simps reg_number write_uint32_eq add.assoc)
  qed
qed simp

definition unavailable :: "nat \<Rightarrow> u8 list" where
  "unavailable n = concat (replicate n (ascii ''xxxxxxxx''))"

lemma ascii_x: "length (ascii ''xxxxxxxx'') = 8" "0 \<notin> set (ascii ''xxxxxxxx'')"
  by (simp_all add: ascii_def)

lemma unavailable_Suc: "unavailable (Suc n) = ascii ''xxxxxxxx'' @ unavailable n"
  by (simp add: unavailable_def)

lemma unavailable_simps [simp]:
  "unavailable 0 = []"
  "0 \<notin> set (unavailable n)" "length (unavailable n) = 8 * n"
  using ascii_x by (simp_all add: unavailable_def length_concat sum_list_replicate)

lemma unavailable_add: "unavailable (m + n) = unavailable m @ unavailable n"
  by (simp add: unavailable_def replicate_add)

lemma write_unavailable_eq:
  "0 < n \<Longrightarrow> write_unavailable n arr i =
    map_option (\<lambda>a. (a, i + 8 * n)) (poke arr i (unavailable n))"
proof (induction n arbitrary: arr i)
  case (Suc n)
  let ?w = "ascii ''xxxxxxxx''"
  show ?case
  proof (cases "n = 0")
    case True
    then show ?thesis by (cases "poke arr i ?w") (simp_all add: unavailable_Suc)
  next
    case False
    then show ?thesis using Suc poke_poke [of arr i ?w] poke_None [of arr i ?w] ascii_x
      by (cases "poke arr i ?w") (simp_all add: add.assoc unavailable_Suc)
  qed
qed simp

text \<open>The answer to \<open>g\<close>.\<close>

definition registers_payload :: "arm_core \<Rightarrow> u8 list" where
  "registers_payload p = registers_hex p [0..<15] @ hex_word (rval p 15 - 4)
     @ unavailable 25 @ hex_word (cpsr p)"

lemma registers_payload_facts [simp]:
  "length (registers_payload p) = 336" "0 \<notin> set (registers_payload p)"
  by (simp_all add: registers_payload_def)

definition wf_gdb :: "gdb_data \<Rightarrow> bool" where
  "wf_gdb g \<longleftrightarrow> wf_core (arm g) \<and> length (packet g) = 1024 \<and> gdb_len g \<le> 1024"

text \<open>A well-formed server on a connection that takes \<open>n\<close> more writes.\<close>

definition serving :: "nat \<Rightarrow> gdb_data \<Rightarrow> bool" where
  "serving n g \<longleftrightarrow> wf_gdb g \<and> n \<le> writes_left g"

lemma serving_facts: "serving n g \<Longrightarrow> wf_gdb g" "serving (Suc n) g \<Longrightarrow> 0 < writes_left g"
  by (simp_all add: serving_def)

lemma read_general_registers_wf:
  assumes "serving 1 g"
  shows "\<exists>g'. read_general_registers h g data = Some (Served g')
    \<and> after_send g (registers_payload (arm g)) g'"
proof -
  let ?p = "arm g" and ?arr = "packet g"
  have wf: "wf_core ?p" and len: "length ?arr = 1024" "0 < writes_left g"
    using assms by (auto simp: wf_gdb_def serving_def)
  let ?R = "registers_hex ?p [0..<15]" and ?P = "hex_word (rval ?p 15 - 4)"
  have some: "\<exists>a. poke ?arr 1 xs = Some a" if "length xs \<le> 1000" for xs
    using that len(1) by (auto simp: poke_def)
  obtain a1 where a1: "poke ?arr 1 ?R = Some a1" using some [of ?R] by auto
  obtain a2 where a2: "poke ?arr 1 (?R @ ?P) = Some a2" using some [of "?R @ ?P"] by auto
  obtain a3 where a3: "poke ?arr 1 ((?R @ ?P) @ unavailable 24) = Some a3"
    using some [of "(?R @ ?P) @ unavailable 24"] by auto
  obtain a4 where a4: "poke ?arr 1 (((?R @ ?P) @ unavailable 24) @ unavailable 1) = Some a4"
    using some [of "((?R @ ?P) @ unavailable 24) @ unavailable 1"] by auto
  let ?S = "(((?R @ ?P) @ unavailable 24) @ unavailable 1) @ hex_word (cpsr ?p)"
  have "unavailable 25 = unavailable 24 @ unavailable 1"
    using unavailable_add [of 24 1] by simp
  then have S: "?S = registers_payload ?p" by (simp add: registers_payload_def)
  obtain a5 where a5: "poke ?arr 1 ?S = Some a5" using some [of ?S] S by auto
  have sub: "set [0..<15] \<subseteq> {..15}" "[0..<15] \<noteq> []" by auto
  have steps: "write_registers_at h ?p [0..<15] ?arr 1 = Some (a1, 121)"
    "write_uint32 h a1 121 (rval ?p 15 - 4) = Some a2"
    "write_unavailable (8 * 3) a2 129 = Some (a3, 321)"
    "write_uint32 h a4 329 (cpsr ?p) = Some a5"
    using poke_poke [OF a1, of ?P] poke_poke [OF a2, of "unavailable 24"]
      poke_poke [OF a4, of "hex_word (cpsr ?p)"] a1 a2 a3 a4 a5
      write_registers_at_eq [OF wf sub, of h ?arr 1]
    by (simp_all add: write_uint32_eq write_unavailable_eq)
  have last: "write_unavailable 1 a3 321 = Some (a4, 329)"
    using poke_poke [OF a3, of "unavailable 1"] a4 write_unavailable_eq [of 1 a3 321]
    by (simp del: One_nat_def write_unavailable.simps)
  have "read_general_registers h g data = gdb_send_buffer (g\<lparr>packet := a5\<rparr>)"
    using wf unfolding read_general_registers_def
    by (simp only: steps last Option.bind.simps prod.case arm_read_register_wf arm_read_cpsr_wf Let_def)
      (simp add: core_simps steps steps(3) [simplified] last del: One_nat_def write_unavailable.simps)
  then show ?thesis
    using gdb_send_buffer_poked [of "registers_payload ?p" g a5] len a5 S
    by auto
qed

text \<open>The command \<open>G\<close>: sixteen words, twenty-five that are ignored, and the status word.\<close>

definition words_hex :: "u32 list \<Rightarrow> u8 list" where
  "words_hex vs = concat (map hex_word vs)"

lemma words_hex_simps [simp]:
  "words_hex [] = []" "words_hex (v # vs) = hex_word v @ words_hex vs"
  "length (words_hex vs) = 8 * length vs"
  by (simp_all add: words_hex_def, induction vs) auto

lemma registers_words_hex: "registers_hex p rs = words_hex (map (\<lambda>r. rval p (word_of_nat r)) rs)"
  by (simp add: registers_hex_def words_hex_def comp_def)

lemma read_registers_at_eq:
  assumes "wf_core p" "set rs \<subseteq> {..15}" "length vs = length rs" "0 \<in> set rest"
  shows "read_registers_at h junk rs (words_hex vs @ rest) p = Some (load_list (zip rs vs) p)"
  using assms
proof (induction rs arbitrary: vs p)
  case (Cons r rs)
  then obtain v ws where vs: "vs = v # ws" by (cases vs) auto
  have "read_uint32 h (junk r) (hex_word v @ (words_hex ws @ rest)) = Some v"
    using Cons.prems by (intro read_uint32_hex_word) simp
  moreover have "arm_write_register p (word_of_nat r) v = Some (set_xreg p (word_of_nat r) v)"
    using Cons.prems by (simp add: core_simps reg_number)
  ultimately show ?case using Cons.IH [of "set_xreg p (word_of_nat r) v" ws] Cons.prems vs by simp
qed simp

text \<open>Words that are ignored only have to be there.\<close>

lemma read_bytes_defined:
  "0 \<in> set (drop (2 * n) data) \<Longrightarrow> \<exists>bs. read_bytes n data v = Some bs"
proof (induction n arbitrary: data v)
  case (Suc n)
  have "0 \<in> set data" using Suc.prems in_set_dropD by fastforce
  moreover have "0 \<in> set (drop (2 * n) (drop 2 data))" using Suc.prems by (simp add: add.commute)
  ultimately show ?case using Suc.IH [of "drop 2 data"]
    by (simp add: c_string_def Let_def Option.bind_eq_Some_conv)
qed simp

lemma skip_words_eq:
  "0 \<in> set (drop (8 * n) data) \<Longrightarrow> skip_words h n data = Some (drop (8 * n) data)"
proof (induction n arbitrary: data)
  case (Suc n)
  have d: "0 \<in> set (drop (8 * n) (drop 8 data))" using Suc.prems by (simp add: add.commute)
  then have "0 \<in> set (drop 8 data)" using in_set_dropD by fastforce
  then obtain bs where "read_bytes 4 data 0 = Some bs" using read_bytes_defined [of 4 data 0] by auto
  then show ?case using Suc.IH [OF d] by (simp add: read_uint32_def add.commute)
qed simp

definition set_registers :: "arm_core \<Rightarrow> u32 list \<Rightarrow> u32 \<Rightarrow> arm_core" where
  "set_registers p vs c = set_cpsr (load_list (zip [0..<16] vs) p) c"

lemma load_list_wf: "wf_core p \<Longrightarrow> wf_core (load_list rvs p)"
  by (induction rvs arbitrary: p) (auto simp: load_list_def)

lemma ok_string: "0 \<notin> set (ascii ''OK'')" "length (ascii ''OK'') = 2"
  by (simp_all add: ascii_def)

lemma write_general_registers_wf:
  assumes "serving 1 g" "length vs = 16" "length skipped = 200"
  shows "\<exists>g'. write_general_registers h junk g (words_hex vs @ skipped @ hex_word c @ 0 # trail)
      = Some (Served g')
    \<and> after_send (g\<lparr>arm := set_registers (arm g) vs c\<rparr>) (ascii ''OK'') g'"
proof -
  let ?rest = "skipped @ hex_word c @ 0 # trail"
  let ?p = "load_list (zip [0..<16] vs) (arm g)"
  have wf: "wf_core (arm g)" "length (packet g) = 1024" "0 < writes_left g"
    using assms(1) by (auto simp: wf_gdb_def serving_def)
  have "set [0..<16] \<subseteq> {..15 :: nat}" by auto
  then have regs: "read_registers_at h junk [0..<16] (words_hex vs @ ?rest) (arm g) = Some ?p"
    using wf assms(2) by (intro read_registers_at_eq) simp_all
  have d: "drop (16 * 8) (words_hex vs @ ?rest) = ?rest" using assms(2) by simp
  have skip: "skip_words h (8 * 3) ?rest = Some (drop 192 ?rest)"
    "skip_words h 1 (drop 192 ?rest) = Some (hex_word c @ 0 # trail)"
    using skip_words_eq [of 24 ?rest h] skip_words_eq [of 1 "drop 192 ?rest" h] assms(3)
    by (simp_all del: skip_words.simps One_nat_def)
  have word: "read_uint32 h (junk 16) (hex_word c @ 0 # trail) = Some c"
    by (rule read_uint32_hex_word) simp
  have "write_general_registers h junk g (words_hex vs @ ?rest)
    = gdb_send_data (g\<lparr>arm := set_registers (arm g) vs c\<rparr>) (ascii ''OK'')"
    using load_list_wf [OF wf(1)]
    by (simp only: write_general_registers_def regs d skip word Option.bind.simps
        arm_write_cpsr_wf set_registers_def)
  then show ?thesis
    using gdb_send_data_wf [of "ascii ''OK''" "g\<lparr>arm := set_registers (arm g) vs c\<rparr>"] wf ok_string
    by auto
qed

text \<open>Writing back what was read changes nothing.\<close>

lemma load_list_same:
  assumes "wf_core p" "\<forall>(r, v) \<in> set rvs. r \<le> 15 \<and> xreg p (word_of_nat r) = v"
  shows "load_list rvs p = p"
  using assms
proof (induction rvs)
  case (Cons rv rvs)
  then show ?case by (cases rv) (auto simp: set_xreg_same reg_number)
qed simp

lemma set_cpsr_same: "wf_core p \<Longrightarrow> set_cpsr p (cpsr p) = p"
proof -
  have "masked keep x x = x" for keep x :: u32
    by (rule bit_word_eqI) (simp add: bit_masked)
  then show ?thesis by (simp add: set_cpsr_def cpsr_def)
qed

lemma set_registers_same:
  assumes "wf_core p" "vs = map (\<lambda>r. xreg p (word_of_nat r)) [0..<16]"
  shows "set_registers p vs (cpsr p) = p"
proof -
  have "load_list (zip [0..<16] vs) p = p"
    using assms(1) by (intro load_list_same) (auto simp: assms(2) zip_map2 zip_same_conv_map)
  then show ?thesis using assms(1) by (simp add: set_registers_def set_cpsr_same)
qed

lemma registers_payload_words:
  assumes "4 dvd unat (xreg p 15)"
  shows "registers_payload p = words_hex (map (\<lambda>r. xreg p (word_of_nat r)) [0..<16])
    @ unavailable 25 @ hex_word (cpsr p)"
proof -
  have "registers_hex p [0..<15] = words_hex (map (\<lambda>r. xreg p (word_of_nat r)) [0..<15])"
    unfolding registers_words_hex
    by (rule arg_cong [where f = words_hex]) (auto simp: rval_def word_unat_eq_iff unat_of_nat)
  moreover have "words_hex (map (\<lambda>r. xreg p (word_of_nat r)) [0..<16])
    = words_hex (map (\<lambda>r. xreg p (word_of_nat r)) [0..<15]) @ hex_word (xreg p 15)"
    unfolding upto_15 by (simp add: words_hex_def)
  ultimately show ?thesis using assms by (simp add: registers_payload_def rval_pc)
qed

section \<open>The memory commands\<close>

definition memory_bytes :: "memory \<Rightarrow> u32 \<Rightarrow> nat \<Rightarrow> u8 list" where
  "memory_bytes m a n = take n (drop (unat a) (mem_data m))"

lemma memory_next:
  assumes "wf_memory m" "unat a < length (mem_data m)"
  shows "unat (a + 1) = unat a + 1" "byte_ok m a" "a \<noteq> mem_size m"
  using assms unat_add_no_wrap [of a 1] unat_u32_less [of "mem_size m"]
  by (auto simp: wf_memory_def byte_ok_def)

lemma read_memory_loop_eq:
  assumes "wf_memory m" "unat a + n \<le> length (mem_data m)" "poke arr i pre = Some b"
  shows "read_memory_loop m n a b (i + length pre) = poke arr i (pre @ hex_bytes (memory_bytes m a n))"
  using assms(2,3)
proof (induction n arbitrary: a pre b)
  case 0
  then show ?case by (simp add: memory_bytes_def)
next
  case (Suc n)
  have less: "unat a < length (mem_data m)" using Suc.prems by simp
  note a = memory_next [OF assms(1) less]
  let ?v = "mem_data m ! unat a"
  have bytes: "memory_bytes m a (Suc n) = ?v # memory_bytes m (a + 1) n"
    unfolding memory_bytes_def a(1) using Cons_nth_drop_Suc [OF less] by (metis Suc_eq_plus1 take_Suc_Cons)
  have read: "memory_read_byte m a = Some (Granted ?v)"
    using a assms(1) by (simp add: memory_read_byte_wf)
  have next_poke: "poke b (i + length pre) (hex2 ?v) = poke arr i (pre @ hex2 ?v)"
    by (rule poke_poke [OF Suc.prems(2)])
  show ?case
  proof (cases "poke arr i (pre @ hex2 ?v)")
    case None
    then show ?thesis using read next_poke poke_None [OF None] by (simp add: bytes)
  next
    case (Some c)
    have "read_memory_loop m n (a + 1) c (i + length (pre @ hex2 ?v))
        = poke arr i ((pre @ hex2 ?v) @ hex_bytes (memory_bytes m (a + 1) n))"
      using Suc.prems(1) by (intro Suc.IH [OF _ Some]) (simp add: a(1))
    then show ?thesis using read next_poke Some by (simp add: bytes hex2_facts)
  qed
qed

lemma length_memory_bytes:
  "unat a + n \<le> length (mem_data m) \<Longrightarrow> length (memory_bytes m a n) = n"
  by (simp add: memory_bytes_def)

lemma read_memory_wf:
  assumes "serving 1 g" "c_string data = Some s" "scan_address_size junk s = (a, n)"
    and "unat a + unat n \<le> length (mem_data (core_mem (arm g)))"
  shows "unat n \<le> 509 \<Longrightarrow> \<exists>g'. read_memory junk g data = Some (Served g')
      \<and> after_send g (hex_bytes (memory_bytes (core_mem (arm g)) a (unat n))) g'"
    and "510 \<le> unat n \<Longrightarrow> read_memory junk g data = None"
proof -
  let ?m = "core_mem (arm g)"
  let ?s = "hex_bytes (memory_bytes ?m a (unat n))"
  have wf: "wf_memory ?m" "length (packet g) = 1024" "0 < writes_left g"
    using assms(1) by (auto simp: wf_gdb_def serving_def)
  then have p: "aset (packet g) 1 0 = Some ((packet g)[1 := 0])"
    "poke (packet g) 1 [] = Some ((packet g)[1 := 0])"
    by (auto simp: poke_def upd_conv_take_nth_drop)
  have loop: "read_memory_loop ?m (unat n) a ((packet g)[1 := 0]) 1 = poke (packet g) 1 ?s"
    using read_memory_loop_eq [OF wf(1) assms(4) p(2)] by simp
  have len: "length ?s = 2 * unat n" using assms(4) by (simp add: length_memory_bytes)
  have run: "read_memory junk g data
      = do { arr \<leftarrow> poke (packet g) 1 ?s; gdb_send_buffer (g\<lparr>packet := arr\<rparr>) }"
    unfolding read_memory_def using assms(2,3) p loop by simp
  show "510 \<le> unat n \<Longrightarrow> read_memory junk g data = None"
    using run len wf(2) gdb_send_buffer_overflow [of ?s g]
    by (cases "poke (packet g) 1 ?s") simp_all
  assume n: "unat n \<le> 509"
  then obtain arr where arr: "poke (packet g) 1 ?s = Some arr" using len wf(2) by (auto simp: poke_def)
  show "\<exists>g'. read_memory junk g data = Some (Served g') \<and> after_send g ?s g'"
    using gdb_send_buffer_poked [of ?s g arr] arr run len n wf(2,3) by auto
qed

text \<open>The escaping of binary data, and the bytes an \<open>X\<close> packet stores.\<close>

definition escaped :: "u8 list \<Rightarrow> u8 list" where
  "escaped bs = concat (map (\<lambda>b. if b \<in> {0x23, 0x24, 0x2a, 0x7d} then [0x7d, b XOR 0x20] else [b]) bs)"

lemma escaped_simps [simp]:
  "escaped [] = []"
  "escaped (b # bs) =
    (if b \<in> {0x23, 0x24, 0x2a, 0x7d} then 0x7d # (b XOR 0x20) # escaped bs else b # escaped bs)"
  by (simp_all add: escaped_def)

lemma set_bytes_Cons:
  assumes "i + Suc (length bs) \<le> length (mem_data m)"
  shows "set_bytes (set_bytes m i [b]) (Suc i) bs = set_bytes m i (b # bs)"
proof -
  have "length (take i (mem_data m)) = i" using assms by simp
  then show ?thesis using assms by (simp add: set_bytes_def add.commute)
qed

lemma write_binary_loop_eq:
  assumes "wf_memory (core_mem p)" "unat a + length bs \<le> length (mem_data (core_mem p))"
  shows "write_binary_loop p (length bs) a (escaped bs @ rest) True
    = Some (True, p\<lparr>core_mem := set_bytes (core_mem p) (unat a) bs\<rparr>)"
  using assms
proof (induction bs arbitrary: p a)
  case Nil
  have "set_bytes m i [] = m" for m i by (simp add: set_bytes_def)
  then show ?case by simp
next
  case (Cons b bs)
  let ?m = "core_mem p"
  let ?p = "p\<lparr>core_mem := set_bytes ?m (unat a) [b]\<rparr>"
  have less: "unat a < length (mem_data ?m)" using Cons.prems(2) by simp
  note a = memory_next [OF Cons.prems(1) less]
  have wr: "memory_write_byte ?m a b = Some (0, set_bytes ?m (unat a) [b])"
    using a Cons.prems(1) by (simp add: memory_write_byte_wf)
  have esc: "(b XOR 0x20) XOR 0x20 = b" by (simp add: xor.assoc)
  have "write_binary_loop ?p (length bs) (a + 1) (escaped bs @ rest) True
      = Some (True, ?p\<lparr>core_mem := set_bytes (core_mem ?p) (unat (a + 1)) bs\<rparr>)"
    using Cons.prems a by (intro Cons.IH) (simp_all add: length_set_bytes)
  moreover have "set_bytes (set_bytes ?m (unat a) [b]) (unat (a + 1)) bs = set_bytes ?m (unat a) (b # bs)"
    using Cons.prems(2) by (simp add: a(1) set_bytes_Cons)
  ultimately show ?case using wr esc by (simp add: aget_def)
qed

section \<open>Stepping and continuing\<close>

definition breakpoint :: "u32 \<Rightarrow> bool" where
  "breakpoint instruction \<longleftrightarrow> instruction AND 0xFFF000F0 = 0xE7F000F0"

definition fetches :: "arm_core \<Rightarrow> bool" where
  "fetches p \<longleftrightarrow> word_ok (core_mem p) (fetch_address p)"

abbreviation next_word :: "arm_core \<Rightarrow> u32" where
  "next_word p \<equiv> word_at (core_mem p) (fetch_address p)"

lemma cont_loop_Suc:
  assumes "wf_core p"
  shows "cont_loop h junk (Suc fuel) i p e =
    (let i = (if fetches p then next_word p else i) in
     if breakpoint i then Some (Stopped p e)
     else do {
       outcome \<leftarrow> arm_step h (junk fuel) p;
       case outcome of
         Exit code \<Rightarrow> Some (Cont_exit code)
       | Return result p \<Rightarrow> cont_loop h junk fuel i p result
     })"
  using assms
  by (simp add: arm_read_register_wf arm_read_word_wf Let_def breakpoint_def fetches_def fetch_address_def)

text \<open>A continue that stops has made steps of the processor, and stops at a breakpoint.\<close>

lemma cont_loop_stopped:
  assumes "wf_core p" "cont_loop h junk fuel i p e = Some (Stopped q e')"
  shows "\<exists>js. for_each (machine_step h) js p = Some q \<and> wf_core q
    \<and> (fetches q \<longrightarrow> breakpoint (next_word q))"
  using assms
proof (induction fuel arbitrary: i p e)
  case (Suc fuel)
  let ?i = "if fetches p then next_word p else i"
  show ?case
  proof (cases "breakpoint ?i")
    case True
    then have "for_each (machine_step h) [] p = Some q" "q = p"
      using Suc.prems by (simp_all add: cont_loop_Suc Let_def del: cont_loop.simps)
    then show ?thesis using True Suc.prems(1) by (metis (full_types))
  next
    case False
    then obtain result r where r: "arm_step h (junk fuel) p = Some (Return result r)"
      "cont_loop h junk fuel ?i r result = Some (Stopped q e')"
      using Suc.prems
      by (cases "arm_step h (junk fuel) p"; cases "the (arm_step h (junk fuel) p)")
        (auto simp: cont_loop_Suc Let_def simp del: cont_loop.simps)
    then have step: "machine_step h (junk fuel) p = Some r" by (simp add: machine_step_def)
    then have "wf_core r" using machine.step_inv [OF Suc.prems(1)] by blast
    from Suc.IH [OF this r(2)] obtain js where "for_each (machine_step h) js r = Some q" "wf_core q"
      "fetches q \<longrightarrow> breakpoint (next_word q)" by blast
    then show ?thesis using step by (intro exI [of _ "junk fuel # js"]) simp
  qed
qed simp

text \<open>
  A run that ends at a breakpoint and meets none before is what a continue does, with any fuel
  beyond its length.
\<close>

lemma arm_step_junk: "wf_core p \<Longrightarrow> fetches p \<Longrightarrow> arm_step h j p = arm_step h k p"
  by (simp add: arm_step_def arm_execute_instruction_def arm_fetch_wf fetches_def)

inductive runs_to :: "host \<Rightarrow> arm_core \<Rightarrow> int \<Rightarrow> nat \<Rightarrow> arm_core \<Rightarrow> int \<Rightarrow> bool" for h where
  stop: "fetches p \<Longrightarrow> breakpoint (next_word p) \<Longrightarrow> runs_to h p e 0 p e"
| step: "fetches p \<Longrightarrow> \<not> breakpoint (next_word p) \<Longrightarrow> arm_step h 0 p = Some (Return result q)
    \<Longrightarrow> runs_to h q result n r e' \<Longrightarrow> runs_to h p e (Suc n) r e'"

inductive_cases runs_to_zeroE: "runs_to h p e 0 q e'"
inductive_cases runs_to_SucE: "runs_to h p e (Suc n) q e'"

lemma cont_loop_runs_to:
  assumes "runs_to h p e n q e'" "wf_core p" "n < fuel"
  shows "cont_loop h junk fuel i p e = Some (Stopped q e')"
  using assms
proof (induction arbitrary: fuel i rule: runs_to.induct)
  case (stop p e)
  then show ?case by (cases fuel) (simp_all add: cont_loop_Suc del: cont_loop.simps(2))
next
  case (step p result q n r e' e)
  from step.prems obtain f where f: "fuel = Suc f" "n < f" by (cases fuel) auto
  have s: "arm_step h (junk f) p = Some (Return result q)"
    using step.hyps(1,3) step.prems(1) arm_step_junk by metis
  then have "machine_step h (junk f) p = Some q" by (simp add: machine_step_def)
  then have "wf_core q" using machine.step_inv [OF step.prems(1)] by blast
  then show ?case using step f s by (simp add: cont_loop_Suc del: cont_loop.simps)
qed

section \<open>Every command keeps the server well-formed\<close>

lemma rio_writen_Served:
  "rio_writen g bs = Served g' \<longleftrightarrow>
    0 < writes_left g \<and> g' = g\<lparr>sent := sent g @ [bs], writes_left := writes_left g - 1\<rparr>"
  by (auto simp: rio_writen_def)

lemma gdb_transmit_packet_keeps:
  assumes "gdb_transmit_packet g = Some (Served g')"
  shows "arm g' = arm g" "packet g' = packet g" "gdb_len g' \<le> length (packet g)"
  using assms by (auto simp: gdb_transmit_packet_def rio_writen_Served split: if_splits)

lemma gdb_send_buffer_keeps:
  assumes "gdb_send_buffer g = Some (Served g')"
  shows "arm g' = arm g" "length (packet g') = length (packet g)" "gdb_len g' \<le> length (packet g)"
proof -
  obtain a s b c d where "aset (packet g) 0 0x24 = Some a" "aset a (1 + length s) 0x23 = Some b"
    "poke b (1 + length s + 1) (hex2 (sum_list s)) = Some c" "aset c (1 + length s + 1 + 2) 0 = Some d"
    and t: "gdb_transmit_packet (g\<lparr>packet := d, gdb_len := 1 + length s + 1 + 2\<rparr>) = Some (Served g')"
    using assms unfolding gdb_send_buffer_def Let_def Option.bind_eq_Some_conv by blast
  then have "length d = length (packet g)" using length_aset length_poke by metis
  then show "arm g' = arm g" "length (packet g') = length (packet g)" "gdb_len g' \<le> length (packet g)"
    using gdb_transmit_packet_keeps [OF t] by simp_all
qed

lemma gdb_send_data_keeps:
  assumes "gdb_send_data g s = Some (Served g')"
  shows "arm g' = arm g" "length (packet g') = length (packet g)" "gdb_len g' \<le> length (packet g)"
proof -
  obtain arr where arr: "poke (packet g) 1 s = Some arr" "gdb_send_buffer (g\<lparr>packet := arr\<rparr>) = Some (Served g')"
    using assms by (auto simp: gdb_send_data_def Option.bind_eq_Some_conv)
  then show "arm g' = arm g" "length (packet g') = length (packet g)" "gdb_len g' \<le> length (packet g)"
    using gdb_send_buffer_keeps [OF arr(2)] length_poke [OF arr(1)] by simp_all
qed

lemma gdb_send_stop_reason_keeps:
  assumes "gdb_send_stop_reason g = Some (Served g')"
  shows "arm g' = arm g" "length (packet g') = length (packet g)" "gdb_len g' \<le> length (packet g)"
  using assms by (auto simp: gdb_send_stop_reason_def dest: gdb_send_data_keeps split: if_splits)

definition keeps_gdb :: "service option \<Rightarrow> bool" where
  "keeps_gdb x \<longleftrightarrow> (\<forall>g'. x = Some (Served g') \<longrightarrow> wf_gdb g')"

lemma send_data_keeps: "wf_gdb g \<Longrightarrow> keeps_gdb (gdb_send_data g s)"
  by (auto simp: keeps_gdb_def wf_gdb_def dest: gdb_send_data_keeps)

lemma write_registers_at_length:
  "write_registers_at h p rs arr i = Some (arr', j) \<Longrightarrow> length arr' = length arr"
  by (induction rs arbitrary: arr i)
    (auto simp: Option.bind_eq_Some_conv write_uint32_eq length_poke)

lemma write_unavailable_length:
  "write_unavailable n arr i = Some (arr', j) \<Longrightarrow> length arr' = length arr"
  by (induction n arbitrary: arr i) (auto simp: Option.bind_eq_Some_conv length_poke)

lemma read_memory_loop_length:
  "read_memory_loop m n a arr i = Some arr' \<Longrightarrow> length arr' = length arr"
proof (induction n arbitrary: a arr i)
  case (Suc n)
  show ?case
  proof (cases "\<exists>v. memory_read_byte m a = Some (Granted v)")
    case True
    then obtain v b where "memory_read_byte m a = Some (Granted v)" "poke arr i (hex2 v) = Some b"
      "read_memory_loop m n (a + 1) b (i + 2) = Some arr'"
      using Suc.prems by (auto simp: Option.bind_eq_Some_conv)
    then show ?thesis using Suc.IH length_poke by metis
  next
    case False
    then show ?thesis using Suc.prems
      by (cases "memory_read_byte m a"; cases "the (memory_read_byte m a)") auto
  qed
qed simp

lemma read_registers_at_keeps:
  "wf_core p \<Longrightarrow> set rs \<subseteq> {..15} \<Longrightarrow> read_registers_at h junk rs data p = Some q \<Longrightarrow> wf_core q"
proof (induction rs arbitrary: data p)
  case (Cons r rs)
  then obtain v where v: "read_registers_at h junk rs (drop 8 data) (set_xreg p (word_of_nat r) v) = Some q"
    by (auto simp: Option.bind_eq_Some_conv core_simps reg_number)
  show ?case using Cons.prems by (intro Cons.IH [OF _ _ v]) simp_all
qed simp

lemma write_byte_keeps:
  "wf_core p \<Longrightarrow> memory_write_byte (core_mem p) a v = Some (c, m) \<Longrightarrow> wf_core (p\<lparr>core_mem := m\<rparr>)"
  by (auto simp: memory_write_byte_wf split: if_splits)

lemma write_binary_loop_keeps:
  "wf_core p \<Longrightarrow> write_binary_loop p n a content ok = Some (ok', q) \<Longrightarrow> wf_core q"
proof (induction n arbitrary: p a content ok)
  case (Suc n)
  show ?case
  proof (cases ok)
    case True
    then obtain v c m content' where "memory_write_byte (core_mem p) a v = Some (c, m)"
      "write_binary_loop (p\<lparr>core_mem := m\<rparr>) n (a + 1) content' (c = 0) = Some (ok', q)"
      using Suc.prems(2) by (auto simp: Option.bind_eq_Some_conv)
    then show ?thesis using Suc.IH write_byte_keeps [OF Suc.prems(1)] by blast
  qed (use Suc.prems in simp)
qed simp

text \<open>The answers of the commands that only build a packet.\<close>

lemma send_buffer_keeps:
  assumes "wf_gdb g" "length arr = length (packet g)"
  shows "keeps_gdb (gdb_send_buffer (g\<lparr>packet := arr\<rparr>))"
  using assms by (auto simp: keeps_gdb_def wf_gdb_def dest: gdb_send_buffer_keeps)

lemma keeps_gdb_bind:
  "(\<And>x. m = Some x \<Longrightarrow> keeps_gdb (f x)) \<Longrightarrow> keeps_gdb (m \<bind> f)"
  by (cases m) (auto simp: keeps_gdb_def)

lemma keeps_gdb_constants [simp]:
  "keeps_gdb None" "keeps_gdb (Some Aborted)" "keeps_gdb (Some (Exited c))"
  "keeps_gdb (Some Write_failed)" "keeps_gdb (Some Out_of_fuel)" "keeps_gdb (Some (Served g')) = wf_gdb g'"
  by (simp_all add: keeps_gdb_def)

lemma read_general_registers_keeps:
  assumes "wf_gdb g" shows "keeps_gdb (read_general_registers h g data)"
proof -
  have "keeps_gdb (gdb_send_buffer (g\<lparr>packet := a5\<rparr>))"
    if w: "write_registers_at h p rs (packet g) 1 = Some x" "write_uint32 h (fst x) i v = Some a2"
      "write_unavailable m a2 j = Some y" "write_unavailable n (fst y) k = Some z"
      "write_uint32 h (fst z) l w = Some a5" for p rs x i v a2 m j y n k z l w a5
  proof (rule send_buffer_keeps [OF assms])
    show "length a5 = length (packet g)"
      using w write_registers_at_length [of h p rs "packet g" 1 "fst x" "snd x"]
        write_unavailable_length [of m a2 j "fst y" "snd y"] write_unavailable_length [of n "fst y" k "fst z" "snd z"]
        length_poke [of "fst x" i "hex_word v" a2] length_poke [of "fst z" l "hex_word w" a5]
      by (simp add: write_uint32_eq)
  qed
  then show ?thesis
    unfolding read_general_registers_def Let_def split_beta
    by (intro keeps_gdb_bind) blast
qed

lemma read_memory_keeps:
  assumes "wf_gdb g" shows "keeps_gdb (read_memory junk g data)"
proof -
  have "length arr' = length (packet g)"
    if "aset (packet g) 1 0 = Some arr" "read_memory_loop m n a arr 1 = Some arr'" for m n a arr arr'
    using length_aset [OF that(1)] read_memory_loop_length [OF that(2)] by simp
  then show ?thesis
    unfolding read_memory_def Let_def split_beta
    by (intro keeps_gdb_bind send_buffer_keeps [OF assms])
qed

lemma read_register_command_keeps:
  assumes "wf_gdb g" shows "keeps_gdb (read_register_command h g data)"
proof -
  have "keeps_gdb (do { value \<leftarrow> arm_read_register (arm g) r;
      arr \<leftarrow> write_uint32 h (packet g) 1 (value - k); gdb_send_buffer (g\<lparr>packet := arr\<rparr>) })" for r k
    unfolding write_uint32_eq
    by (intro keeps_gdb_bind send_buffer_keeps [OF assms]) (rule length_poke)
  then show ?thesis
    unfolding read_register_command_def Let_def
    by (intro keeps_gdb_bind) simp
qed

lemma arm_update_keeps: "wf_gdb g \<Longrightarrow> wf_core p \<Longrightarrow> wf_gdb (g\<lparr>arm := p\<rparr>)"
  by (simp add: wf_gdb_def)


lemma stop_reason_keeps:
  assumes "wf_gdb g" shows "keeps_gdb (gdb_send_stop_reason g)"
  using assms by (auto simp: keeps_gdb_def wf_gdb_def dest: gdb_send_stop_reason_keeps)

lemma write_general_registers_keeps:
  assumes "wf_gdb g" shows "keeps_gdb (write_general_registers h junk g data)"
proof -
  have wf: "wf_core (arm g)" using assms by (simp add: wf_gdb_def)
  have "wf_core q" if "read_registers_at h junk [0..<16] data (arm g) = Some p"
    "arm_write_cpsr p v = Some q" for p q v
  proof -
    have "wf_core p" using read_registers_at_keeps [OF wf _ that(1)] by fastforce
    then show ?thesis using that(2) by (auto simp: core_simps)
  qed
  then show ?thesis
    unfolding write_general_registers_def
    by (intro keeps_gdb_bind send_data_keeps arm_update_keeps [OF assms])
qed

lemma write_memory_binary_keeps:
  assumes "wf_gdb g" shows "keeps_gdb (write_memory_binary junk g data)"
proof -
  have wf: "wf_core (arm g)" using assms by (simp add: wf_gdb_def)
  have "keeps_gdb (case x of (ok, p) \<Rightarrow>
      (if ok then gdb_send_data (g\<lparr>arm := p\<rparr>) s else gdb_send_data (g\<lparr>arm := p\<rparr>) t))"
    if "write_binary_loop (arm g) n a content ok = Some x" for x n a content ok s t
  proof -
    obtain ok' p where x: "x = (ok', p)" by (cases x)
    have "wf_gdb (g\<lparr>arm := p\<rparr>)"
      using that write_binary_loop_keeps [OF wf] arm_update_keeps [OF assms] x by blast
    then show ?thesis using x by (simp add: send_data_keeps)
  qed
  then show ?thesis
    unfolding write_memory_binary_def Let_def
    by (simp only: split_beta) (intro keeps_gdb_bind, simp add: split_beta)
qed

lemma write_register_command_keeps:
  assumes "wf_gdb g" shows "keeps_gdb (write_register_command h junk g data)"
proof -
  have wf: "wf_core (arm g)" using assms by (simp add: wf_gdb_def)
  have "keeps_gdb (do { p \<leftarrow> arm_write_register (arm g) (ucast r) v;
      gdb_send_data (g\<lparr>arm := p\<rparr>) s })" if "r < 16" for r :: u32 and v s
  proof (rule keeps_gdb_bind)
    fix p assume p: "arm_write_register (arm g) (ucast r) v = Some p"
    have "unat (ucast r :: u8) = unat r"
      using that by (simp add: unsigned_ucast_eq take_bit_nat_eq_self word_less_nat_alt)
    then have "(ucast r :: u8) \<le> 15" using that by (simp add: u8_le_15 word_less_nat_alt)
    then have "wf_core p" using p wf by (auto simp: core_simps)
    then show "keeps_gdb (gdb_send_data (g\<lparr>arm := p\<rparr>) s)"
      by (intro send_data_keeps arm_update_keeps [OF assms])
  qed
  then show ?thesis
    unfolding write_register_command_def Let_def
    by (intro keeps_gdb_bind) simp
qed

lemma step_command_keeps:
  assumes "wf_gdb g" shows "keeps_gdb (step_command h junk g data)"
proof -
  have wf: "wf_core (arm g)" using assms by (simp add: wf_gdb_def)
  have "keeps_gdb (case x of Exit code \<Rightarrow> Some (Exited code)
     | Return result p \<Rightarrow> gdb_send_stop_reason (g\<lparr>arm := p, target_exception := result\<rparr>))"
    if "arm_step h (junk 0) (arm g) = Some x" for x
  proof (cases x)
    case (Return result p)
    then have "machine_step h (junk 0) (arm g) = Some p" using that by (simp add: machine_step_def)
    then have "wf_core p" by (rule machine.step_inv [OF wf])
    then have "wf_gdb (g\<lparr>arm := p, target_exception := result\<rparr>)" using assms by (simp add: wf_gdb_def)
    then show ?thesis using Return by (simp add: stop_reason_keeps)
  qed simp
  then show ?thesis unfolding step_command_def by (intro keeps_gdb_bind)
qed

lemma cont_keeps:
  assumes "wf_gdb g" shows "keeps_gdb (cont h junk fuel g data)"
proof -
  have wf: "wf_core (arm g)" using assms by (simp add: wf_gdb_def)
  have "keeps_gdb (case x of Cont_fuel \<Rightarrow> Some Out_of_fuel | Cont_exit code \<Rightarrow> Some (Exited code)
     | Stopped p e \<Rightarrow> gdb_send_stop_reason (g\<lparr>arm := p, target_exception := e\<rparr>))"
    if "cont_loop h junk fuel i (arm g) e0 = Some x" for x i e0
  proof (cases x)
    case (Stopped p e)
    then have "wf_core p" using cont_loop_stopped [OF wf] that by blast
    then have "wf_gdb (g\<lparr>arm := p, target_exception := e\<rparr>)" using assms by (simp add: wf_gdb_def)
    then show ?thesis using Stopped by (simp add: stop_reason_keeps)
  qed simp_all
  then show ?thesis unfolding cont_def by (intro keeps_gdb_bind)
qed

lemma query_keeps: "wf_gdb g \<Longrightarrow> keeps_gdb (query g data)"
  unfolding query_def by (intro keeps_gdb_bind) (simp add: send_data_keeps)

lemma set_thread_keeps: "wf_gdb g \<Longrightarrow> keeps_gdb (set_thread g data)"
  unfolding set_thread_def by (intro keeps_gdb_bind) (simp add: send_data_keeps)

lemma handle_command_keeps:
  assumes "wf_gdb g" shows "keeps_gdb (handle_command h junk fuel c g data)"
  using assms
  by (cases c) (simp_all add: handle_command_def cont_keeps query_keeps read_general_registers_keeps
      read_memory_keeps read_register_command_keeps set_thread_keeps step_command_keeps
      write_general_registers_keeps write_memory_binary_keeps write_register_command_keeps
      reason_def stop_reason_keeps kill_request_def, simp add: wf_gdb_def)

lemma rio_writen_keeps: "wf_gdb g \<Longrightarrow> keeps_gdb (Some (rio_writen g bs))"
  by (simp add: rio_writen_def wf_gdb_def)

lemma after_service_keeps:
  "keeps_gdb (Some x) \<Longrightarrow> (\<And>g. wf_gdb g \<Longrightarrow> keeps_gdb (f g)) \<Longrightarrow> keeps_gdb (after_service x f)"
  by (cases x) (simp_all add: after_service_def)

lemma gdb_packet_analysis_keeps:
  assumes "wf_gdb g" shows "keeps_gdb (gdb_packet_analysis h junk fuel g bytes)"
proof -
  have "keeps_gdb (case gdb_init i of Some c \<Rightarrow> handle_command h junk fuel c g d
      | None \<Rightarrow> gdb_send_data g [])" if "wf_gdb g" for g i d
    using that by (auto split: option.split intro: handle_command_keeps send_data_keeps)
  then show ?thesis
    unfolding gdb_packet_analysis_def Let_def gdb_send_ack_def gdb_require_retransmission_def
    by (intro keeps_gdb_bind) (simp add: rio_writen_keeps assms,
      intro impI after_service_keeps keeps_gdb_bind rio_writen_keeps assms)
qed

section \<open>Packets as the client writes them\<close>

lemma frame_analysis:
  "gdb_packet_analysis h junk fuel g (frame s)
    = after_service (gdb_send_ack g) (\<lambda>g. dispatch h junk fuel g s (hex2 (sum_list s) @ [0]))"
  unfolding frame_def gdb_packet_analysis_eq by simp

text \<open>Numbers as hexadecimal text.\<close>

definition digits_value :: "u8 list \<Rightarrow> nat" where
  "digits_value ds = foldl (\<lambda>n d. 16 * n + unat d) 0 ds"

lemma hex_number_digits:
  assumes "\<forall>d \<in> set ds. d \<le> 15" "rest = [] \<or> hex_value (hd rest) = None"
  shows "hex_number (map hex_digit ds @ rest) n = (foldl (\<lambda>n d. 16 * n + unat d) n ds, rest)"
  using assms
proof (induction ds arbitrary: n)
  case Nil
  then show ?case by (cases rest) auto
qed (simp add: hex_digit_facts)

lemma scan_hex_digits:
  assumes "ds \<noteq> []" "\<forall>d \<in> set ds. d \<le> 15" "rest = [] \<or> hd rest \<in> {0x2c, 0x3a}"
    and "w = length (map hex_digit ds @ rest)" "digits_value ds < 2 ^ 64"
  shows "scan_hex w (map hex_digit ds @ rest) = Some (word_of_nat (digits_value ds), rest)"
proof -
  obtain d es where d: "ds = d # es" "d \<le> 15" using assms(1,2) by (cases ds) auto
  have "scan_prefix (map hex_digit ds @ rest) = map hex_digit ds @ rest"
  proof (cases "es @ rest")
    case Nil
    then show ?thesis using d by (simp add: scan_prefix_def)
  next
    case (Cons e xs)
    then have "\<exists>c cs. map hex_digit es @ rest = c # cs \<and> c \<noteq> 0x78 \<and> c \<noteq> 0x58"
    proof (cases es)
      case Nil
      then show ?thesis using assms(3) \<open>es @ rest = e # xs\<close> by (cases rest) auto
    next
      case (Cons f fs)
      then have "f \<le> 15" using assms(2) d by simp
      then show ?thesis using Cons hex_digit_facts(4) [of f] by auto
    qed
    then show ?thesis using d by (auto simp: scan_prefix_def)
  qed
  moreover have "rest = [] \<or> hex_value (hd rest) = None" using assms(3) by (auto simp: hex_value_def)
  then have "hex_number (map hex_digit ds @ rest) 0 = (digits_value ds, rest)"
    using hex_number_digits [OF assms(2)] by (simp add: digits_value_def)
  moreover have "dropWhile is_space (map hex_digit ds @ rest) = map hex_digit ds @ rest"
    "scan_sign (map hex_digit ds @ rest) = (False, map hex_digit ds @ rest)"
    using d hex_digit_facts [OF d(2)] by (auto simp: scan_sign_def)
  ultimately show ?thesis
    using assms(1,4,5) by (simp add: scan_hex_def)
qed

lemma scan_address_size_digits:
  assumes "as \<noteq> []" "\<forall>d \<in> set as. d \<le> 15" "ns \<noteq> []" "\<forall>d \<in> set ns. d \<le> 15"
    and "rest = [] \<or> hd rest = 0x3a" "digits_value as < 2 ^ 64" "digits_value ns < 2 ^ 64"
  shows "scan_address_size junk (map hex_digit as @ [0x2c] @ map hex_digit ns @ rest)
    = (word_of_nat (digits_value as), word_of_nat (digits_value ns))"
proof -
  let ?t = "map hex_digit ns @ rest"
  have "scan_hex (length (map hex_digit as @ [0x2c] @ ?t)) (map hex_digit as @ [0x2c] @ ?t)
    = Some (word_of_nat (digits_value as), [0x2c] @ ?t)"
    using assms by (intro scan_hex_digits) auto
  moreover have "scan_hex (length ?t) ?t = Some (word_of_nat (digits_value ns), rest)"
    using assms by (intro scan_hex_digits) auto
  ultimately show ?thesis by (simp add: scan_address_size_def)
qed

lemma zero_hex_digits: "\<forall>d \<in> set ds. d \<le> 15 \<Longrightarrow> 0 \<notin> set (map hex_digit ds)"
  "\<forall>d \<in> set ds. d \<le> 15 \<Longrightarrow> 0x3a \<notin> set (map hex_digit ds)"
  using hex_digit_facts by fastforce+

end
