(* ===== verification/GdbProperties.thy ===== *)
theory GdbProperties
  imports Gdb InstructionProperties
begin

text \<open>
  The properties of the gdb server: framing, the register and memory commands, stepping and
  continuing.  The witnesses run on \<open>demo_gdb\<close>, the server of \<open>demo_core\<close>.
\<close>

definition demo_gdb :: gdb_data where
  "demo_gdb = \<lparr>arm = demo_core, target_exception = 0, packet = replicate 1024 0, gdb_len = 0,
     sent = [], writes_left = 9\<rparr>"

lemma demo_gdb_simps [simp]:
  "wf_gdb demo_gdb" "arm demo_gdb = demo_core" "sent demo_gdb = []" "writes_left demo_gdb = 9"
  by (simp_all add: demo_gdb_def wf_gdb_def)

text \<open>The server after the acknowledgement.\<close>

definition acked :: "gdb_data \<Rightarrow> gdb_data" where
  "acked g = g\<lparr>sent := sent g @ [ascii ''+''], writes_left := writes_left g - 1\<rparr>"

lemma gdb_send_ack_eq: "gdb_send_ack g = (if writes_left g = 0 then Write_failed else Served (acked g))"
  by (simp add: gdb_send_ack_def rio_writen_def acked_def)

lemma acked_facts [simp]:
  "wf_gdb (acked g) = wf_gdb g" "arm (acked g) = arm g" "sent (acked g) = sent g @ [ascii ''+'']"
  "target_exception (acked g) = target_exception g" "packet (acked g) = packet g"
  "gdb_len (acked g) = gdb_len g"
  "writes_left (acked g) = writes_left g - 1"
  by (simp_all add: acked_def wf_gdb_def)

lemma serving_acked: "serving 2 g \<Longrightarrow> serving 1 (acked g) \<and> 0 < writes_left g \<and> Suc 0 < writes_left g"
  by (auto simp: serving_def)

text \<open>A framed command reaches its handler, with the arguments as a string.\<close>

lemma command_dispatch:
  assumes "gdb_init c = Some command" "0 < writes_left g"
  shows "gdb_packet_analysis h junk fuel g (frame (c # args)) = handle_command h junk fuel command
    (acked g) (args @ 0 # hex2 (sum_list (c # args)) @ [0])"
  using assms by (simp add: frame_analysis dispatch_def gdb_send_ack_eq after_service_def)

lemma gdb_letters [simp]:
  "gdb_init 0x67 = Some Read_general_registers" "gdb_init 0x47 = Some Write_general_registers"
  "gdb_init 0x6d = Some Read_memory" "gdb_init 0x58 = Some Write_memory_binary"
  "gdb_init 0x70 = Some Read_register" "gdb_init 0x63 = Some Cont" "gdb_init 0x73 = Some Step"
  by (simp_all add: gdb_init_def)

section \<open>Packets\<close>

text \<open>C14: On a connection that takes no more writes a packet ends the process.  Otherwise a packet whose two
  digits are not the sum of its bytes is answered by \<open>-\<close> and has no
  effect, and any other one is acknowledged by \<open>+\<close> and its first byte selects the handler, which
  gets the bytes that follow, or is answered by an empty packet when there is none.\<close>

theorem packet_framing:
  "gdb_packet_analysis h junk fuel g ([0x24] @ s @ [0x23] @ hex2 b) =
    (if writes_left g = 0 then Some Write_failed
     else if b \<noteq> sum_list s then
       Some (Served (g\<lparr>sent := sent g @ [ascii ''-''], writes_left := writes_left g - 1\<rparr>))
     else let g = g\<lparr>sent := sent g @ [ascii ''+''], writes_left := writes_left g - 1\<rparr> in
       case s of [] \<Rightarrow> gdb_send_data g []
       | c # args \<Rightarrow> (case gdb_init c of
           Some command \<Rightarrow> handle_command h junk fuel command g (args @ 0 # hex2 b @ [0])
         | None \<Rightarrow> gdb_send_data g []))"
  unfolding gdb_packet_analysis_eq
  by (simp add: dispatch_def gdb_send_ack_def gdb_require_retransmission_def rio_writen_def after_service_def Let_def
      cong: list.case_cong option.case_cong)

section \<open>Registers\<close>

text \<open>The packet \<open>g\<close> is answered by the registers r0 to r14, the address of the next instruction,
  twenty-five words marked unavailable and the CPSR, in big-endian hexadecimal; the core is
  unchanged.\<close>

lemma read_registers_packet:
  assumes "serving 2 g"
  shows "\<exists>g'. gdb_packet_analysis h junk fuel g (frame (ascii ''g'')) = Some (Served g')
    \<and> arm g' = arm g \<and> sent g' = sent g @ [ascii ''+'', frame (registers_payload (arm g))]"
  using read_general_registers_wf [of "acked g" h] serving_acked [OF assms]
  by (simp add: ascii_def command_dispatch handle_command_def after_send_def)
    (metis append.assoc append_Cons append_Nil)


lemma cpsr_load_list [simp]: "cpsr (load_list rvs p) = cpsr p"
  by (induction rvs arbitrary: p) (auto simp: load_list_def)



text \<open>The command \<open>p\<close> reads its register number in decimal although the client writes it in
  hexadecimal: \<open>pf\<close>, which asks for r15, is answered by the value of r0.\<close>

lemma read_register_is_decimal:
  assumes "serving 2 g"
  shows "\<exists>g'. gdb_packet_analysis h junk fuel g (frame (ascii ''pf'')) = Some (Served g')
    \<and> arm g' = arm g \<and> sent g' = sent g @ [ascii ''+'', frame (hex_word (xreg (arm g) 0))]"
proof -
  have wf: "wf_core (arm g)" "length (packet g) = 1024" using assms by (simp_all add: wf_gdb_def serving_def)
  have "c_string (0x66 # 0 # t) = Some [0x66]" for t by (simp add: c_string_def)
  moreover have "atoi [0x66] = Some 0"
    by (simp add: atoi_def is_space_def scan_sign_def dec_value_def Let_def)
  moreover obtain arr where arr: "poke (packet g) 1 (hex_word (xreg (arm g) 0)) = Some arr"
    using wf(2) by (auto simp: poke_def)
  ultimately have "read_register_command h (acked g) (0x66 # 0 # t)
      = gdb_send_buffer ((acked g)\<lparr>packet := arr\<rparr>)" for t
    using wf(1) by (simp add: read_register_command_def core_simps write_uint32_eq rval_def)
  then show ?thesis
    using gdb_send_buffer_poked [of "hex_word (xreg (arm g) 0)" "acked g" arr] arr wf(2) serving_acked [OF assms]
    by (auto simp: ascii_def command_dispatch handle_command_def after_send_def serving_def)
qed

section \<open>Memory\<close>

definition range_text :: "u8 list \<Rightarrow> u8 list \<Rightarrow> u8 list" where
  "range_text as ns = map hex_digit as @ [0x2c] @ map hex_digit ns"

text \<open>C18: The command \<open>m\<close> with an address and a length in hexadecimal, for a range that lies in the memory and on a
  connection that takes the two writes of the answer, is answered by the bytes of the
  memory, up to a length of 509.  From 510 on the answer does not fit in the packet buffer and
  the write outside it is undefined, although the server advertises
  packets of \<open>0x400\<close> bytes.\<close>

theorem read_memory_packet:
  assumes "serving 2 g" "as \<noteq> []" "\<forall>d \<in> set as. d \<le> 15" "ns \<noteq> []" "\<forall>d \<in> set ns. d \<le> 15"
    and "digits_value as + digits_value ns \<le> length (mem_data (core_mem (arm g)))"
  shows "(digits_value ns \<le> 509 \<longrightarrow> (\<exists>g'. gdb_packet_analysis h junk fuel g
        (frame (ascii ''m'' @ range_text as ns)) = Some (Served g') \<and> arm g' = arm g
      \<and> sent g' = sent g @ [ascii ''+'', frame (hex_bytes (take (digits_value ns)
          (drop (digits_value as) (mem_data (core_mem (arm g))))))]))
    \<and> (510 \<le> digits_value ns \<longrightarrow>
        gdb_packet_analysis h junk fuel g (frame (ascii ''m'' @ range_text as ns)) = None)"
proof -
  let ?a = "word_of_nat (digits_value as) :: u32" and ?n = "word_of_nat (digits_value ns) :: u32"
  let ?t = "hex2 (sum_list (0x6d # range_text as ns)) @ [0]"
  have "wf_memory (core_mem (arm g))" using assms(1) by (simp add: wf_gdb_def serving_def)
  then have len: "length (mem_data (core_mem (arm g))) < 2 ^ 32"
    using unat_u32_less [of "mem_size (core_mem (arm g))"] by (simp add: wf_memory_def)
  then have u: "unat ?a = digits_value as" "unat ?n = digits_value ns"
    using assms(6) by (simp_all add: unat_of_nat)
  have s: "c_string (range_text as ns @ 0 # ?t) = Some (range_text as ns)"
    using zero_hex_digits assms by (intro c_string_append) (simp add: range_text_def)
  have scan: "scan_address_size junk (range_text as ns) = (?a, ?n)"
    using scan_address_size_digits [OF assms(2-5), of "[]"] len assms(6) by (simp add: range_text_def)
  have "gdb_packet_analysis h junk fuel g (frame (ascii ''m'' @ range_text as ns))
      = read_memory junk (acked g) (range_text as ns @ 0 # ?t)"
    using serving_acked [OF assms(1)] by (simp add: ascii_def command_dispatch handle_command_def)
  then show ?thesis
    using read_memory_wf [of "acked g", OF _ s scan] serving_acked [OF assms(1)] assms(6) u
    by (auto simp: after_send_def memory_bytes_def)
qed

theorem read_memory_packet_witness:
  "\<exists>g'. gdb_packet_analysis demo_host (\<lambda>_. 0) 0 demo_gdb (frame (ascii ''m4,2'')) = Some (Served g')
    \<and> sent g' = [ascii ''+'', frame (ascii ''0405'')]"
proof -
  have "ascii ''m'' @ range_text [4] [2] = ascii ''m4,2''" "ascii ''0405'' = hex_bytes [4, 5]"
    "take 2 (drop 4 (mem_data demo_memory)) = [4, 5]" "length (mem_data demo_memory) = 16"
    by (simp_all add: ascii_def range_text_def hex_digit_def hex2_def demo_memory_def)
  then show ?thesis
    using read_memory_packet [of demo_gdb "[4]" "[2]" demo_host "\<lambda>_. 0" 0]
    by (auto simp: digits_value_def serving_def)
qed

lemma takeWhile_prefix:
  "c \<notin> set xs \<Longrightarrow> takeWhile (\<lambda>b. b \<noteq> c) (xs @ c # ys) = xs"
  by (induction xs) auto

text \<open>The size of the memory is sign-extended: that does not make it smaller.\<close>

lemma size_extended:
  assumes "a < mem_size m" shows "(ucast a :: u64) < memory_get_size m"
proof -
  have "ucast (mem_size m) = (scast (mem_size m) :: u64) AND mask 32"
  proof (rule bit_word_eqI)
    fix n assume "n < LENGTH(64)"
    then show "bit (ucast (mem_size m) :: u64) n = bit ((scast (mem_size m) :: u64) AND mask 32) n"
      by (cases "n = 31") (auto simp: bit_simps min_def dest: bit_imp_le_length)
  qed
  then have "(ucast (mem_size m) :: u64) \<le> scast (mem_size m)" by (simp add: word_and_le2)
  moreover have "take_bit 64 (unat x) = unat x" for x :: u32
    using unat_u32_less [of x] by (intro take_bit_nat_eq_self) simp
  then have "(ucast a :: u64) < ucast (mem_size m)"
    using assms by (simp add: word_less_nat_alt unsigned_ucast_eq)
  ultimately show ?thesis by (simp add: memory_get_size_def)
qed

text \<open>C17: The command \<open>X\<close> stores the escaped bytes at the address, all of them and nothing else, and
  answers \<open>OK\<close>, when the range lies in the memory and the connection takes the two writes of the answer.\<close>

theorem write_memory_packet:
  assumes "serving 2 g" "as \<noteq> []" "\<forall>d \<in> set as. d \<le> 15" "ns \<noteq> []" "\<forall>d \<in> set ns. d \<le> 15"
    and "digits_value ns = length bs" "bs \<noteq> []" "old = mem_data (core_mem (arm g))"
    and "digits_value as + length bs \<le> length old"
  shows "\<exists>g'. gdb_packet_analysis h junk fuel g
      (frame (ascii ''X'' @ range_text as ns @ ascii '':'' @ escaped bs)) = Some (Served g')
    \<and> mem_data (core_mem (arm g')) =
        take (digits_value as) old @ bs @ drop (digits_value as + length bs) old
    \<and> core_regs (arm g') = core_regs (arm g) \<and> sent g' = sent g @ [ascii ''+'', frame (ascii ''OK'')]"
proof -
  let ?a = "word_of_nat (digits_value as) :: u32" and ?n = "word_of_nat (digits_value ns) :: u32"
  let ?s = "0x58 # range_text as ns @ 0x3a # escaped bs"
  let ?t = "hex2 (sum_list ?s) @ [0]" and ?g = "acked g" and ?m = "core_mem (arm g)"
  let ?data = "range_text as ns @ 0x3a # (escaped bs @ 0 # ?t)"
  have wf: "wf_core (arm g)" "wf_memory ?m" "length (packet g) = 1024"
    using assms(1) by (simp_all add: wf_gdb_def serving_def)
  have len: "length old = unat (mem_size ?m)" using wf(2) assms(8) by (simp add: wf_memory_def)
  then have u: "unat ?a = digits_value as" "unat ?n = length bs"
    using assms(6,9) unat_u32_less [of "mem_size ?m"] by (simp_all add: unat_of_nat)
  have z: "0 \<notin> set (range_text as ns)" "0x3a \<notin> set (range_text as ns)"
    using zero_hex_digits assms(3,5) by (simp_all add: range_text_def)
  let ?w = "takeWhile (\<lambda>b. b \<noteq> 0) (escaped bs @ 0 # ?t)"
  have s: "c_string ?data = Some (range_text as ns @ 0x3a # ?w)"
    using c_string_append(2) [OF z(1), of "0x3a # escaped bs @ 0 # ?t"] by simp
  have scan: "scan_address_size junk (range_text as ns @ 0x3a # ?w) = (?a, ?n)"
    using scan_address_size_digits [OF assms(2-5), of "0x3a # ?w"] assms(6,9) len unat_u32_less [of "mem_size ?m"]
    by (simp add: range_text_def)
  have content: "after_char 0x3a ?data = Some (escaped bs @ 0 # ?t)"
    unfolding after_char_def s by (simp add: takeWhile_prefix [OF z(2)])
  have less: "(ucast ?a :: 64 word) < memory_get_size ?m"
  proof (rule size_extended)
    have "0 < length bs" using assms(7) by simp
    then have "unat ?a < unat (mem_size ?m)" unfolding u using assms(9) len by linarith
    then show "?a < mem_size ?m" by (simp only: word_less_nat_alt)
  qed
  let ?p = "(arm g)\<lparr>core_mem := set_bytes ?m (digits_value as) bs\<rparr>"
  have loop: "write_binary_loop (arm g) (unat ?n) ?a (escaped bs @ 0 # ?t) True = Some (True, ?p)"
    using write_binary_loop_eq [OF wf(2), of ?a bs "0 # ?t"] assms(8,9) u by simp
  have "write_memory_binary junk ?g ?data = gdb_send_data (?g\<lparr>arm := ?p\<rparr>) (ascii ''OK'')"
    unfolding write_memory_binary_def s scan content Option.bind.simps Let_def prod.case
    using less loop by simp
  moreover have "gdb_packet_analysis h junk fuel g (frame ?s) = write_memory_binary junk ?g ?data"
    using serving_acked [OF assms(1)] by (simp add: command_dispatch handle_command_def)
  moreover obtain g' where "gdb_send_data (?g\<lparr>arm := ?p\<rparr>) (ascii ''OK'') = Some (Served g')"
    "after_send (?g\<lparr>arm := ?p\<rparr>) (ascii ''OK'') g'"
    using gdb_send_data_wf [of "ascii ''OK''" "?g\<lparr>arm := ?p\<rparr>"] wf(3) ok_string assms(1)
    by (auto simp: serving_def)
  ultimately show ?thesis
    using assms(8,9) by (auto simp: ascii_def after_send_def set_bytes_def)
qed

theorem write_memory_packet_witness:
  "\<exists>g'. gdb_packet_analysis demo_host (\<lambda>_. 0) 0 demo_gdb
      (frame (ascii ''X'' @ range_text [1] [2] @ ascii '':'' @ [0x7d, 0x03, 0x61])) = Some (Served g')
    \<and> mem_data (core_mem (arm g')) = [0, 0x23, 0x61, 3, 4, 5, 6, 7, 8, 9, 10, 11, 12, 13, 14, 15]"
proof -
  have "escaped [0x23, 0x61] = [0x7d, 0x03, 0x61]" "digits_value [1] = 1" "digits_value [2] = 2"
    "length (mem_data demo_memory) = 16"
    "take 1 (mem_data demo_memory) @ [0x23, 0x61] @ drop 3 (mem_data demo_memory)
      = [0, 0x23, 0x61, 3, 4, 5, 6, 7, 8, 9, 10, 11, 12, 13, 14, 15]"
    by (simp_all add: digits_value_def demo_memory_def)
  then show ?thesis
    using write_memory_packet [of demo_gdb "[1]" "[2]" "[0x23, 0x61]" "mem_data demo_memory" demo_host "\<lambda>_. 0" 0]
    by (auto simp: demo_memory_def serving_def)
qed

section \<open>Running\<close>

definition stop_code :: "int \<Rightarrow> u8 list" where
  "stop_code e = ascii (if e = UNDEFINED_INSTRUCTION then ''S04''
     else if e = PREFETCH_ABORT \<or> e = DATA_ABORT then ''S10'' else ''S05'')"

lemma stop_reason_wf:
  assumes "length (packet g) = 1024" "0 < writes_left g"
  shows "\<exists>g'. gdb_send_stop_reason g = Some (Served g') \<and> after_send g (stop_code (target_exception g)) g'"
proof -
  have "0 \<notin> set (stop_code e)" "length (stop_code e) = 3" for e
    by (simp_all add: stop_code_def ascii_def)
  then have "\<exists>g'. gdb_send_data g (stop_code (target_exception g)) = Some (Served g')
      \<and> after_send g (stop_code (target_exception g)) g'"
    using assms by (intro gdb_send_data_wf) simp_all
  then show ?thesis by (auto simp: gdb_send_stop_reason_def stop_code_def)
qed

text \<open>The command \<open>s\<close> makes exactly one step of the core and answers by the signal of the code the
  step returned: S04 for an undefined instruction, S10 for an abort, S05 otherwise.\<close>

lemma step_packet:
  assumes "serving 2 g" "arm_step h (junk 0) (arm g) = Some (Return result q)"
  shows "\<exists>g'. gdb_packet_analysis h junk fuel g (frame (ascii ''s'')) = Some (Served g') \<and> arm g' = q
    \<and> target_exception g' = result \<and> sent g' = sent g @ [ascii ''+'', frame (stop_code result)]"
proof -
  let ?g = "(acked g)\<lparr>arm := q, target_exception := result\<rparr>"
  obtain g' where "gdb_send_stop_reason ?g = Some (Served g')" "after_send ?g (stop_code result) g'"
    using stop_reason_wf [of ?g] assms(1) by (auto simp: wf_gdb_def serving_def)
  then show ?thesis using assms(2) serving_acked [OF assms(1)]
    by (auto simp: ascii_def command_dispatch handle_command_def step_command_def after_send_def)
qed

lemma continue_run:
  assumes "serving 2 g" "runs_to h (arm g) (target_exception g) n q e" "n < fuel"
  shows "\<exists>g'. gdb_packet_analysis h junk fuel g (frame (ascii ''c'')) = Some (Served g') \<and> arm g' = q
    \<and> sent g' = sent g @ [ascii ''+'', frame (stop_code e)]"
proof -
  let ?g = "(acked g)\<lparr>arm := q, target_exception := e\<rparr>"
  obtain g' where g': "gdb_send_stop_reason ?g = Some (Served g')" "after_send ?g (stop_code e) g'"
    using stop_reason_wf [of ?g] assms(1) by (auto simp: wf_gdb_def serving_def)
  have "cont_loop h junk fuel (junk fuel) (arm g) (target_exception g) = Some (Stopped q e)"
    using assms by (intro cont_loop_runs_to) (simp_all add: wf_gdb_def serving_def)
  then show ?thesis using g' serving_acked [OF assms(1)]
    by (auto simp: ascii_def command_dispatch handle_command_def cont_def after_send_def)
qed

text \<open>C15: The command \<open>c\<close> ends: when the steps from the core reach a breakpoint instruction after \<open>n\<close>
  steps, all of them fetched, any fuel beyond \<open>n\<close> lets it stop there, without executing the
  breakpoint, and answer by the signal of the last step, on a connection that takes the two writes of the answer.\<close>

theorem continue_reaches_breakpoint:
  assumes "serving 2 g" "runs_to h (arm g) (target_exception g) n q e" "n < fuel"
  shows "\<exists>g'. gdb_packet_analysis h junk fuel g (frame (ascii ''c'')) = Some (Served g') \<and> arm g' = q
    \<and> sent g' = sent g @ [ascii ''+'', frame (stop_code e)]"
  using assms by (rule continue_run)

theorem continue_reaches_breakpoint_witness:
  "\<exists>g'. gdb_packet_analysis demo_host (\<lambda>_. 0) 5 (demo_gdb\<lparr>arm := set_word demo_core 4 0xE7F001F0\<rparr>)
      (frame (ascii ''c'')) = Some (Served g') \<and> xreg (arm g') 15 = 4"
proof -
  let ?p = "set_word demo_core 4 0xE7F001F0"
  have w: "word_ok demo_memory 0" "word_ok demo_memory 4" "word_at demo_memory 0 = 0x00010203"
    "\<not> condition_holds (drop_bit 28 0x00010203) False False False False"
    "\<not> bit (0x1D3 :: u32) 30" "breakpoint 0xE7F001F0" "\<not> breakpoint 0x00010203" "4 dvd (4 :: nat)"
    by code_simp+
  have m: "word_at (core_mem ?p) 0 = 0x00010203" "word_at (core_mem ?p) 4 = 0xE7F001F0"
    using w word_at_set_other [of demo_memory 4 0 "word_bytes True 0xE7F001F0"]
    by (simp_all add: stored_word) (simp add: set_word_def demo_memory_def)
  have f: "fetch_address ?p = 0" "fetch_address (fetched ?p) = 4"
    using w by (simp_all add: fetch_address_aligned)
  have "arm_step demo_host 0 ?p = Some (Return 0 (fetched ?p))"
    using w m f by (simp add: arm_step_def arm_execute_instruction_wf current_instruction_def
      fetch_code_def instruction_passes_def)
  moreover have "runs_to demo_host (fetched ?p) 0 0 (fetched ?p) 0"
    using w m f by (intro runs_to.stop) (simp_all add: fetches_def)
  ultimately have "runs_to demo_host ?p 0 (Suc 0) (fetched ?p) 0"
    using w m f by (intro runs_to.step) (simp_all add: fetches_def)
  then show ?thesis
    using continue_reaches_breakpoint [of "demo_gdb\<lparr>arm := ?p\<rparr>" demo_host "Suc 0" "fetched ?p" 0 5 "\<lambda>_. 0"] w f
    by (auto simp: wf_gdb_def serving_def demo_gdb_def)
qed

text \<open>C16: Whatever the memory and the indeterminate words, when \<open>c\<close> is answered the core is the result
  of a sequence of steps, and if its next instruction can be fetched it is a breakpoint.\<close>

theorem continue_stops_at_breakpoint:
  assumes "wf_gdb g" "gdb_packet_analysis h junk fuel g (frame (ascii ''c'')) = Some (Served g')"
  shows "\<exists>junks. for_each (machine_step h) junks (arm g) = Some (arm g') \<and> wf_core (arm g')
    \<and> (fetches (arm g') \<longrightarrow> breakpoint (next_word (arm g')))"
proof -
  have w: "0 < writes_left g" using assms(2) by (cases "writes_left g") (simp_all add: frame_analysis gdb_send_ack_eq after_service_def)
  have c: "cont h junk fuel (acked g) (0 # hex2 (sum_list [0x63]) @ [0]) = Some (Served g')"
    using assms(2) w by (simp add: ascii_def command_dispatch handle_command_def)
  then obtain y where "cont_loop h junk fuel (junk fuel) (arm g) (target_exception g) = Some y"
    by (auto simp: cont_def Option.bind_eq_Some_conv)
  with c obtain p e where p: "cont_loop h junk fuel (junk fuel) (arm g) (target_exception g) = Some (Stopped p e)"
    "gdb_send_stop_reason ((acked g)\<lparr>arm := p, target_exception := e\<rparr>) = Some (Served g')"
    by (cases y) (auto simp: cont_def)
  then show ?thesis
    using cont_loop_stopped [OF _ p(1)] gdb_send_stop_reason_keeps(1) [OF p(2)] assms(1)
    by (simp add: wf_gdb_def)
qed

theorem continue_stops_at_breakpoint_witness:
  "\<exists>g'. gdb_packet_analysis demo_host (\<lambda>_. 0) 5 (demo_gdb\<lparr>arm := set_word demo_core 0 0xE7F001F0\<rparr>)
      (frame (ascii ''c'')) = Some (Served g') \<and> wf_core (arm g')"
proof -
  let ?p = "set_word demo_core 0 0xE7F001F0"
  let ?g = "demo_gdb\<lparr>arm := ?p\<rparr>"
  have w: "word_ok demo_memory 0" "breakpoint 0xE7F001F0" by code_simp+
  then have "runs_to demo_host ?p 0 0 ?p 0"
    by (intro runs_to.stop) (simp_all add: fetches_def aligned_fetch stored_word)
  then obtain g' where "gdb_packet_analysis demo_host (\<lambda>_. 0) 5 ?g (frame (ascii ''c'')) = Some (Served g')"
    using continue_run [of ?g demo_host 0 ?p 0 5 "\<lambda>_. 0"] w by (auto simp: wf_gdb_def serving_def demo_gdb_def)
  then show ?thesis
    using continue_stops_at_breakpoint [of ?g demo_host "\<lambda>_. 0" 5 g'] w by (auto simp: wf_gdb_def demo_gdb_def)
qed

text \<open>Whatever bytes the server receives, a packet that is served leaves it well formed: the
  registers, the memory and the packet buffer keep their sizes.\<close>

lemma packets_keep_server:
  assumes "wf_gdb g" "gdb_packet_analysis h junk fuel g bytes = Some (Served g')"
  shows "wf_gdb g'"
  using gdb_packet_analysis_keeps [OF assms(1), of h junk fuel bytes] assms(2) by simp

end
