(* ===== verification/Scanner.thy ===== *)
theory Scanner
  imports Gdb
begin

text \<open>
  \<open>scanner.c\<close> (generated from \<open>scanner.l\<close>): the scanner that cuts the bytes of the client into
  acknowledgements, packets and noise, and calls the gdb server for each of them.

  The input is the list of all the bytes up to the end of the connection.  The blocks in which
  they arrive do not matter: the theory \<open>Flex\<close> has the scanner with its buffer, and \<open>FlexScan\<close>
  shows that the two agree.  The
  tables, the transition loop and the longest match with its last accepting state are those of
  the generated code, and \<open>token_spec\<close> is what the rules of \<open>scanner.l\<close> say.
\<close>

section \<open>The tables\<close>

definition yy_accept :: "nat list" where
  "yy_accept =
    [0, 0, 0, 6, 4, 5, 4, 1, 2, 0, 0, 0, 3, 0]"

definition yy_ec :: "nat list" where
  "yy_ec =
    [0, 1, 1, 1, 1, 1, 1, 1, 1, 1, 2, 1, 1, 1, 1, 1, 1, 1, 1, 1,
     1, 1, 1, 1, 1, 1, 1, 1, 1, 1, 1, 1, 1, 1, 1, 3, 4, 1, 1, 1,
     1, 1, 1, 5, 1, 6, 1, 1, 7, 7, 7, 7, 7, 7, 7, 7, 7, 7, 1, 1,
     1, 1, 1, 1, 1, 7, 7, 7, 7, 7, 7, 1, 1, 1, 1, 1, 1, 1, 1, 1,
     1, 1, 1, 1, 1, 1, 1, 1, 1, 1, 1, 1, 1, 1, 1, 1, 1, 7, 7, 7,
     7, 7, 7, 1, 1, 1, 1, 1, 1, 1, 1, 1, 1, 1, 1, 1, 1, 1, 1, 1,
     1, 1, 1, 1, 1, 1, 1, 1, 1, 1, 1, 1, 1, 1, 1, 1, 1, 1, 1, 1,
     1, 1, 1, 1, 1, 1, 1, 1, 1, 1, 1, 1, 1, 1, 1, 1, 1, 1, 1, 1,
     1, 1, 1, 1, 1, 1, 1, 1, 1, 1, 1, 1, 1, 1, 1, 1, 1, 1, 1, 1,
     1, 1, 1, 1, 1, 1, 1, 1, 1, 1, 1, 1, 1, 1, 1, 1, 1, 1, 1, 1,
     1, 1, 1, 1, 1, 1, 1, 1, 1, 1, 1, 1, 1, 1, 1, 1, 1, 1, 1, 1,
     1, 1, 1, 1, 1, 1, 1, 1, 1, 1, 1, 1, 1, 1, 1, 1, 1, 1, 1, 1,
     1, 1, 1, 1, 1, 1, 1, 1, 1, 1, 1, 1, 1, 1, 1, 1]"

definition yy_meta :: "nat list" where
  "yy_meta =
    [0, 1, 1, 1, 2, 1, 1, 1]"

definition yy_base :: "nat list" where
  "yy_base =
    [0, 0, 0, 13, 14, 14, 9, 14, 14, 8, 3, 2, 14, 14, 7]"

definition yy_def :: "nat list" where
  "yy_def =
    [0, 13, 1, 13, 13, 13, 14, 13, 13, 14, 13, 13, 13, 0, 13]"

definition yy_nxt :: "nat list" where
  "yy_nxt =
    [0, 4, 5, 4, 6, 7, 8, 4, 9, 12, 11, 10, 10, 13, 3, 13, 13, 13, 13, 13,
     13, 13]"

definition yy_chk :: "nat list" where
  "yy_chk =
    [0, 1, 1, 1, 1, 1, 1, 1, 14, 11, 10, 9, 6, 3, 13, 13, 13, 13, 13, 13,
     13, 13]"

section \<open>The automaton\<close>

text \<open>
  The inner \<open>while\<close> loop with the transition after it; the fuel bounds the chain of default
  states, which has at most three links (\<open>yy_transitions\<close> below).
\<close>

fun yy_transition :: "nat \<Rightarrow> nat \<Rightarrow> nat \<Rightarrow> nat option" where
  "yy_transition 0 state c = None"
| "yy_transition (Suc fuel) state c = do {
     base \<leftarrow> aget yy_base state;
     chk \<leftarrow> aget yy_chk (base + c);
     if chk = state then aget yy_nxt (base + c)
     else do {
       state \<leftarrow> aget yy_def state;
       c \<leftarrow> (if state \<ge> 14 then aget yy_meta c else Some c);
       yy_transition fuel state c
     }
   }"

abbreviation yy_step :: "nat \<Rightarrow> nat \<Rightarrow> nat option" where
  "yy_step \<equiv> yy_transition 4"

type_synonym accepting = "(nat \<times> nat) option"

definition remember :: "nat \<Rightarrow> nat \<Rightarrow> accepting \<Rightarrow> accepting option" where
  "remember state cp acc = do {
     a \<leftarrow> aget yy_accept state;
     Some (if a \<noteq> 0 then Some (state, cp) else acc)
   }"

text \<open>A byte 0 of the input is told from the end of the buffer and belongs to the class 1.\<close>

definition yy_try_NUL_trans :: "nat \<Rightarrow> nat \<Rightarrow> accepting \<Rightarrow> (nat \<times> accepting) option" where
  "yy_try_NUL_trans state cp acc = do {
     acc \<leftarrow> remember state cp acc;
     next \<leftarrow> yy_step state 1;
     Some (if next = 13 then 0 else next, acc)
   }"

text \<open>
  The matching loop: the current state, the number of bytes consumed, and the last accepting
  state with the position it was seen at.  It ends in a state without transitions, at a byte 0
  it has no transition for, or at the end of the input.
\<close>

fun yy_match :: "u8 list \<Rightarrow> nat \<Rightarrow> nat \<Rightarrow> accepting \<Rightarrow> (nat \<times> nat \<times> accepting) option" where
  "yy_match [] state cp acc = Some (state, cp, acc)"
| "yy_match (b # bs) state cp acc =
     (if b = 0 then do {
        (next, acc) \<leftarrow> yy_try_NUL_trans state cp acc;
        if next \<noteq> 0 then yy_match bs next (cp + 1) acc else Some (state, cp, acc)
      }
      else do {
        c \<leftarrow> aget yy_ec (unat b);
        acc \<leftarrow> remember state cp acc;
        state \<leftarrow> yy_step state c;
        base \<leftarrow> aget yy_base state;
        if base \<noteq> 14 then yy_match bs state (cp + 1) acc else Some (state, cp + 1, acc)
      })"

text \<open>The rule that is applied and the length of its text; a state that accepts nothing backs up.\<close>

definition yy_find_action :: "nat \<times> nat \<times> accepting \<Rightarrow> (nat \<times> nat) option" where
  "yy_find_action = (\<lambda>(state, cp, acc). do {
     act \<leftarrow> aget yy_accept state;
     if act = 0 then do {
       (state, cp) \<leftarrow> acc;
       act \<leftarrow> aget yy_accept state;
       Some (act, cp)
     }
     else Some (act, cp)
   })"

definition yy_token :: "u8 list \<Rightarrow> (nat \<times> nat) option" where
  "yy_token input = do { matched \<leftarrow> yy_match input 1 0 None; yy_find_action matched }"

section \<open>The actions\<close>

record parser_data =
  gdb :: gdb_data
  err_buffer :: "u8 list"
  err_len :: nat
  echoed :: "u8 list"

text \<open>
  A session goes on, or the process ends in a command or in a write (or the fuel of a continue runs out).
  \<open>with_gdb\<close> is the return of a function of the server, and \<open>then_going\<close> what follows a call.
\<close>

datatype session = Going parser_data | Over service

definition with_gdb :: "parser_data \<Rightarrow> service \<Rightarrow> session" where
  "with_gdb d outcome = (case outcome of Served g \<Rightarrow> Going (d\<lparr>gdb := g\<rparr>) | _ \<Rightarrow> Over outcome)"

definition then_going :: "session option \<Rightarrow> (parser_data \<Rightarrow> session option) \<Rightarrow> session option" where
  "then_going x f = do { s \<leftarrow> x; case s of Going d \<Rightarrow> f d | Over outcome \<Rightarrow> Some (Over outcome) }"

definition handle_error :: "parser_data \<Rightarrow> session option" where
  "handle_error d =
     (if err_len d \<noteq> 0 then do {
        buffer \<leftarrow> aset (err_buffer d) (err_len d) 0;
        Some (with_gdb (d\<lparr>err_buffer := buffer, err_len := 0\<rparr>) (gdb_require_retransmission (gdb d)))
      }
      else Some (Going d))"

definition add_character_to_error :: "parser_data \<Rightarrow> u8 \<Rightarrow> session option" where
  "add_character_to_error d c =
     then_going (if err_len d > 1024 - 2 then handle_error d else Some (Going d)) (\<lambda>d. do {
       buffer \<leftarrow> aset (err_buffer d) (err_len d) c;
       Some (Going (d\<lparr>err_buffer := buffer, err_len := err_len d + 1\<rparr>))
     })"

definition yy_action ::
  "host \<Rightarrow> (nat \<Rightarrow> u32) \<Rightarrow> nat \<Rightarrow> parser_data \<Rightarrow> nat \<Rightarrow> u8 list \<Rightarrow> session option" where
  "yy_action h junk fuel d act text =
     (if act = 1 then handle_error d
      else if act = 2 then then_going (handle_error d) (\<lambda>d. do {
        outcome \<leftarrow> gdb_transmit_packet (gdb d);
        Some (with_gdb d outcome)
      })
      else if act = 3 then then_going (handle_error d) (\<lambda>d. do {
        outcome \<leftarrow> gdb_packet_analysis h junk fuel (gdb d) text;
        Some (with_gdb d outcome)
      })
      else if act = 4 then do {
        c \<leftarrow> aget text 0;
        add_character_to_error d c
      }
      else if act = 5 then Some (Going (d\<lparr>echoed := echoed d @ text\<rparr>))
      else None)"

text \<open>
  The loop of \<open>yylex\<close> up to the end of the input.  No rule has an empty text
  (\<open>yy_token_eq\<close>), so the input gets shorter.  The indeterminate values of a packet are
  a function of the input that is left.
\<close>

function yylex ::
  "host \<Rightarrow> (u8 list \<Rightarrow> nat \<Rightarrow> u32) \<Rightarrow> nat \<Rightarrow> parser_data \<Rightarrow> u8 list \<Rightarrow> session option" where
  "yylex h junk fuel d input =
     (if input = [] then handle_error d
      else case yy_token input of
        None \<Rightarrow> None
      | Some (act, leng) \<Rightarrow>
          if leng = 0 then None
          else case yy_action h (junk (drop leng input)) fuel d act (take leng input) of
            None \<Rightarrow> None
          | Some (Over outcome) \<Rightarrow> Some (Over outcome)
          | Some (Going d) \<Rightarrow> yylex h junk fuel d (drop leng input))"
  by pat_completeness auto

termination by (relation "measure (\<lambda>(h, junk, fuel, d, input). length input)") auto

declare yylex.simps [simp del]

text \<open>
  The first two arguments of the session say whether the server's structure and the stream of
  the connection are created, the third one how many writes the connection takes; the buffers are not initialised.
\<close>

definition gdb_scanner :: "bool \<Rightarrow> bool \<Rightarrow> nat \<Rightarrow> u8 list \<Rightarrow> u8 list \<Rightarrow> host \<Rightarrow> (u8 list \<Rightarrow> nat \<Rightarrow> u32) \<Rightarrow> nat
    \<Rightarrow> arm_core \<Rightarrow> u8 list \<Rightarrow> session option" where
  "gdb_scanner created opened writes packet_junk err_junk h junk fuel p input = do {
     g \<leftarrow> gdb_init_data created writes packet_junk p;
     let d = \<lparr>gdb = g, err_buffer = err_junk, err_len = 0, echoed = []\<rparr>;
     if \<not> opened then Some (Going d) else yylex h junk fuel d input
   }"

section \<open>The classes of the bytes and the transitions\<close>

definition is_hex :: "u8 \<Rightarrow> bool" where
  "is_hex b \<longleftrightarrow> hex_value b \<noteq> None"

lemma yy_ec_eq:
  "yy_ec = 0 # map (\<lambda>n. if n = 0x0a then 2 else if n = 0x23 then 3 else if n = 0x24 then 4
     else if n = 0x2b then 5 else if n = 0x2d then 6
     else if 0x30 \<le> n \<and> n \<le> 0x39 \<or> 0x41 \<le> n \<and> n \<le> 0x46 \<or> 0x61 \<le> n \<and> n \<le> 0x66 then 7
     else 1) [1..<256]"
  by code_simp

lemma is_hex_unat: "is_hex b \<longleftrightarrow> 0x30 \<le> unat b \<and> unat b \<le> 0x39 \<or> 0x41 \<le> unat b \<and> unat b \<le> 0x46
    \<or> 0x61 \<le> unat b \<and> unat b \<le> 0x66"
  by (auto simp: is_hex_def hex_value_def word_le_nat_alt)

lemma yy_classes:
  assumes "b \<noteq> 0"
  shows "aget yy_ec (unat b) = Some (if b = 0x0a then 2 else if b = 0x23 then 3 else if b = 0x24 then 4
     else if b = 0x2b then 5 else if b = 0x2d then 6 else if is_hex b then 7 else 1)"
proof -
  have "0 < unat b" using assms by (simp add: unat_gt_0)
  then show ?thesis
    using unat_u8_less [of b]
    by (simp add: yy_ec_eq aget_def nth_Cons' is_hex_unat word_unat_eq_iff del: upt_Suc)
qed

lemma yy_transitions:
  "\<forall>s \<in> {1, 4, 5, 6, 7, 8, 9, 10, 11, 12, 13}. \<forall>c \<in> {1, 2, 3, 4, 5, 6, 7}. yy_step s c = Some
     (if s = 1 then [4, 5, 4, 6, 7, 8, 4] ! (c - 1)
      else if s = 6 \<or> s = 9 then (if c = 3 then 10 else if c = 4 then 13 else 9)
      else if s = 10 \<and> c = 7 then 11 else if s = 11 \<and> c = 7 then 12 else 13)"
  by code_simp

section \<open>The rules of the scanner\<close>

text \<open>The length of the packet at the start of the input, when there is one.\<close>

definition packet_length :: "u8 list \<Rightarrow> nat option" where
  "packet_length input = (case input of [] \<Rightarrow> None
     | c # cs \<Rightarrow> if c \<noteq> 0x24 then None
         else let n = length (takeWhile (\<lambda>b. b \<noteq> 0x23 \<and> b \<noteq> 0x24) cs) in
           case drop n cs of x # d # e # _ \<Rightarrow>
               if x = 0x23 \<and> is_hex d \<and> is_hex e then Some (n + 4) else None
           | _ \<Rightarrow> None)"

definition token_spec :: "u8 list \<Rightarrow> nat \<times> nat" where
  "token_spec input = (case packet_length input of Some n \<Rightarrow> (3, n)
     | None \<Rightarrow> (if hd input = 0x2b then 1 else if hd input = 0x2d then 2
         else if hd input = 0x0a then 5 else 4, 1))"

lemma yy_accepts:
  "aget yy_accept 1 = Some 0" "aget yy_accept 4 = Some 4" "aget yy_accept 5 = Some 5"
  "aget yy_accept 6 = Some 4" "aget yy_accept 7 = Some 1" "aget yy_accept 8 = Some 2"
  "aget yy_accept 9 = Some 0" "aget yy_accept 10 = Some 0" "aget yy_accept 11 = Some 0"
  "aget yy_accept 12 = Some 3" "aget yy_accept 13 = Some 0"
  by code_simp+

lemma yy_bases:
  "aget yy_base 4 = Some 14" "aget yy_base 5 = Some 14" "aget yy_base 7 = Some 14"
  "aget yy_base 8 = Some 14" "aget yy_base 12 = Some 14" "aget yy_base 13 = Some 14"
  "aget yy_base 6 = Some 9" "aget yy_base 9 = Some 8" "aget yy_base 10 = Some 3" "aget yy_base 11 = Some 2"
  by code_simp+

lemma is_hex_special [simp]: "\<not> is_hex 0" "\<not> is_hex 0x0a" "\<not> is_hex 0x23" "\<not> is_hex 0x24"
  "\<not> is_hex 0x2b" "\<not> is_hex 0x2d"
  by (simp_all add: is_hex_unat)

lemmas yy_facts = yy_try_NUL_trans_def remember_def yy_classes yy_accepts [simplified] yy_bases
  yy_transitions [simplified]

text \<open>The states inside a packet, and the state of any other byte.\<close>

lemma yy_match_body:
  "yy_match (b # bs) 9 cp acc = (if b = 0x23 then yy_match bs 10 (cp + 1) acc
     else if b = 0x24 then Some (13, cp + 1, acc) else yy_match bs 9 (cp + 1) acc)"
  "yy_match (b # bs) 6 cp acc = (if b = 0x23 then yy_match bs 10 (cp + 1) (Some (6, cp))
     else if b = 0x24 then Some (13, cp + 1, Some (6, cp)) else yy_match bs 9 (cp + 1) (Some (6, cp)))"
  by (cases "b = 0"; simp add: yy_facts)+

lemma yy_match_digit:
  "is_hex b \<Longrightarrow> yy_match (b # bs) 10 cp acc = yy_match bs 11 (cp + 1) acc"
  "is_hex b \<Longrightarrow> yy_match (b # bs) 11 cp acc = Some (12, cp + 1, acc)"
  "\<not> is_hex b \<Longrightarrow> s = 10 \<or> s = 11 \<Longrightarrow> yy_match (b # bs) s cp acc \<bind> yy_find_action
    = yy_find_action (13, cp, acc)"
  by (cases "b = 0"; auto simp: yy_facts yy_find_action_def)+

lemma yy_match_start:
  "yy_match (b # bs) 1 0 None \<bind> yy_find_action =
    (if b = 0x24 then yy_match bs 6 1 None \<bind> yy_find_action
     else Some (if b = 0x2b then 1 else if b = 0x2d then 2 else if b = 0x0a then 5 else 4, 1))"
  by (cases "b = 0"; cases bs; cases "hd bs = 0"; auto simp: yy_facts yy_find_action_def)

lemma yy_match_packet:
  "yy_match cs 9 cp (Some (6, 1)) \<bind> yy_find_action
    = (let n = length (takeWhile (\<lambda>b. b \<noteq> 0x23 \<and> b \<noteq> 0x24) cs) in
       Some (case drop n cs of x # d # e # _ \<Rightarrow>
           if x = 0x23 \<and> is_hex d \<and> is_hex e then (3, cp + n + 3) else (4, 1)
       | _ \<Rightarrow> (4, 1)))"
proof (induction cs arbitrary: cp)
  case Nil
  then show ?case by (simp add: yy_find_action_def yy_accepts)
next
  case (Cons b bs)
  have jams: "yy_find_action (13, n, Some (6, 1)) = Some (4, 1)" "yy_find_action (10, n, Some (6, 1)) = Some (4, 1)"
    "yy_find_action (11, n, Some (6, 1)) = Some (4, 1)" "yy_find_action (12, n, Some (6, 1)) = Some (3, n)" for n
    by (simp_all add: yy_find_action_def yy_accepts)
  note jams = jams jams [simplified]
  show ?case
  proof (cases "b = 0x23")
    case True
    show ?thesis
    proof (cases bs)
      case Nil
      then show ?thesis using True by (simp add: yy_match_body jams del: yy_match.simps(2))
    next
      case c: (Cons d ds)
      have one: "yy_match bs 10 (cp + 1) (Some (6, 1)) \<bind> yy_find_action
          = (if is_hex d then yy_match ds 11 (cp + 2) (Some (6, 1)) \<bind> yy_find_action else Some (4, 1))"
        unfolding c by (auto simp: yy_match_digit jams simp del: yy_match.simps)
      have two: "yy_match ds 11 (cp + 2) (Some (6, 1)) \<bind> yy_find_action
          = Some (case ds of [] \<Rightarrow> (4, 1) | e # _ \<Rightarrow> if is_hex e then (3, cp + 3) else (4, 1))"
        by (cases ds) (auto simp: yy_match_digit jams simp del: yy_match.simps(2))
      show ?thesis using True one two c
        by (simp add: yy_match_body del: yy_match.simps split: list.split)
    qed
  next
    case False
    show ?thesis
    proof (cases "b = 0x24")
      case True
      then show ?thesis
        by (cases bs; cases "tl bs") (simp_all add: yy_match_body jams Let_def del: yy_match.simps)
    next
      case other: False
      then show ?thesis using False Cons [of "cp + 1"]
        by (simp add: yy_match_body Let_def del: yy_match.simps) (simp split: list.split)
    qed
  qed
qed

lemma yy_token_eq:
  assumes "input \<noteq> []"
  shows "yy_token input = Some (token_spec input)"
proof -
  obtain b bs where input: "input = b # bs" using assms by (cases input) auto
  have six: "yy_match bs 6 1 None \<bind> yy_find_action
      = (if bs = [] then Some (4, 1) else yy_match bs 9 1 (Some (6, 1)) \<bind> yy_find_action)"
    by (cases bs) (simp_all add: yy_match_body yy_find_action_def yy_accepts del: yy_match.simps(2))
  show ?thesis
  proof (cases "b = 0x24")
    case True
    then show ?thesis
      unfolding yy_token_def input yy_match_start six
      by (auto simp: token_spec_def packet_length_def yy_match_packet [simplified] Let_def split: list.split)
  next
    case False
    then show ?thesis
      unfolding yy_token_def input yy_match_start
      by (simp add: token_spec_def packet_length_def)
  qed
qed

lemma token_spec_length:
  "input \<noteq> [] \<Longrightarrow> token_spec input = (act, n) \<Longrightarrow> 0 < n \<and> n \<le> length input"
  by (cases input) (auto simp: token_spec_def packet_length_def Let_def split: if_splits list.splits
      dest: arg_cong [where f = length])

section \<open>The session\<close>

lemma yylex_end: "yylex h junk fuel d [] = handle_error d"
  by (simp add: yylex.simps)

lemma yylex_step:
  assumes "input \<noteq> []" "token_spec input = (act, n)"
  shows "yylex h junk fuel d input = (case yy_action h (junk (drop n input)) fuel d act (take n input) of
      None \<Rightarrow> None
    | Some (Over outcome) \<Rightarrow> Some (Over outcome)
    | Some (Going d) \<Rightarrow> yylex h junk fuel d (drop n input))"
  using assms token_spec_length [OF assms] by (subst yylex.simps) (simp add: yy_token_eq)

text \<open>The text of a packet is what the rule \<open>$...#hh\<close> matches.\<close>

definition plain :: "u8 list \<Rightarrow> bool" where
  "plain s \<longleftrightarrow> 0x23 \<notin> set s \<and> 0x24 \<notin> set s"

lemma hex_digit_is_hex: "d \<le> 15 \<Longrightarrow> is_hex (hex_digit d)"
  by (simp add: is_hex_def hex_digit_facts)

lemma token_packet:
  assumes "plain s"
  shows "token_spec ([0x24] @ s @ [0x23] @ hex2 b @ rest) = (3, length s + 4)"
proof -
  have "takeWhile (\<lambda>b. b \<noteq> 0x23 \<and> b \<noteq> 0x24) (s @ 0x23 # t) = s" for t
    using assms by (induction s) (auto simp: plain_def)
  then show ?thesis
    by (simp add: token_spec_def packet_length_def hex2_def hex_digit_is_hex Let_def)
qed

lemma handle_error_idle: "err_len d = 0 \<Longrightarrow> handle_error d = Some (Going d)"
  by (simp add: handle_error_def)

lemma then_going_simps [simp]:
  "then_going (Some (Going d)) f = f d" "then_going (Some (Over e)) f = Some (Over e)" "then_going None f = None"
  by (simp_all add: then_going_def)

lemma with_gdb_simps [simp]:
  "with_gdb d (Served g) = Going (d\<lparr>gdb := g\<rparr>)" "with_gdb d (Exited c) = Over (Exited c)"
  "with_gdb d Aborted = Over Aborted" "with_gdb d Write_failed = Over Write_failed"
  "with_gdb d Out_of_fuel = Over Out_of_fuel"
  by (simp_all add: with_gdb_def)

lemma yylex_frame:
  assumes "plain s" "handle_error d = Some (Going e)"
  shows "yylex h junk fuel d (frame s @ rest) =
    (case gdb_packet_analysis h (junk rest) fuel (gdb e) (frame s) of
       None \<Rightarrow> None
     | Some (Served g) \<Rightarrow> yylex h junk fuel (e\<lparr>gdb := g\<rparr>) rest
     | Some outcome \<Rightarrow> Some (Over outcome))"
proof -
  let ?input = "frame s @ rest"
  have t: "token_spec ?input = (3, length s + 4)"
    using token_packet [OF assms(1), of "sum_list s" rest] by (simp add: frame_def)
  have split: "take (length s + 4) ?input = frame s" "drop (length s + 4) ?input = rest"
    using length_frame [of s] by (simp_all del: length_frame)
  have "?input \<noteq> []" by (simp add: frame_def)
  show ?thesis
    unfolding yylex_step [OF \<open>?input \<noteq> []\<close> t] split
    using assms(2) by (auto simp: yy_action_def with_gdb_def split: option.split service.split)
qed

section \<open>What the scanner keeps\<close>

definition wf_parser :: "parser_data \<Rightarrow> bool" where
  "wf_parser d \<longleftrightarrow> wf_gdb (gdb d) \<and> length (err_buffer d) = 1024 \<and> err_len d \<le> 1023"

definition wf_session :: "session \<Rightarrow> bool" where
  "wf_session s \<longleftrightarrow> (\<forall>d. s = Going d \<longrightarrow> wf_parser d)"

lemma wf_session_simps [simp]: "wf_session (Going d) = wf_parser d" "wf_session (Over e)"
  by (simp_all add: wf_session_def)

lemma with_gdb_wf: "wf_parser d \<Longrightarrow> keeps_gdb (Some outcome) \<Longrightarrow> wf_session (with_gdb d outcome)"
  by (cases outcome) (simp_all add: with_gdb_def wf_parser_def)

text \<open>The end of the noise needs no more than a place for the final 0, which the buffer has.\<close>

lemma handle_error_wf:
  assumes "wf_parser d"
  shows "\<exists>b. length b = 1024 \<and> handle_error d = Some (if err_len d = 0 then Going d
    else with_gdb (d\<lparr>err_buffer := b, err_len := 0\<rparr>) (gdb_require_retransmission (gdb d)))"
  using assms by (auto simp: handle_error_def wf_parser_def intro: exI [of _ "(err_buffer d)[err_len d := 0]"])

lemma handle_error_keeps:
  assumes "wf_parser d"
  obtains s where "handle_error d = Some s" "wf_session s" "\<And>e. s = Going e \<Longrightarrow> err_len e = 0"
proof -
  obtain b where b: "length b = 1024" "handle_error d = Some (if err_len d = 0 then Going d
    else with_gdb (d\<lparr>err_buffer := b, err_len := 0\<rparr>) (gdb_require_retransmission (gdb d)))"
    using handle_error_wf [OF assms] by blast
  let ?d = "d\<lparr>err_buffer := b, err_len := 0\<rparr>"
  have "wf_parser ?d" using assms b(1) by (simp add: wf_parser_def)
  moreover have "keeps_gdb (Some (gdb_require_retransmission (gdb d)))"
    using assms by (simp add: gdb_require_retransmission_def rio_writen_keeps wf_parser_def)
  ultimately have "wf_session (with_gdb ?d (gdb_require_retransmission (gdb d)))" by (rule with_gdb_wf)
  with b(2) that assms show thesis
    by (cases "err_len d = 0"; cases "gdb_require_retransmission (gdb d)") (auto simp: with_gdb_def)
qed

lemma add_character_keeps:
  assumes "wf_parser d"
  obtains s where "add_character_to_error d c = Some s" "wf_session s"
proof -
  obtain s where s: "handle_error d = Some s" "wf_session s" "\<And>e. s = Going e \<Longrightarrow> err_len e = 0"
    using handle_error_keeps [OF assms] by blast
  have "\<exists>t. add_character_to_error d c = Some t \<and> wf_session t"
    using assms s by (cases s) (auto simp: add_character_to_error_def wf_parser_def)
  then show thesis using that by blast
qed

lemma add_character_wf:
  assumes "wf_parser d" "err_len d \<le> 1022"
  shows "\<exists>e. add_character_to_error d c = Some (Going e) \<and> wf_parser e
    \<and> gdb e = gdb d \<and> err_len e = err_len d + 1"
  using assms by (auto simp: add_character_to_error_def wf_parser_def)

text \<open>
  An action is undefined only when it is the one of a packet whose handling is; the others need no
  hypothesis on the input.
\<close>

lemma yy_action_result:
  assumes "wf_parser d" "act \<in> {1, 2, 3, 4, 5}" "act = 4 \<longrightarrow> text \<noteq> []"
  shows "(case yy_action h junk fuel d act text of
      None \<Rightarrow> act = 3 \<and> (\<exists>e. handle_error d = Some (Going e) \<and> gdb_packet_analysis h junk fuel (gdb e) text = None)
    | Some s \<Rightarrow> wf_session s)"
proof -
  obtain s where s: "handle_error d = Some s" "wf_session s" using handle_error_keeps [OF assms(1)] by blast
  have t: "keeps_gdb (gdb_transmit_packet (gdb e))" "gdb_transmit_packet (gdb e) \<noteq> None" if "wf_parser e" for e
    using that by (auto simp: gdb_transmit_packet_def rio_writen_keeps wf_parser_def wf_gdb_def)
  have p: "keeps_gdb (gdb_packet_analysis h junk fuel (gdb e) text)" if "wf_parser e" for e
    using that by (intro gdb_packet_analysis_keeps) (simp add: wf_parser_def)
  consider "act \<in> {1, 5}" | "act = 2" | "act = 3" | "act = 4" using assms(2) by auto
  then show ?thesis
  proof cases
    case 1
    then show ?thesis using assms(1) s by (auto simp: yy_action_def) (simp add: wf_parser_def)
  next
    case 2
    show ?thesis
    proof (cases s)
      case (Going e)
      then obtain y where "gdb_transmit_packet (gdb e) = Some y" "keeps_gdb (Some y)"
        using s(2) t by (metis not_None_eq wf_session_simps(1))
      then show ?thesis using 2 s Going with_gdb_wf [of e y] by (simp add: yy_action_def)
    qed (use 2 s in \<open>simp add: yy_action_def\<close>)
  next
    case 3
    show ?thesis
    proof (cases s)
      case (Going e)
      then show ?thesis using 3 s p [of e] with_gdb_wf [of e]
        by (cases "gdb_packet_analysis h junk fuel (gdb e) text") (auto simp: yy_action_def)
    qed (use 3 s in \<open>simp add: yy_action_def\<close>)
  next
    case 4
    obtain c cs where c: "text = c # cs" using assms(3) 4 by (cases "text") auto
    moreover obtain t where "add_character_to_error d c = Some t" "wf_session t"
      using add_character_keeps [OF assms(1)] by blast
    ultimately show ?thesis using 4 by (simp add: yy_action_def)
  qed
qed

lemma yy_action_keeps:
  assumes "wf_parser d" "yy_action h junk fuel d act text = Some (Going e)"
  shows "wf_parser e"
proof -
  have "act \<in> {1, 2, 3, 4, 5}" using assms(2) by (auto simp: yy_action_def split: if_splits)
  moreover have "act = 4 \<longrightarrow> text \<noteq> []" using assms(2) by (auto simp: yy_action_def)
  ultimately show ?thesis
    using yy_action_result [OF assms(1), of act "text" h junk fuel] assms(2) by simp
qed

definition lex_step :: "host \<Rightarrow> nat \<Rightarrow> (nat \<Rightarrow> u32) \<times> nat \<times> u8 list \<Rightarrow> parser_data \<Rightarrow> parser_data option" where
  "lex_step h fuel = (\<lambda>(junk, act, text) d. case yy_action h junk fuel d act text of
     Some (Going e) \<Rightarrow> Some e | _ \<Rightarrow> None)"

interpretation lexer: step_system "lex_step h fuel" wf_parser for h fuel
  by unfold_locales (auto simp: lex_step_def yy_action_keeps split: option.splits session.splits prod.splits)

text \<open>A session that reaches the end of the input is a run of the actions of its tokens.\<close>

lemma yylex_run:
  "yylex h junk fuel d input = Some (Going e)
    \<Longrightarrow> \<exists>es d'. for_each (lex_step h fuel) es d = Some d' \<and> handle_error d' = Some (Going e)"
proof (induction input arbitrary: d rule: measure_induct_rule [of length])
  case (less input)
  show ?case
  proof (cases "input = []")
    case True
    then show ?thesis using less.prems by (auto simp: yylex_end intro: exI [of _ "[]"])
  next
    case False
    obtain act n where t: "token_spec input = (act, n)" by (cases "token_spec input")
    note n = token_spec_length [OF False t]
    let ?junk = "junk (drop n input)"
    obtain d1 where d1: "yy_action h ?junk fuel d act (take n input) = Some (Going d1)"
      "yylex h junk fuel d1 (drop n input) = Some (Going e)"
      using less.prems unfolding yylex_step [OF False t] by (auto split: option.splits session.splits)
    from n have "length (drop n input) < length input" by (elim conjE) simp
    from less.IH [OF this d1(2)] obtain es d' where
      "for_each (lex_step h fuel) es d1 = Some d'" "handle_error d' = Some (Going e)" by blast
    moreover have "lex_step h fuel (?junk, act, take n input) d = Some d1" using d1(1) by (simp add: lex_step_def)
    ultimately show ?thesis by (intro exI [of _ "(?junk, act, take n input) # es"]) auto
  qed
qed

lemma yylex_keeps:
  assumes "wf_parser d" "yylex h junk fuel d input = Some (Going e)"
  shows "wf_parser e \<and> err_len e = 0"
proof -
  obtain es d' where d': "for_each (lex_step h fuel) es d = Some d'" "handle_error d' = Some (Going e)"
    using yylex_run [OF assms(2)] by blast
  then have "wf_parser d'" using lexer.run_inv [OF assms(1)] by blast
  from handle_error_keeps [OF this] d'(2) show ?thesis by auto
qed

text \<open>
  The states between the tokens of a session, each with the input that is left, and the packets that the
  server is given in a state whose noise has been answered.
\<close>

inductive lexes :: "host \<Rightarrow> (u8 list \<Rightarrow> nat \<Rightarrow> u32) \<Rightarrow> nat \<Rightarrow> parser_data \<Rightarrow> u8 list \<Rightarrow> parser_data \<Rightarrow> u8 list \<Rightarrow> bool"
  for h junk fuel where
  here: "lexes h junk fuel d input d input"
| token: "input \<noteq> [] \<Longrightarrow> token_spec input = (act, n)
    \<Longrightarrow> yy_action h (junk (drop n input)) fuel d act (take n input) = Some (Going d1)
    \<Longrightarrow> lexes h junk fuel d1 (drop n input) e rest \<Longrightarrow> lexes h junk fuel d input e rest"

lemma token_spec_rule: "token_spec input = (act, n) \<Longrightarrow> act \<in> {1, 2, 3, 4, 5}"
  by (auto simp: token_spec_def split: option.splits if_splits)

lemma yylex_lexes:
  assumes "lexes h junk fuel d input e rest"
  shows "yylex h junk fuel e rest = yylex h junk fuel d input"
  using assms by induction (simp_all add: yylex_step)

text \<open>The input starts with a packet whose handling, after the answer to the noise, is undefined.\<close>

definition undefined_packet :: "host \<Rightarrow> (u8 list \<Rightarrow> nat \<Rightarrow> u32) \<Rightarrow> nat \<Rightarrow> parser_data \<Rightarrow> u8 list \<Rightarrow> bool" where
  "undefined_packet h junk fuel d input \<longleftrightarrow> (\<exists>n e. packet_length input = Some n \<and> handle_error d = Some (Going e)
     \<and> gdb_packet_analysis h (junk (drop n input)) fuel (gdb e) (take n input) = None)"

lemma packet_length_token: "packet_length input = Some n \<longleftrightarrow> token_spec input = (3, n) \<and> input \<noteq> []"
  by (auto simp: token_spec_def packet_length_def split: option.splits list.splits if_splits)

lemma yy_action_undefined:
  assumes "wf_parser d" "input \<noteq> []" "token_spec input = (act, n)"
  shows "yy_action h (junk (drop n input)) fuel d act (take n input) = None \<longleftrightarrow> undefined_packet h junk fuel d input"
proof (cases "act = 3")
  case True
  obtain x where "handle_error d = Some x" using handle_error_keeps [OF assms(1)] by blast
  then show ?thesis using True assms(2,3)
    by (cases x) (auto simp: undefined_packet_def packet_length_token yy_action_def Option.bind_eq_None_conv)
next
  case False
  have "act = 4 \<longrightarrow> take n input \<noteq> []" using token_spec_length [OF assms(2,3)] by auto
  from yy_action_result [OF assms(1) token_spec_rule [OF assms(3)] this, of h "junk (drop n input)" fuel]
  show ?thesis using False assms(3) by (auto simp: undefined_packet_def packet_length_token split: option.splits)
qed

text \<open>A session is undefined exactly when one of its packets is.\<close>

lemma yylex_undefined:
  assumes "wf_parser d" "yylex h junk fuel d input = None"
  shows "\<exists>e rest. lexes h junk fuel d input e rest \<and> undefined_packet h junk fuel e rest"
  using assms
proof (induction input arbitrary: d rule: measure_induct_rule [of length])
  case (less input)
  have "handle_error d \<noteq> None" using handle_error_keeps [OF less.prems(1)] by blast
  then have ne: "input \<noteq> []" using less.prems(2) by (auto simp: yylex_end)
  obtain act n where t: "token_spec input = (act, n)" by (cases "token_spec input")
  note n = token_spec_length [OF ne t]
  let ?x = "yy_action h (junk (drop n input)) fuel d act (take n input)"
  show ?case
  proof (cases ?x)
    case None
    then show ?thesis using yy_action_undefined [OF less.prems(1) ne t] lexes.here by blast
  next
    case (Some s)
    then obtain d1 where d1: "?x = Some (Going d1)" "yylex h junk fuel d1 (drop n input) = None"
      using less.prems(2) unfolding yylex_step [OF ne t] by (cases s) auto
    from n have "length (drop n input) < length input" by (elim conjE) simp
    from less.IH [OF this yy_action_keeps [OF less.prems(1) d1(1)] d1(2)] show ?thesis
      using lexes.token [where h = h and junk = junk and fuel = fuel, OF ne t d1(1)] by blast
  qed
qed

lemma yylex_undefined_packet:
  assumes "lexes h junk fuel d input e rest" "undefined_packet h junk fuel e rest"
  shows "yylex h junk fuel d input = None"
proof -
  obtain n x where n: "packet_length rest = Some n" "handle_error e = Some (Going x)"
    "gdb_packet_analysis h (junk (drop n rest)) fuel (gdb x) (take n rest) = None"
    using assms(2) by (auto simp: undefined_packet_def)
  then have "rest \<noteq> []" "token_spec rest = (3, n)" by (simp_all add: packet_length_token)
  then show ?thesis
    using yylex_lexes [OF assms(1)] yylex_step [of rest 3 n h junk fuel e] n(2,3) by (simp add: yy_action_def)
qed

text \<open>Bytes outside packets.\<close>

definition noise :: "u8 list \<Rightarrow> bool" where
  "noise s \<longleftrightarrow> set s \<inter> {0x0a, 0x24, 0x2b, 0x2d} = {}"

lemma yylex_noise:
  assumes "noise s" "wf_parser d" "err_len d + length s \<le> 1023"
  shows "\<exists>e. yylex h junk fuel d (s @ rest) = yylex h junk fuel e rest \<and> wf_parser e
    \<and> gdb e = gdb d \<and> err_len e = err_len d + length s"
  using assms
proof (induction s arbitrary: d)
  case (Cons b s)
  have b: "b \<noteq> 0x0a" "b \<noteq> 0x24" "b \<noteq> 0x2b" "b \<noteq> 0x2d" "noise s"
    using Cons.prems(1) by (auto simp: noise_def)
  have t: "token_spec ((b # s) @ rest) = (4, 1)"
    using b by (simp add: token_spec_def packet_length_def)
  obtain d1 where d1: "add_character_to_error d b = Some (Going d1)" "wf_parser d1" "gdb d1 = gdb d"
    "err_len d1 = err_len d + 1"
    using add_character_wf [OF Cons.prems(2), of b] Cons.prems(3) by auto
  have "yylex h junk fuel d ((b # s) @ rest) = yylex h junk fuel d1 (s @ rest)"
    using yylex_step [OF _ t, of h junk fuel d] d1(1) by (simp add: yy_action_def)
  then show ?case using Cons.IH [OF b(5) d1(2)] d1(3,4) Cons.prems(3) by auto
qed auto

end
