(* ===== verification/ScannerProperties.thy ===== *)
theory ScannerProperties
  imports Scanner GdbProperties
begin

text \<open>
  The properties of the scanner: the tables implement the rules, packets reach the server one by
  one, bytes outside packets are answered by one request for retransmission, and no input breaks
  the server.
\<close>

definition demo_parser :: parser_data where
  "demo_parser = \<lparr>gdb = demo_gdb, err_buffer = replicate 1024 0, err_len = 0, echoed = []\<rparr>"

lemma demo_parser_simps [simp]:
  "wf_parser demo_parser" "gdb demo_parser = demo_gdb" "err_len demo_parser = 0"
  by (simp_all add: demo_parser_def wf_parser_def)

text \<open>C27: The table-driven automaton with its last accepting state finds, on every input, the rule
  and the length that the patterns of the scanner describe: a packet is \<open>$\<close>, bytes other than
  \<open>$\<close> and \<open>#\<close>, \<open>#\<close> and two hexadecimal digits, and any other start of the input is a token of one
  byte.\<close>

theorem automaton_implements_rules:
  assumes "input \<noteq> []"
  shows "yy_token input = Some (token_spec input)"
  using assms by (rule yy_token_eq)

theorem automaton_implements_rules_witness:
  "yy_token (ascii ''$g#67+'') = Some (3, 5) \<and> yy_token (ascii ''$g#6+'') = Some (4, 1)"
  using automaton_implements_rules [of "ascii ''$g#67+''"] automaton_implements_rules [of "ascii ''$g#6+''"]
  by (simp add: ascii_def token_spec_def packet_length_def is_hex_def hex_value_def)

text \<open>
  The packets of a client that acknowledges each answer, and what the server does with them, up to the first
  one that is undefined or ends the process.
\<close>

definition client_bytes :: "u8 list list \<Rightarrow> u8 list" where
  "client_bytes ss = concat (map (\<lambda>s. frame s @ ascii ''+'') ss)"

fun serve_packets ::
  "host \<Rightarrow> (u8 list \<Rightarrow> nat \<Rightarrow> u32) \<Rightarrow> nat \<Rightarrow> u8 list list \<Rightarrow> gdb_data \<Rightarrow> service option" where
  "serve_packets h junk fuel [] g = Some (Served g)"
| "serve_packets h junk fuel (s # ss) g = do {
     outcome \<leftarrow> gdb_packet_analysis h (junk (ascii ''+'' @ client_bytes ss)) fuel g (frame s);
     after_service outcome (serve_packets h junk fuel ss)
   }"

lemma yylex_ack:
  "err_len d = 0 \<Longrightarrow> yylex h junk fuel d (ascii ''+'' @ rest) = yylex h junk fuel d rest"
proof -
  assume "err_len d = 0"
  moreover have "token_spec (ascii ''+'' @ rest) = (1, 1)"
    by (simp add: ascii_def token_spec_def packet_length_def)
  ultimately show ?thesis
    using yylex_step [of "ascii ''+'' @ rest" 1 1 h junk fuel d]
    by (simp add: ascii_def yy_action_def handle_error_idle)
qed

text \<open>C30: On the bytes of a client that sends packets without \<open>$\<close> and \<open>#\<close> in their contents, and acknowledges
  each answer, the session is the analysis of the packets one by one, in their order.  When all of them are served
  the session comes to the end of the connection with the server they leave; the first packet that
  ends the process ends the session, and the first one whose handling is undefined makes it undefined.\<close>

theorem session_of_packets:
  assumes "\<forall>s \<in> set ss. plain s" "err_len d = 0"
  shows "yylex h junk fuel d (client_bytes ss)
    = map_option (with_gdb d) (serve_packets h junk fuel ss (gdb d))"
  using assms
proof (induction ss arbitrary: d)
  case Nil
  then show ?case by (simp add: client_bytes_def yylex_end handle_error_idle with_gdb_def)
next
  case (Cons s ss)
  let ?rest = "ascii ''+'' @ client_bytes ss"
  let ?x = "gdb_packet_analysis h (junk ?rest) fuel (gdb d) (frame s)"
  have step: "yylex h junk fuel d (client_bytes (s # ss)) = (case ?x of None \<Rightarrow> None
      | Some (Served g) \<Rightarrow> yylex h junk fuel (d\<lparr>gdb := g\<rparr>) ?rest | Some outcome \<Rightarrow> Some (Over outcome))"
    using yylex_frame [of s d d h junk fuel ?rest] Cons.prems by (simp add: client_bytes_def handle_error_idle)
  have "with_gdb (d\<lparr>gdb := g\<rparr>) = with_gdb d" for g by (intro ext) (simp add: with_gdb_def split: service.split)
  then have "yylex h junk fuel (d\<lparr>gdb := g\<rparr>) ?rest = map_option (with_gdb d) (serve_packets h junk fuel ss g)" for g
    using yylex_ack [of "d\<lparr>gdb := g\<rparr>" h junk fuel "client_bytes ss"] Cons.IH [of "d\<lparr>gdb := g\<rparr>"] Cons.prems by simp
  then show ?case
    unfolding step by (cases ?x; cases "the ?x") (simp_all add: after_service_def)
qed

theorem session_of_packets_witness:
  "\<exists>e. yylex demo_host (\<lambda>_ _. 0) 0 demo_parser (client_bytes [ascii ''?'', ascii ''?'']) = Some (Going e)
    \<and> sent (gdb e) = [ascii ''+'', frame (ascii ''S05''), ascii ''+'', frame (ascii ''S05'')]"
proof -
  have one: "\<exists>g'. gdb_packet_analysis demo_host (\<lambda>_. 0) 0 g (frame (ascii ''?'')) = Some (Served g')
      \<and> length (packet g') = 1024 \<and> target_exception g' = 0 \<and> writes_left g = Suc (Suc (writes_left g'))
      \<and> sent g' = sent g @ [ascii ''+'', frame (ascii ''S05'')]"
    if "length (packet g) = 1024" "target_exception g = 0" "1 < writes_left g" for g
  proof -
    have "gdb_init 0x3f = Some Reason" by (simp add: gdb_init_def)
    then show ?thesis
      using stop_reason_wf [of "acked g"] that
      by (auto simp: ascii_def command_dispatch handle_command_def reason_def after_send_def stop_code_def)
  qed
  have "length (packet demo_gdb) = 1024" "target_exception demo_gdb = 0" by (simp_all add: demo_gdb_def)
  with one [of demo_gdb] obtain g1 where g1:
    "gdb_packet_analysis demo_host (\<lambda>_. 0) 0 demo_gdb (frame (ascii ''?'')) = Some (Served g1)"
    "length (packet g1) = 1024" "target_exception g1 = 0" "sent g1 = [ascii ''+'', frame (ascii ''S05'')]" "writes_left g1 = 7"
    by auto
  with one [of g1] obtain g2 where
    "gdb_packet_analysis demo_host (\<lambda>_. 0) 0 g1 (frame (ascii ''?'')) = Some (Served g2)"
    "sent g2 = [ascii ''+'', frame (ascii ''S05''), ascii ''+'', frame (ascii ''S05'')]"
    by auto
  with g1 have "serve_packets demo_host (\<lambda>_ _. 0) 0 [ascii ''?'', ascii ''?''] demo_gdb = Some (Served g2)"
    "sent g2 = [ascii ''+'', frame (ascii ''S05''), ascii ''+'', frame (ascii ''S05'')]"
    by (simp_all add: after_service_def)
  moreover have "plain (ascii ''?'')" by (simp add: plain_def ascii_def)
  ultimately show ?thesis
    using session_of_packets [of "[ascii ''?'', ascii ''?'']" demo_parser demo_host "\<lambda>_ _. 0" 0] by (auto simp: with_gdb_def)
qed

text \<open>C31: Up to 1023 bytes of noise before a packet are answered by one request for retransmission,
  and the packet is then analysed as if there had been none.  Here both the request and the packet are served.\<close>

theorem noise_then_packet:
  assumes "noise s" "s \<noteq> []" "length s \<le> 1023" "wf_parser d" "err_len d = 0" "plain t"
    and "gdb_require_retransmission (gdb d) = Served g1"
    and "gdb_packet_analysis h (junk rest) fuel g1 (frame t) = Some (Served g)"
  shows "\<exists>e. yylex h junk fuel d (s @ frame t @ rest) = yylex h junk fuel e rest
    \<and> gdb e = g \<and> err_len e = 0"
proof -
  obtain d1 where d1: "yylex h junk fuel d (s @ frame t @ rest) = yylex h junk fuel d1 (frame t @ rest)"
    "wf_parser d1" "gdb d1 = gdb d" "err_len d1 = length s"
    using yylex_noise [OF assms(1,4), of h junk fuel "frame t @ rest"] assms(3,5) by auto
  obtain e where "handle_error d1 = Some (Going e)" "err_len e = 0" "gdb e = g1"
    using handle_error_wf [OF d1(2)] d1(3,4) assms(2,7) by (auto simp: with_gdb_def)
  then show ?thesis
    using yylex_frame [OF assms(6), of d1 e h junk fuel rest] assms(8) d1(1)
    by (intro exI [of _ "e\<lparr>gdb := g\<rparr>"]) simp
qed

theorem noise_then_packet_witness:
  "\<exists>e. yylex demo_host (\<lambda>_ _. 0) 0 demo_parser ([0x41] @ frame (ascii ''k'') @ []) = Some (Going e)
    \<and> sent (gdb e) = [ascii ''-'', ascii ''+'']"
proof -
  let ?g = "demo_gdb\<lparr>sent := [ascii ''-''], writes_left := 8\<rparr>"
  let ?h = "(acked ?g)\<lparr>writes_left := 0\<rparr>"
  have first: "gdb_require_retransmission demo_gdb = Served ?g"
    by (simp add: gdb_require_retransmission_def rio_writen_def)
  have "gdb_init 0x6b = Some Kill_request" by (simp add: gdb_init_def)
  then have "gdb_packet_analysis demo_host (\<lambda>_. 0) 0 ?g (frame (ascii ''k'')) = Some (Served ?h)"
    by (simp add: ascii_def command_dispatch handle_command_def kill_request_def)
  moreover have "noise [0x41]" "plain (ascii ''k'')" by (simp_all add: noise_def plain_def ascii_def)
  ultimately obtain e where e: "yylex demo_host (\<lambda>_ _. 0) 0 demo_parser ([0x41] @ frame (ascii ''k'') @ [])
      = yylex demo_host (\<lambda>_ _. 0) 0 e []" "gdb e = ?h" "err_len e = 0"
    using noise_then_packet [of "[0x41]" demo_parser "ascii ''k''" ?g demo_host "\<lambda>_ _. 0" "[]" 0 ?h] first by auto
  have "sent ?h = [ascii ''-'', ascii ''+'']" by simp
  then show ?thesis using e by (simp add: yylex_end handle_error_idle)
qed

text \<open>Whatever bytes the client sends, a session that reaches the end of the connection leaves a
  well-formed server and no pending noise.\<close>

lemma session_start:
  assumes "wf_core p" "length packet_junk = 1024" "length err_junk = 1024"
  shows "wf_parser \<lparr>gdb = \<lparr>arm = p, target_exception = 0, packet = packet_junk, gdb_len = 0, sent = [],
    writes_left = writes\<rparr>, err_buffer = err_junk, err_len = 0, echoed = []\<rparr>"
  using assms by (simp add: wf_parser_def wf_gdb_def)

lemma session_keeps_server:
  assumes "wf_core p" "length packet_junk = 1024" "length err_junk = 1024"
    and "gdb_scanner True True writes packet_junk err_junk h junk fuel p input = Some (Going d)"
  shows "wf_gdb (gdb d) \<and> err_len d = 0"
  using yylex_keeps [OF session_start [OF assms(1-3)]] assms(4)
  by (auto simp: gdb_scanner_def gdb_init_data_def wf_parser_def)

end
