(* ===== verification/Rio.thy ===== *)
theory Rio
  imports Prelude
begin

text \<open>
  The robust input and output of \<open>csapp.c\<close>.  The system calls \<open>read\<close> and \<open>write\<close> are
  parameters: functions of the state of the kernel.  What the code relies on is stated by
  \<open>reads_stream\<close> and \<open>writes_stream\<close>: a read returns at least one and at most the requested
  number of the next bytes, none at the end of the input, a write accepts a non-empty prefix, and
  a call that a signal interrupts does nothing.  A loop that retries after signals has fuel, one
  unit per call; in this theory \<open>None\<close> is the end of the fuel, and the theorems give the fuel
  that is enough when the number of signals is finite.
\<close>

section \<open>Reading\<close>

text \<open>The result of a call: the bytes, or -1 with \<open>errno\<close> equal to \<open>EINTR\<close> or not.\<close>

datatype syscall = Returned "u8 list" | Error bool

text \<open>
  The loop of \<open>rio_readn\<close> and of \<open>rio_readnb\<close>, over \<open>read\<close> and over \<open>rio_read\<close>: the bytes
  stored in the user's buffer, whose number is the result, or \<open>None\<close> for the result -1.
\<close>

fun read_loop :: "('s \<Rightarrow> nat \<Rightarrow> (syscall \<times> 's) option) \<Rightarrow> nat \<Rightarrow> 's \<Rightarrow> nat \<Rightarrow> u8 list
    \<Rightarrow> (u8 list option \<times> 's) option" where
  "read_loop read 0 s nleft stored = None"
| "read_loop read (Suc fuel) s nleft stored =
     (if nleft = 0 then Some (Some stored, s)
      else case read s nleft of
        None \<Rightarrow> None
      | Some (Error interrupted, s) \<Rightarrow>
          if interrupted then read_loop read fuel s nleft stored else Some (None, s)
      | Some (Returned bs, s) \<Rightarrow>
          if bs = [] then Some (Some stored, s)
          else read_loop read fuel s (nleft - length bs) (stored @ bs))"

definition rio_readn :: "('s \<Rightarrow> nat \<Rightarrow> syscall \<times> 's) \<Rightarrow> nat \<Rightarrow> 's \<Rightarrow> nat
    \<Rightarrow> (u8 list option \<times> 's) option" where
  "rio_readn sys_read fuel s n = read_loop (\<lambda>s n. Some (sys_read s n)) fuel s n []"

record 's rio =
  rio_fd :: 's
  rio_cnt :: int
  rio_buf :: "u8 list"
  rio_bufptr :: nat

text \<open>The buffer is not initialised.\<close>

definition rio_readinitb :: "'s \<Rightarrow> u8 list \<Rightarrow> 's rio" where
  "rio_readinitb fd junk = \<lparr>rio_fd = fd, rio_cnt = 0, rio_buf = junk, rio_bufptr = 0\<rparr>"

text \<open>The loop of \<open>rio_read\<close>: -1 and 0 are early returns, 1 goes on to the copy.\<close>

fun rio_refill :: "('s \<Rightarrow> nat \<Rightarrow> syscall \<times> 's) \<Rightarrow> nat \<Rightarrow> 's rio \<Rightarrow> (int \<times> 's rio) option" where
  "rio_refill sys_read 0 rp = None"
| "rio_refill sys_read (Suc fuel) rp =
     (if rio_cnt rp > 0 then Some (1, rp)
      else case sys_read (rio_fd rp) 8192 of
        (Error interrupted, s) \<Rightarrow>
          let rp = rp\<lparr>rio_fd := s, rio_cnt := -1\<rparr> in
          if \<not> interrupted then Some (-1, rp) else rio_refill sys_read fuel rp
      | (Returned bs, s) \<Rightarrow>
          let rp = rp\<lparr>rio_fd := s, rio_cnt := int (length bs),
            rio_buf := bs @ drop (length bs) (rio_buf rp)\<rparr> in
          if bs = [] then Some (0, rp) else rio_refill sys_read fuel (rp\<lparr>rio_bufptr := 0\<rparr>))"

definition rio_read :: "('s \<Rightarrow> nat \<Rightarrow> syscall \<times> 's) \<Rightarrow> nat \<Rightarrow> 's rio \<Rightarrow> nat \<Rightarrow> (syscall \<times> 's rio) option" where
  "rio_read sys_read fuel rp n = do {
     (code, rp) \<leftarrow> rio_refill sys_read fuel rp;
     if code = -1 then Some (Error False, rp)
     else if code = 0 then Some (Returned [], rp)
     else
       let cnt = (if rio_cnt rp < int n then rio_cnt rp else int n);
           bytes = take (nat cnt) (drop (rio_bufptr rp) (rio_buf rp))
       in Some (Returned bytes,
            rp\<lparr>rio_bufptr := rio_bufptr rp + nat cnt, rio_cnt := rio_cnt rp - cnt\<rparr>)
   }"

definition rio_readnb :: "('s \<Rightarrow> nat \<Rightarrow> syscall \<times> 's) \<Rightarrow> nat \<Rightarrow> nat \<Rightarrow> 's rio \<Rightarrow> nat
    \<Rightarrow> (u8 list option \<times> 's rio) option" where
  "rio_readnb sys_read fuel_read fuel rp n = read_loop (rio_read sys_read fuel_read) fuel rp n []"

text \<open>
  The loop of \<open>rio_readlineb\<close>: \<open>left\<close> is \<open>maxlen - n\<close>.  The result is the number returned with the
  bytes stored before the final 0, or \<open>None\<close> for -1.
\<close>

fun readline_loop :: "('s \<Rightarrow> nat \<Rightarrow> syscall \<times> 's) \<Rightarrow> nat \<Rightarrow> 's rio \<Rightarrow> nat \<Rightarrow> nat \<Rightarrow> u8 list
    \<Rightarrow> ((nat \<times> u8 list) option \<times> 's rio) option" where
  "readline_loop sys_read fuel rp 0 n stored = Some (Some (n, stored), rp)"
| "readline_loop sys_read fuel rp (Suc left) n stored = do {
     (result, rp) \<leftarrow> rio_read sys_read fuel rp 1;
     case result of
       Error _ \<Rightarrow> Some (None, rp)
     | Returned [] \<Rightarrow> if n = 1 then Some (Some (0, []), rp) else Some (Some (n, stored), rp)
     | Returned (c # _) \<Rightarrow>
         if c = 0x0a then Some (Some (n, stored @ [c]), rp)
         else readline_loop sys_read fuel rp left (n + 1) (stored @ [c])
   }"

definition rio_readlineb :: "('s \<Rightarrow> nat \<Rightarrow> syscall \<times> 's) \<Rightarrow> nat \<Rightarrow> 's rio \<Rightarrow> nat
    \<Rightarrow> ((nat \<times> u8 list) option \<times> 's rio) option" where
  "rio_readlineb sys_read fuel rp maxlen = readline_loop sys_read fuel rp (maxlen - 1) 1 []"

section \<open>Writing\<close>

text \<open>
  A call of \<open>write\<close> returns a number and says whether \<open>errno\<close> is \<open>EINTR\<close>; the code looks at
  \<open>errno\<close> when the number is not positive.  The result is \<open>True\<close> for \<open>n\<close> and \<open>False\<close> for -1.
\<close>

fun write_loop :: "('s \<Rightarrow> u8 list \<Rightarrow> int \<times> bool \<times> 's) \<Rightarrow> nat \<Rightarrow> 's \<Rightarrow> u8 list \<Rightarrow> (bool \<times> 's) option" where
  "write_loop sys_write 0 s bs = None"
| "write_loop sys_write (Suc fuel) s bs =
     (if bs = [] then Some (True, s)
      else case sys_write s bs of
        (nwritten, interrupted, s) \<Rightarrow>
          if nwritten \<le> 0 then
            (if interrupted then write_loop sys_write fuel s bs else Some (False, s))
          else write_loop sys_write fuel s (drop (nat nwritten) bs))"

definition rio_writen_bytes :: "('s \<Rightarrow> u8 list \<Rightarrow> int \<times> bool \<times> 's) \<Rightarrow> nat \<Rightarrow> 's \<Rightarrow> u8 list
    \<Rightarrow> (bool \<times> 's) option" where
  "rio_writen_bytes sys_write fuel s bs = write_loop sys_write fuel s bs"

section \<open>The wrappers\<close>

text \<open>A wrapper ends the process through \<open>unix_error\<close> when the routine returns -1.\<close>

datatype 'a wrapped = Success 'a | Unix_error

definition Rio_readn :: "('s \<Rightarrow> nat \<Rightarrow> syscall \<times> 's) \<Rightarrow> nat \<Rightarrow> 's \<Rightarrow> nat
    \<Rightarrow> (u8 list \<times> 's) wrapped option" where
  "Rio_readn sys_read fuel s n = do {
     (result, s) \<leftarrow> rio_readn sys_read fuel s n;
     Some (case result of None \<Rightarrow> Unix_error | Some bs \<Rightarrow> Success (bs, s))
   }"

definition Rio_writen :: "('s \<Rightarrow> u8 list \<Rightarrow> int \<times> bool \<times> 's) \<Rightarrow> nat \<Rightarrow> 's \<Rightarrow> u8 list
    \<Rightarrow> 's wrapped option" where
  "Rio_writen sys_write fuel s bs = do {
     (ok, s) \<leftarrow> rio_writen_bytes sys_write fuel s bs;
     Some (if ok then Success s else Unix_error)
   }"

definition Rio_readnb :: "('s \<Rightarrow> nat \<Rightarrow> syscall \<times> 's) \<Rightarrow> nat \<Rightarrow> nat \<Rightarrow> 's rio \<Rightarrow> nat
    \<Rightarrow> (u8 list \<times> 's rio) wrapped option" where
  "Rio_readnb sys_read fuel_read fuel rp n = do {
     (result, rp) \<leftarrow> rio_readnb sys_read fuel_read fuel rp n;
     Some (case result of None \<Rightarrow> Unix_error | Some bs \<Rightarrow> Success (bs, rp))
   }"

definition Rio_readlineb :: "('s \<Rightarrow> nat \<Rightarrow> syscall \<times> 's) \<Rightarrow> nat \<Rightarrow> 's rio \<Rightarrow> nat
    \<Rightarrow> (nat \<times> u8 list \<times> 's rio) wrapped option" where
  "Rio_readlineb sys_read fuel rp maxlen = do {
     (result, rp) \<leftarrow> rio_readlineb sys_read fuel rp maxlen;
     Some (case result of None \<Rightarrow> Unix_error | Some (n, bs) \<Rightarrow> Success (n, bs, rp))
   }"

section \<open>What the code relies on\<close>

text \<open>
  The bytes still to be read from a descriptor, and the number of signals still to come, are
  functions of the state of the kernel.  The relations \<open>read_law\<close> and \<open>write_law\<close> relate the
  state before a call, its result and the state after it.
\<close>

fun read_law :: "u8 list \<Rightarrow> nat \<Rightarrow> nat \<Rightarrow> syscall \<Rightarrow> u8 list \<Rightarrow> nat \<Rightarrow> bool" where
  "read_law content signals n (Returned bs) content' signals' \<longleftrightarrow>
     length bs \<le> n \<and> content = bs @ content' \<and> (bs = [] \<longrightarrow> content = []) \<and> signals' \<le> signals"
| "read_law content signals n (Error interrupted) content' signals' \<longleftrightarrow>
     interrupted \<and> content' = content \<and> signals' < signals"

definition reads_stream :: "('s \<Rightarrow> nat \<Rightarrow> syscall \<times> 's) \<Rightarrow> ('s \<Rightarrow> u8 list) \<Rightarrow> ('s \<Rightarrow> nat) \<Rightarrow> bool" where
  "reads_stream sys_read content signals \<longleftrightarrow>
     (\<forall>s n. 0 < n \<longrightarrow> read_law (content s) (signals s) n (fst (sys_read s n))
        (content (snd (sys_read s n))) (signals (snd (sys_read s n))))"

definition writes_stream :: "('s \<Rightarrow> u8 list \<Rightarrow> int \<times> bool \<times> 's) \<Rightarrow> ('s \<Rightarrow> u8 list) \<Rightarrow> ('s \<Rightarrow> nat) \<Rightarrow> bool" where
  "writes_stream sys_write sink signals \<longleftrightarrow>
     (\<forall>s bs. bs \<noteq> [] \<longrightarrow> (case sys_write s bs of (nwritten, interrupted, s') \<Rightarrow>
        if 0 < nwritten
        then nwritten \<le> int (length bs) \<and> sink s' = sink s @ take (nat nwritten) bs
          \<and> signals s' \<le> signals s
        else interrupted \<and> sink s' = sink s \<and> signals s' < signals s))"

text \<open>
  The interface that the loop of \<open>rio_readn\<close> and \<open>rio_readnb\<close> has with what it reads from: the
  system call in the first, \<open>rio_read\<close> in the second.
\<close>

locale byte_source =
  fixes rd :: "'s \<Rightarrow> nat \<Rightarrow> (syscall \<times> 's) option"
    and content :: "'s \<Rightarrow> u8 list"
    and signals :: "'s \<Rightarrow> nat"
    and ok :: "'s \<Rightarrow> bool"
  assumes call: "ok s \<Longrightarrow> 0 < n \<Longrightarrow> \<exists>r s'. rd s n = Some (r, s') \<and> ok s'
    \<and> read_law (content s) (signals s) n r (content s') (signals s')"
begin

lemma loop_reads:
  "ok s \<Longrightarrow> n + signals s < fuel \<Longrightarrow>
   \<exists>s'. read_loop rd fuel s n stored = Some (Some (stored @ take n (content s)), s') \<and> ok s'
     \<and> content s' = drop n (content s) \<and> signals s' \<le> signals s"
proof (induction fuel arbitrary: s n stored)
  case 0
  then show ?case by simp
next
  case (Suc fuel)
  show ?case
  proof (cases "n = 0")
    case True
    then show ?thesis using Suc.prems(1) by simp
  next
    case False
    then obtain r s1 where r: "rd s n = Some (r, s1)" "ok s1"
      "read_law (content s) (signals s) n r (content s1) (signals s1)"
      using call [OF Suc.prems(1), of n] by auto
    show ?thesis
    proof (cases r)
      case (Error i)
      then show ?thesis
        using r False Suc.prems(2) Suc.IH [OF r(2), of n stored] by auto
    next
      case (Returned bs)
      show ?thesis
      proof (cases "bs = []")
        case True
        then show ?thesis using r False Returned by auto
      next
        case nonempty: False
        have "n - length bs + signals s1 < fuel"
          using r(3) Returned nonempty False Suc.prems(2) by (cases bs) auto
        from Suc.IH [OF r(2) this, of "stored @ bs"] show ?thesis
          using r Returned False nonempty by auto
      qed
    qed
  qed
qed

end

section \<open>The unbuffered read\<close>

interpretation descriptor: byte_source "\<lambda>s n. Some (sys_read s n)" content signals
  "\<lambda>_. reads_stream sys_read content signals" for sys_read content signals
  by unfold_locales (simp add: reads_stream_def, metis prod.collapse)

section \<open>The buffered read\<close>

definition wf_rio :: "'s rio \<Rightarrow> bool" where
  "wf_rio rp \<longleftrightarrow> length (rio_buf rp) = 8192
     \<and> (0 < rio_cnt rp \<longrightarrow> rio_bufptr rp + nat (rio_cnt rp) \<le> 8192)"

text \<open>What is still to be read: the unread bytes of the buffer, then those of the descriptor.\<close>

definition unread :: "('s \<Rightarrow> u8 list) \<Rightarrow> 's rio \<Rightarrow> u8 list" where
  "unread content rp = take (nat (rio_cnt rp)) (drop (rio_bufptr rp) (rio_buf rp)) @ content (rio_fd rp)"

lemma wf_rio_readinitb [simp]: "length junk = 8192 \<Longrightarrow> wf_rio (rio_readinitb fd junk)"
  by (simp add: wf_rio_def rio_readinitb_def)

lemma unread_readinitb [simp]: "unread content (rio_readinitb fd junk) = content fd"
  by (simp add: unread_def rio_readinitb_def)

lemma rio_fd_readinitb [simp]: "rio_fd (rio_readinitb fd junk) = fd"
  by (simp add: rio_readinitb_def)

lemma rio_refill_result:
  "reads_stream sys_read content signals \<Longrightarrow> wf_rio rp \<Longrightarrow> signals (rio_fd rp) + 1 < fuel \<Longrightarrow>
   \<exists>code rp'. rio_refill sys_read fuel rp = Some (code, rp') \<and> wf_rio rp'
     \<and> unread content rp' = unread content rp \<and> signals (rio_fd rp') \<le> signals (rio_fd rp)
     \<and> (code = 1 \<and> 0 < rio_cnt rp' \<or> code = 0 \<and> unread content rp = [])"
proof (induction fuel arbitrary: rp)
  case 0
  then show ?case by simp
next
  case (Suc fuel)
  show ?case
  proof (cases "0 < rio_cnt rp")
    case True
    then show ?thesis using Suc.prems by auto
  next
    case False
    obtain r s where rs: "sys_read (rio_fd rp) 8192 = (r, s)" by (cases "sys_read (rio_fd rp) 8192")
    have law: "read_law (content (rio_fd rp)) (signals (rio_fd rp)) 8192 r (content s) (signals s)"
      using Suc.prems(1) rs unfolding reads_stream_def
      by (metis fst_conv snd_conv zero_less_numeral)
    show ?thesis
    proof (cases r)
      case (Error i)
      let ?rp = "rp\<lparr>rio_fd := s, rio_cnt := -1\<rparr>"
      have "wf_rio ?rp" "signals (rio_fd ?rp) + 1 < fuel" "i"
        using Suc.prems law Error by (auto simp: wf_rio_def)
      from Suc.IH [OF Suc.prems(1) this(1,2)] this(3) show ?thesis
        using False rs law Error by (auto simp: unread_def)
    next
      case (Returned bs)
      let ?rp = "rp\<lparr>rio_fd := s, rio_cnt := int (length bs),
        rio_buf := bs @ drop (length bs) (rio_buf rp), rio_bufptr := 0\<rparr>"
      show ?thesis
      proof (cases "bs = []")
        case True
        then show ?thesis
          using False rs law Returned Suc.prems by (auto simp: unread_def wf_rio_def)
      next
        case nonempty: False
        have "wf_rio ?rp"
          using Suc.prems law Returned by (auto simp: wf_rio_def)
        then show ?thesis
          using False rs law Returned nonempty Suc.prems(3)
          by (cases fuel) (auto simp: unread_def)
      qed
    qed
  qed
qed

lemma rio_read_law:
  assumes "reads_stream sys_read content signals" "wf_rio rp" "signals (rio_fd rp) + 1 < fuel" "0 < n"
  shows "\<exists>r rp'. rio_read sys_read fuel rp n = Some (r, rp')
    \<and> (wf_rio rp' \<and> signals (rio_fd rp') + 1 < fuel)
    \<and> read_law (unread content rp) 0 n r (unread content rp') 0"
proof -
  obtain code rp1 where refill: "rio_refill sys_read fuel rp = Some (code, rp1)" "wf_rio rp1"
    "unread content rp1 = unread content rp" "signals (rio_fd rp1) \<le> signals (rio_fd rp)"
    "code = 1 \<and> 0 < rio_cnt rp1 \<or> code = 0 \<and> unread content rp = []"
    using rio_refill_result [OF assms(1-3)] by blast
  show ?thesis
  proof (cases "code = 0")
    case True
    then show ?thesis using refill assms by (simp add: rio_read_def)
  next
    case False
    define k where "k = min (nat (rio_cnt rp1)) n"
    have code: "code = 1" "0 < rio_cnt rp1"
      using refill(5) False by auto
    have k: "(if rio_cnt rp1 < int n then rio_cnt rp1 else int n) = int k" "0 < k" "k \<le> n"
      "int k \<le> rio_cnt rp1"
      using code(2) assms(4) by (auto simp: k_def)
    have fits: "rio_bufptr rp1 + nat (rio_cnt rp1) \<le> 8192" "length (rio_buf rp1) = 8192"
      using refill(2) code(2) by (auto simp: wf_rio_def)
    define rp2 where "rp2 = rp1\<lparr>rio_bufptr := rio_bufptr rp1 + k, rio_cnt := rio_cnt rp1 - int k\<rparr>"
    define bytes where "bytes = take k (drop (rio_bufptr rp1) (rio_buf rp1))"
    have len: "length bytes = k"
      using fits k(4) by (simp add: bytes_def)
    have "nat (rio_cnt rp1) = k + nat (rio_cnt rp1 - int k)"
      using k(4) by simp
    then have "unread content rp1 = bytes @ unread content rp2"
      by (simp add: unread_def rp2_def bytes_def take_add add.commute)
    moreover have "wf_rio rp2"
      using fits k(4) by (auto simp: wf_rio_def rp2_def)
    moreover have "rio_read sys_read fuel rp n = Some (Returned bytes, rp2)"
      by (simp add: rio_read_def refill(1) code(1) k(1) bytes_def rp2_def Let_def)
    moreover have "bytes \<noteq> []"
      using len k(2) by auto
    ultimately show ?thesis
      using refill(3,4) assms(3) len k(3) by (auto simp: rp2_def)
  qed
qed

interpretation buffered: byte_source "rio_read sys_read k" "unread content" "\<lambda>_. 0"
  "\<lambda>rp. reads_stream sys_read content signals \<and> wf_rio rp \<and> signals (rio_fd rp) + 1 < k"
  for sys_read k content signals
  by unfold_locales (use rio_read_law in fastforce)

section \<open>Lines\<close>

text \<open>The line that \<open>rio_readlineb\<close> takes: up to the newline, the limit or the end.\<close>

fun line_of :: "nat \<Rightarrow> u8 list \<Rightarrow> u8 list" where
  "line_of 0 cs = []"
| "line_of (Suc left) [] = []"
| "line_of (Suc left) (c # cs) = c # (if c = 0x0a then [] else line_of left cs)"

definition complete :: "u8 list \<Rightarrow> bool" where
  "complete line \<longleftrightarrow> line \<noteq> [] \<and> List.last line = 0x0a"

lemma not_complete_Nil [simp]: "\<not> complete []"
  by (simp add: complete_def)

lemma complete_Cons: "complete (c # cs) \<longleftrightarrow> (if cs = [] then c = 0x0a else complete cs)"
  by (simp add: complete_def)

lemma line_of_Nil_iff [simp]: "line_of left cs = [] \<longleftrightarrow> left = 0 \<or> cs = []"
  by (cases left; cases cs) auto

lemma line_of_end [simp]: "line_of left [] = []"
  by (cases left) simp_all

lemma line_of_prefix: "\<exists>rest. cs = line_of left cs @ rest"
  by (induction left cs rule: line_of.induct) auto

lemma length_line_of: "length (line_of left cs) \<le> left"
  by (induction left cs rule: line_of.induct) auto

lemma readline_loop_result:
  assumes "reads_stream sys_read content signals"
  shows "wf_rio rp \<Longrightarrow> signals (rio_fd rp) + 1 < fuel \<Longrightarrow> 0 < n \<Longrightarrow>
   \<exists>rp'. readline_loop sys_read fuel rp left n stored = Some (Some
       (let line = line_of left (unread content rp) in
        (if complete line then n + length line - 1
         else if line = [] \<and> 0 < left \<and> n = 1 then 0 else n + length line,
         if line = [] \<and> 0 < left \<and> n = 1 then [] else stored @ line)), rp')
     \<and> wf_rio rp' \<and> unread content rp' = drop (length (line_of left (unread content rp))) (unread content rp)"
proof (induction left arbitrary: rp n stored)
  case 0
  then show ?case by (simp add: complete_def)
next
  case (Suc left)
  obtain r rp1 where r: "rio_read sys_read fuel rp 1 = Some (r, rp1)" "wf_rio rp1"
    "signals (rio_fd rp1) + 1 < fuel" "read_law (unread content rp) 0 1 r (unread content rp1) 0"
    using rio_read_law [OF assms Suc.prems(1,2), of 1] by auto
  show ?case
  proof (cases r)
    case (Error i)
    then show ?thesis using r(4) by simp
  next
    case (Returned bs)
    show ?thesis
    proof (cases bs)
      case Nil
      then have "unread content rp = []" "unread content rp1 = []"
        using r(4) Returned by auto
      then show ?thesis using r(1,2) Returned Nil by (simp add: complete_def)
    next
      case (Cons c cs)
      then have c: "bs = [c]" "unread content rp = c # unread content rp1"
        using r(4) Returned by auto
      show ?thesis
      proof (cases "c = 0x0a")
        case True
        then show ?thesis using r Returned c by (simp add: complete_def)
      next
        case False
        then show ?thesis
          using Suc.IH [OF r(2,3), of "n + 1" "stored @ [c]"] r(1) Returned c Suc.prems(3)
          by (auto simp: Let_def complete_Cons split: if_splits)
      qed
    qed
  qed
qed

section \<open>The write\<close>

lemma write_loop_result:
  "writes_stream sys_write sink signals \<Longrightarrow> length bs + signals s < fuel \<Longrightarrow>
   \<exists>s'. write_loop sys_write fuel s bs = Some (True, s') \<and> sink s' = sink s @ bs
     \<and> signals s' \<le> signals s"
proof (induction fuel arbitrary: s bs)
  case 0
  then show ?case by simp
next
  case (Suc fuel)
  show ?case
  proof (cases "bs = []")
    case True
    then show ?thesis by simp
  next
    case False
    obtain k i s1 where w: "sys_write s bs = (k, i, s1)" by (cases "sys_write s bs")
    have law: "if 0 < k
        then k \<le> int (length bs) \<and> sink s1 = sink s @ take (nat k) bs \<and> signals s1 \<le> signals s
        else i \<and> sink s1 = sink s \<and> signals s1 < signals s"
      using Suc.prems(1) False w unfolding writes_stream_def by (metis (mono_tags, lifting) case_prod_conv)
    show ?thesis
    proof (cases "0 < k")
      case positive: True
      then have "length (drop (nat k) bs) + signals s1 < fuel"
        using law Suc.prems(2) by (simp add: nat_le_iff) linarith
      then obtain s' where "write_loop sys_write fuel s1 (drop (nat k) bs) = Some (True, s')"
        "sink s' = sink s1 @ drop (nat k) bs" "signals s' \<le> signals s1"
        using Suc.IH [OF Suc.prems(1)] by blast
      then show ?thesis
        using positive law w False by simp
    next
      case none: False
      then have "length bs + signals s1 < fuel"
        using law Suc.prems(2) by simp
      then obtain s' where "write_loop sys_write fuel s1 bs = Some (True, s')"
        "sink s' = sink s1 @ bs" "signals s' \<le> signals s1"
        using Suc.IH [OF Suc.prems(1)] by blast
      then show ?thesis
        using none law w False by simp
    qed
  qed
qed

end
