(* ===== verification/Debug.thy ===== *)
theory Debug
  imports Prelude "HOL-Library.List_Lexorder"
begin

text \<open>
  \<open>debug.c\<close>: the table of the source files whose debug messages are shown, a sorted array of at
  most \<open>MAX_FILES_NUMBER\<close> strings.  A string is the list of its bytes without the final 0; a
  cell that was never written holds a null pointer, and comparing it is undefined.
\<close>

section \<open>The table\<close>

text \<open>The sign of \<open>strcmp\<close>: the order of the unsigned bytes, with the shorter string first.\<close>

fun strcmp :: "u8 list \<Rightarrow> u8 list \<Rightarrow> int" where
  "strcmp [] [] = 0"
| "strcmp [] (b # bs) = -1"
| "strcmp (a # as) [] = 1"
| "strcmp (a # as) (b # bs) = (if a = b then strcmp as bs else if a < b then -1 else 1)"

record debug_table =
  debugged_files :: "u8 list option list"
  nb_debugged_files :: nat

definition no_debug :: debug_table where
  "no_debug = \<lparr>debugged_files = replicate 64 None, nb_debugged_files = 0\<rparr>"

definition file_at :: "debug_table \<Rightarrow> nat \<Rightarrow> u8 list option" where
  "file_at d i = do { cell \<leftarrow> aget (debugged_files d) i; cell }"

text \<open>The first loop of \<open>add_debug_to\<close>.\<close>

function find_position :: "debug_table \<Rightarrow> u8 list \<Rightarrow> nat \<Rightarrow> nat option" where
  "find_position d name i =
     (if i < nb_debugged_files d \<and> i < 64 then do {
        file \<leftarrow> file_at d i;
        if strcmp file name < 0 then find_position d name (i + 1) else Some i
      }
      else Some i)"
  by pat_completeness auto

termination by (relation "measure (\<lambda>(d, name, i). 64 - i)") auto

text \<open>The second loop, for \<open>j\<close> down to \<open>i + 1\<close>.\<close>

fun shift_up :: "nat \<Rightarrow> nat \<Rightarrow> u8 list option list \<Rightarrow> u8 list option list option" where
  "shift_up i 0 files = Some files"
| "shift_up i (Suc j) files =
     (if Suc j > i then do {
        file \<leftarrow> aget files j;
        files \<leftarrow> aset files (Suc j) file;
        shift_up i j files
      }
      else Some files)"

definition add_debug_to :: "debug_table \<Rightarrow> u8 list \<Rightarrow> debug_table option" where
  "add_debug_to d name = do {
     i \<leftarrow> find_position d name 0;
     if i \<ge> 64 then Some d
     else do {
       files \<leftarrow> shift_up i (nb_debugged_files d) (debugged_files d);
       files \<leftarrow> aset files i (Some name);
       Some (d\<lparr>debugged_files := files, nb_debugged_files := nb_debugged_files d + 1\<rparr>)
     }
   }"

text \<open>The binary search; \<open>from\<close> and \<open>to\<close> are C integers, \<open>to\<close> may become -1.\<close>

function search_loop :: "debug_table \<Rightarrow> u8 list \<Rightarrow> int \<Rightarrow> int \<Rightarrow> bool option" where
  "search_loop d name start stop =
     (if start < stop then
        (let middle = (start + stop) div 2 in
         case file_at d (nat middle) of None \<Rightarrow> None
         | Some file \<Rightarrow>
             if strcmp file name < 0 then search_loop d name (middle + 1) stop
             else if strcmp file name > 0 then search_loop d name start (middle - 1)
             else Some True)
      else if start = stop then do {
        file \<leftarrow> file_at d (nat start);
        Some (strcmp file name = 0)
      }
      else Some False)"
  by pat_completeness auto

termination by (relation "measure (\<lambda>(d, name, start, stop). nat (stop - start))") auto

definition is_debugged :: "debug_table \<Rightarrow> u8 list \<Rightarrow> bool option" where
  "is_debugged d name = search_loop d name 0 (int (nb_debugged_files d) - 1)"

declare find_position.simps [simp del] search_loop.simps [simp del]

section \<open>The order of the names\<close>

lemma strcmp_sign:
  "strcmp a b < 0 \<longleftrightarrow> a < b" "0 < strcmp a b \<longleftrightarrow> b < a" "strcmp a b = 0 \<longleftrightarrow> a = b"
  by (induction a b rule: strcmp.induct) auto

lemma insort_split:
  fixes names :: "u8 list list"
  shows "insort name names
    = takeWhile (\<lambda>f. f < name) names @ name # dropWhile (\<lambda>f. f < name) names"
  by (induction names) (auto simp: not_less)

section \<open>The table as a sorted list\<close>

definition holds :: "debug_table \<Rightarrow> u8 list list \<Rightarrow> bool" where
  "holds d names \<longleftrightarrow> length (debugged_files d) = 64 \<and> nb_debugged_files d = length names
     \<and> length names \<le> 64 \<and> sorted names
     \<and> (\<forall>k < length names. debugged_files d ! k = Some (names ! k))"

lemma holds_no_debug: "holds no_debug []"
  by (simp add: holds_def no_debug_def)

lemma file_at_holds: "holds d names \<Longrightarrow> k < length names \<Longrightarrow> file_at d k = Some (names ! k)"
  by (simp add: holds_def file_at_def)

lemma find_position_eq:
  assumes "holds d names" "i \<le> length names"
  shows "find_position d name i = Some (i + length (takeWhile (\<lambda>f. f < name) (drop i names)))"
  using assms
proof (induction d name i rule: find_position.induct)
  case (1 d name i)
  show ?case
  proof (cases "i < length names")
    case True
    then have d: "drop i names = names ! i # drop (i + 1) names" by (simp add: Cons_nth_drop_Suc)
    have "i < 64" "nb_debugged_files d = length names" using True 1(2) by (auto simp: holds_def)
    then show ?thesis
      using 1 True file_at_holds [OF 1(2) True]
      by (subst find_position.simps) (simp add: d strcmp_sign)
  next
    case False
    then show ?thesis using 1(2,3) by (subst find_position.simps) (simp add: holds_def)
  qed
qed

lemma shift_up_eq:
  assumes "n < length files" "i \<le> n"
  shows "\<exists>files'. shift_up i n files = Some files' \<and> length files' = length files
    \<and> (\<forall>k < length files. files' ! k = (if i < k \<and> k \<le> n then files ! (k - 1) else files ! k))"
  using assms
proof (induction n arbitrary: files)
  case (Suc n)
  show ?case
  proof (cases "i \<le> n")
    case True
    let ?f = "files[Suc n := files ! n]"
    obtain files' where f: "shift_up i n ?f = Some files'" "length files' = length files"
      "\<forall>k < length files. files' ! k = (if i < k \<and> k \<le> n then ?f ! (k - 1) else ?f ! k)"
      using Suc.IH [of ?f] Suc.prems True by auto
    have "files' ! k = (if i < k \<and> k \<le> Suc n then files ! (k - 1) else files ! k)"
      if "k < length files" for k
      using f(3) that Suc.prems(1) True by (auto simp: nth_list_update)
    then show ?thesis using f(1,2) Suc.prems True by simp
  next
    case False
    then show ?thesis using Suc.prems by (auto simp: le_Suc_eq)
  qed
qed simp

lemma nth_insert:
  "i \<le> length xs \<Longrightarrow> k \<le> length xs
    \<Longrightarrow> (take i xs @ x # drop i xs) ! k = (if k < i then xs ! k else if k = i then x else xs ! (k - 1))"
  by (auto simp: nth_append nth_Cons')

lemma add_debug_to_eq:
  assumes "holds d names" "length names < 64"
  shows "\<exists>d'. add_debug_to d name = Some d' \<and> holds d' (insort name names)"
proof -
  let ?n = "length names"
  define i where "i = length (takeWhile (\<lambda>f. f < name) names)"
  have i: "find_position d name 0 = Some i" "i \<le> ?n"
    using find_position_eq [OF assms(1), of 0 name] by (simp_all add: length_takeWhile_le i_def)
  have h: "length (debugged_files d) = 64" "nb_debugged_files d = ?n" "sorted names"
    "\<And>k. k < ?n \<Longrightarrow> debugged_files d ! k = Some (names ! k)"
    using assms(1) by (auto simp: holds_def)
  obtain files where f: "shift_up i ?n (debugged_files d) = Some files" "length files = 64"
    "\<And>k. k < 64 \<Longrightarrow> files ! k = (if i < k \<and> k \<le> ?n then debugged_files d ! (k - 1) else debugged_files d ! k)"
    using shift_up_eq [of ?n "debugged_files d" i] h(1) i(2) assms(2) by auto
  let ?d = "d\<lparr>debugged_files := files[i := Some name], nb_debugged_files := ?n + 1\<rparr>"
  have split: "insort name names = take i names @ name # drop i names"
    by (simp add: insort_split i_def flip: takeWhile_eq_take dropWhile_eq_drop)
  have "files[i := Some name] ! k = Some (insort name names ! k)" if "k \<le> ?n" for k
  proof -
    consider "k < i" | "k = i" | "i < k" by linarith
    then show ?thesis
      using that f(2) f(3) [of k] h(4) [of k] h(4) [of "k - 1"] assms(2) i(2) nth_insert [OF i(2) that, of name]
      by cases (simp_all add: split)
  qed
  then have "holds ?d (insort name names)"
    using h(3) f(2) assms(2) by (simp add: holds_def sorted_insort less_Suc_eq_le)
  moreover have "add_debug_to d name = Some ?d"
    using i f(1,2) h(2) assms(2) by (simp add: add_debug_to_def)
  ultimately show ?thesis by blast
qed

text \<open>In a full table a name that is not larger than all the others is stored past the end.\<close>

lemma add_debug_to_full:
  assumes "holds d names" "length names = 64"
  shows "add_debug_to d name = (if \<forall>f \<in> set names. f < name then Some d else None)"
proof -
  let ?i = "length (takeWhile (\<lambda>f. f < name) names)"
  have i: "find_position d name 0 = Some ?i" "?i \<le> 64"
    using find_position_eq [OF assms(1), of 0 name] assms(2) length_takeWhile_le [of _ names] by simp_all
  have "takeWhile (\<lambda>f. f < name) names = take ?i names" by (rule takeWhile_eq_take)
  then have all: "?i < 64 \<longleftrightarrow> \<not> (\<forall>f \<in> set names. f < name)"
    using assms(2) i(2) takeWhile_eq_all_conv [of "\<lambda>f. f < name" names] by (metis nat_less_le take_all_iff order_refl)
  have "shift_up ?i 64 (debugged_files d) = None" if "?i < 64"
  proof -
    have "shift_up ?i (Suc 63) (debugged_files d) = None"
      using that assms by (subst shift_up.simps(2)) (simp add: holds_def aset_def aget_def)
    then show ?thesis by simp
  qed
  then show ?thesis
    using i all assms by (auto simp: add_debug_to_def holds_def)
qed

lemma search_loop_eq:
  assumes "holds d names" "0 \<le> start" "stop < int (length names)"
    and "\<forall>k < length names. int k < start \<longrightarrow> names ! k < name"
    and "\<forall>k < length names. stop < int k \<longrightarrow> name < names ! k"
  shows "search_loop d name start stop = Some (name \<in> set names)"
  using assms
proof (induction d name start stop rule: search_loop.induct)
  case (1 d name start stop)
  have member: "name \<in> set names \<longleftrightarrow> (\<exists>k < length names. start \<le> int k \<and> int k \<le> stop \<and> names ! k = name)"
    using 1(6,7) by (auto simp: in_set_conv_nth) (metis less_irrefl not_less)
  have sorted: "i \<le> j \<Longrightarrow> j < length names \<Longrightarrow> names ! i \<le> names ! j" for i j
    using 1(3) by (auto simp: holds_def intro: sorted_nth_mono)
  show ?case
  proof (cases "start < stop")
    case True
    let ?m = "(start + stop) div 2"
    have m: "start \<le> ?m" "?m < stop" "nat ?m < length names" using True 1(4,5) by auto
    have f: "file_at d (nat ?m) = Some (names ! nat ?m)" using file_at_holds [OF 1(3) m(3)] .
    let ?f = "names ! nat ?m"
    have unfold: "search_loop d name start stop = (if ?f < name then search_loop d name (?m + 1) stop
        else if name < ?f then search_loop d name start (?m - 1) else Some True)"
      using True f by (subst search_loop.simps) (simp add: strcmp_sign Let_def)
    consider "?f < name" | "name < ?f" | "?f = name" by fastforce
    then show ?thesis
    proof cases
      case less: 1
      have "names ! k < name" if "k < length names" "int k < ?m + 1" for k
      proof -
        have "k \<le> nat ?m" using that(2) m by linarith
        then show ?thesis using sorted [of k "nat ?m"] less m(3) by (meson le_less_trans)
      qed
      then have "search_loop d name (?m + 1) stop = Some (name \<in> set names)"
        using less m 1(3-7) f True by (intro 1(1) [OF True refl f]) (auto simp: strcmp_sign)
      then show ?thesis using unfold less by simp
    next
      case more: 2
      have "name < names ! k" if "k < length names" "?m - 1 < int k" for k
      proof -
        have "nat ?m \<le> k" using that(2) m by linarith
        then show ?thesis using sorted [of "nat ?m" k] more that(1) by (meson less_le_trans)
      qed
      then have "search_loop d name start (?m - 1) = Some (name \<in> set names)"
        using more less_not_sym [OF more] m 1(3-7) f True by (intro 1(2) [OF True refl f]) (auto simp: strcmp_sign)
      then show ?thesis using unfold more by auto
    next
      case 3
      then show ?thesis using unfold m nth_mem [OF m(3)] by auto
    qed
  next
    case False
    show ?thesis
    proof (cases "start = stop")
      case True
      then have "file_at d (nat start) = Some (names ! nat start)"
        using 1(4,5) by (intro file_at_holds [OF 1(3)]) auto
      then show ?thesis using True 1(4,5) member
        by (subst search_loop.simps) (auto simp: strcmp_sign intro: exI [of _ "nat start"])
    next
      case other: False
      then show ?thesis using False member by (subst search_loop.simps) auto
    qed
  qed
qed

lemma is_debugged_eq:
  assumes "holds d names"
  shows "is_debugged d name = Some (name \<in> set names)"
  using search_loop_eq [OF assms, of 0 "int (length names) - 1" name] assms
  by (auto simp: is_debugged_def holds_def)

end
