(* ===== verification/SendIrq.thy ===== *)
theory SendIrq
  imports Constants Debug
begin

text \<open>
  \<open>send_irq.c\<close>: the program that sends the number of an interrupt to the simulator.  Its arguments
  are \<open>argv\<close> without the name of the program; a result is the byte written on the socket or the
  code of \<open>exit\<close>.  The connection itself is the library's.
\<close>

datatype irq_client = Send u8 | Exit_code int

definition c_bytes :: "string \<Rightarrow> u8 list" where
  "c_bytes s = map of_char s"

text \<open>
  The loop over the names.  \<open>irq\<close> is an unsigned char; the names end before it wraps, and the
  loop has one unit of fuel per number.
\<close>

fun find_irq :: "nat \<Rightarrow> u8 \<Rightarrow> u8 list \<Rightarrow> irq_client option" where
  "find_irq 0 irq name = None"
| "find_irq (Suc fuel) irq name = do {
     irq_name \<leftarrow> arm_get_exception_name irq;
     case irq_name of None \<Rightarrow> Some (Exit_code 2)
     | Some s \<Rightarrow> if strcmp (c_bytes s) name = 0 then Some (Send irq) else find_irq fuel (irq + 1) name
   }"

definition send_irq :: "u8 list list \<Rightarrow> irq_client option" where
  "send_irq args = (case args of
     host # port # rest \<Rightarrow> (case rest of [] \<Rightarrow> Some (Send (word_of_int INTERRUPT))
       | name # _ \<Rightarrow> find_irq 256 (word_of_int RESET) name)
   | _ \<Rightarrow> Some (Exit_code 1))"

lemma strcmp_0: "strcmp as bs = 0 \<longleftrightarrow> as = bs"
  by (induction as bs rule: strcmp.induct) auto

lemma exception_names:
  "arm_get_exception_name 1 = Some (Some ''reset'')"
  "arm_get_exception_name 2 = Some (Some ''undefined instruction'')"
  "arm_get_exception_name 3 = Some (Some ''software interrupt'')"
  "arm_get_exception_name 4 = Some (Some ''prefetch abort'')"
  "arm_get_exception_name 5 = Some (Some ''data abort'')"
  "arm_get_exception_name 6 = Some (Some ''interrupt'')"
  "arm_get_exception_name 7 = Some (Some ''fast interrupt'')"
  "arm_get_exception_name 8 = Some None"
  by (simp_all add: arm_get_exception_name_def arm_exception_names_def aget_def)

text \<open>The search as a table.\<close>

definition irq_numbers :: "(string \<times> u8) list" where
  "irq_numbers = [(''reset'', 1), (''undefined instruction'', 2), (''software interrupt'', 3),
     (''prefetch abort'', 4), (''data abort'', 5), (''interrupt'', 6), (''fast interrupt'', 7)]"

lemma find_irq_table:
  "find_irq (Suc (Suc (Suc (Suc (Suc (Suc (Suc (Suc fuel)))))))) 1 name =
     Some (case map_of (map (\<lambda>(s, n). (c_bytes s, n)) irq_numbers) name of
       Some n \<Rightarrow> Send n | None \<Rightarrow> Exit_code 2)"
  by (simp add: exception_names [simplified] strcmp_0 irq_numbers_def)

end
