(* ===== verification/Trace.thy ===== *)
theory Trace
  imports Core
begin

text \<open>
  \<open>trace.c\<close>: what the simulator reports of its accesses to the registers and to the memory.  The
  static variables are the fields of a record, and a line printed on the trace file is a value
  with the arguments of its \<open>fprintf\<close>.  The format is the one of a build without
  \<open>ARM_TRACE_FORMAT\<close>.  The two location arrays have 128 cells and the code does not test their
  bounds.
\<close>

section \<open>The state of the core\<close>

text \<open>
  What \<open>arm_print_state\<close> of \<open>arm_core.c\<close> prints: one item per \<open>fprintf\<close>, with its arguments.
\<close>

datatype state_item = Mode_label string | Wrap | Register_item string u32 | Cpsr_item u32 | Newline
  | Padding

definition register_item :: "u8 \<Rightarrow> u32 option \<Rightarrow> state_item option" where
  "register_item reg contents = do {
     v \<leftarrow> contents;
     name \<leftarrow> do { name \<leftarrow> arm_get_register_name reg; name };
     Some (Register_item name v)
   }"

text \<open>The inner loop; \<open>count\<close> only advances in the modes other than the user mode.\<close>

fun print_registers :: "arm_core \<Rightarrow> u8 \<Rightarrow> nat list \<Rightarrow> nat \<Rightarrow> state_item list option" where
  "print_registers p m [] count = Some []"
| "print_registers p m (reg # regs) count =
     (if m = USR then do {
        i \<leftarrow> register_item (word_of_nat reg) (arm_read_usr_register p (word_of_nat reg));
        items \<leftarrow> print_registers p m regs count;
        Some ((if reg > 0 \<and> reg mod 5 = 0 then [Wrap] else []) @ i # items)
      }
      else do {
        i \<leftarrow> register_item (word_of_nat reg) (arm_read_register p (word_of_nat reg));
        items \<leftarrow> print_registers p m regs (count + 1);
        Some ((if count > 0 \<and> count mod 5 = 0 then [Wrap] else []) @ i # items)
      })"

definition mode_end :: "u8 \<Rightarrow> state_item list" where
  "mode_end m = (if m \<in> {USR, FIQ, SVC, UND} then [Newline] else if m \<in> {IRQ, ABT} then [Padding] else [])"

fun print_modes :: "arm_core \<Rightarrow> nat list \<Rightarrow> state_item list option" where
  "print_modes p [] = Some []"
| "print_modes p (n # ns) = do {
     let m = word_of_nat n;
     name \<leftarrow> arm_get_mode_name m;
     items \<leftarrow> (case name of None \<Rightarrow> Some [] | Some s \<Rightarrow> do {
        regs \<leftarrow> print_registers p m [0..<16] 0;
        status \<leftarrow> (if m = USR then do { v \<leftarrow> arm_read_cpsr p; Some [Cpsr_item v] } else Some []);
        Some ((if m \<noteq> SYS then [Mode_label s] else []) @ regs @ status @ mode_end m)
      });
     rest \<leftarrow> print_modes p ns;
     Some (items @ rest)
   }"

definition arm_print_state :: "arm_core \<Rightarrow> state_item list option" where
  "arm_print_state p = print_modes p [0..<32]"

section \<open>The state of the tracer\<close>

abbreviation (input) "MEMORY \<equiv> 1 :: u32"
abbreviation (input) "REGISTERS \<equiv> 2 :: u32"
abbreviation (input) "STATE \<equiv> 4 :: u32"
abbreviation (input) "POSITION \<equiv> 8 :: u32"

datatype trace_line =
  Location string int
| Memory_access u32 string string u8 string u32 u32
| Register_access u32 string string string u32
| Core_state "state_item list"

record tracer =
  trace_output :: "trace_line list"
  last_address :: u32
  trace_enabled :: bool
  location_file_stack :: "string option list"
  location_line_stack :: "int list"
  location_stack_top :: int
  trace_flags :: u32

definition initial_tracer :: tracer where
  "initial_tracer = \<lparr>trace_output = [], last_address = 0x12345678, trace_enabled = True,
     location_file_stack = replicate 128 None, location_line_stack = replicate 128 0,
     location_stack_top = -1, trace_flags = 0\<rparr>"

definition trace_memory_seq :: "string list" where
  "trace_memory_seq = ['''', '''']"

definition trace_memory_cause :: "string list" where
  "trace_memory_cause = ['''', '', fetch'']"

definition trace_memory_type :: "string list" where
  "trace_memory_type = [''write'', ''read'']"

definition trace_register_type :: "string list" where
  "trace_register_type = [''write'', ''read'']"

section \<open>Operations\<close>

definition trace_start_location :: "tracer \<Rightarrow> string \<Rightarrow> int \<Rightarrow> tracer option" where
  "trace_start_location t file line =
     (if trace_enabled t then
        (let top = location_stack_top t + 1 in
         if top < 0 then None
         else do {
           files \<leftarrow> aset (location_file_stack t) (nat top) (Some file);
           lines \<leftarrow> aset (location_line_stack t) (nat top) line;
           Some (t\<lparr>location_stack_top := top, location_file_stack := files,
             location_line_stack := lines\<rparr>)
         })
      else Some t)"

definition trace_end_location :: "tracer \<Rightarrow> tracer" where
  "trace_end_location t =
     (if trace_enabled t then t\<lparr>location_stack_top := location_stack_top t - 1\<rparr> else t)"

definition trace_print :: "tracer \<Rightarrow> trace_line \<Rightarrow> tracer" where
  "trace_print t entry = t\<lparr>trace_output := trace_output t @ [entry]\<rparr>"

definition trace_print_location :: "tracer \<Rightarrow> tracer option" where
  "trace_print_location t =
     (if trace_enabled t \<and> trace_flags t AND POSITION \<noteq> 0 \<and> location_stack_top t \<ge> 0 then do {
        cell \<leftarrow> aget (location_file_stack t) (nat (location_stack_top t));
        file \<leftarrow> cell;
        line \<leftarrow> aget (location_line_stack t) (nat (location_stack_top t));
        Some (trace_print t (Location file line))
      }
      else Some t)"

definition trace_memory :: "tracer \<Rightarrow> u32 \<Rightarrow> u8 \<Rightarrow> u8 \<Rightarrow> u8 \<Rightarrow> u32 \<Rightarrow> u32 \<Rightarrow> tracer option" where
  "trace_memory t cycle type n cause address v =
     (if trace_enabled t \<and> trace_flags t AND MEMORY \<noteq> 0 then do {
        let seq = (if address = last_address t + 4 then 1 else 0);
        t \<leftarrow> trace_print_location (t\<lparr>last_address := address\<rparr>);
        seq_name \<leftarrow> aget trace_memory_seq seq;
        type_name \<leftarrow> aget trace_memory_type (unat type);
        cause_name \<leftarrow> aget trace_memory_cause (unat cause);
        Some (trace_print t (Memory_access cycle seq_name type_name n cause_name address v))
      }
      else Some t)"

text \<open>\<open>mode_name\<close> is an array of 5 characters, for an underscore, the name and the final 0.\<close>

definition trace_register :: "tracer \<Rightarrow> u32 \<Rightarrow> u8 \<Rightarrow> u8 \<Rightarrow> u8 \<Rightarrow> u32 \<Rightarrow> tracer option" where
  "trace_register t cycle type reg m v =
     (if trace_enabled t \<and> trace_flags t AND REGISTERS \<noteq> 0 then do {
        name \<leftarrow> arm_get_mode_name m;
        mode_name \<leftarrow> (case name of None \<Rightarrow> Some ''''
          | Some s \<Rightarrow> if length s + 2 \<le> 5 then Some (''_'' @ s) else None);
        t \<leftarrow> trace_print_location t;
        type_name \<leftarrow> aget trace_register_type (unat type);
        reg_name \<leftarrow> do { name \<leftarrow> arm_get_register_name reg; name };
        Some (trace_print t (Register_access cycle type_name reg_name mode_name v))
      }
      else Some t)"

text \<open>The reads of \<open>arm_print_state\<close> are the unlocated ones of \<open>arm_core.c\<close>; their own reports are
  left out.\<close>

definition trace_arm_state :: "tracer \<Rightarrow> arm_core \<Rightarrow> tracer option" where
  "trace_arm_state t p =
     (if trace_enabled t \<and> trace_flags t AND STATE \<noteq> 0 then do {
        items \<leftarrow> arm_print_state p;
        Some (trace_print t (Core_state items))
      }
      else Some t)"

definition trace_disable :: "tracer \<Rightarrow> tracer" where
  "trace_disable t = t\<lparr>trace_enabled := False\<rparr>"

definition trace_enable :: "tracer \<Rightarrow> tracer" where
  "trace_enable t = t\<lparr>trace_enabled := True\<rparr>"

definition trace_add :: "tracer \<Rightarrow> u32 \<Rightarrow> tracer" where
  "trace_add t flags = t\<lparr>trace_flags := trace_flags t OR flags\<rparr>"

section \<open>Properties\<close>

definition wf_tracer :: "tracer \<Rightarrow> bool" where
  "wf_tracer t \<longleftrightarrow> length (location_file_stack t) = 128 \<and> length (location_line_stack t) = 128
     \<and> -1 \<le> location_stack_top t \<and> location_stack_top t \<le> 127
     \<and> (\<forall>i \<le> location_stack_top t. 0 \<le> i \<longrightarrow> location_file_stack t ! nat i \<noteq> None)"

lemma wf_initial_tracer: "wf_tracer initial_tracer"
  by (simp add: wf_tracer_def initial_tracer_def)

text \<open>
  A call between \<open>LOCATION\<close> and \<open>END_LOCATION\<close>, the way \<open>trace_location.h\<close> wraps the accesses to
  the core, when the operands of the sum are evaluated from left to right.
\<close>

definition located :: "string \<Rightarrow> int \<Rightarrow> (tracer \<Rightarrow> tracer option) \<Rightarrow> tracer \<Rightarrow> tracer option" where
  "located file line access t = do {
     t \<leftarrow> trace_start_location t file line;
     t \<leftarrow> access t;
     Some (trace_end_location t)
   }"

lemma wf_trace_start_location:
  assumes "wf_tracer t" "location_stack_top t < 127"
  shows "\<exists>t'. trace_start_location t file line = Some t' \<and> wf_tracer t'
    \<and> (trace_enabled t \<longrightarrow> location_stack_top t' = location_stack_top t + 1
       \<and> location_file_stack t' ! nat (location_stack_top t') = Some file
       \<and> location_line_stack t' ! nat (location_stack_top t') = line)
    \<and> (\<not> trace_enabled t \<longrightarrow> t' = t)
    \<and> trace_output t' = trace_output t \<and> last_address t' = last_address t
    \<and> trace_enabled t' = trace_enabled t \<and> trace_flags t' = trace_flags t"
  using assms
  by (auto simp: trace_start_location_def wf_tracer_def aset_def Let_def nth_list_update
      nat_eq_iff zless_nat_eq_int_zless)

lemma start_location_overflow:
  assumes "wf_tracer t" "trace_enabled t" "location_stack_top t = 127"
  shows "trace_start_location t file line = None"
  using assms by (simp add: trace_start_location_def wf_tracer_def aset_def)

text \<open>The lines that an access adds.\<close>

definition position_lines :: "tracer \<Rightarrow> string \<Rightarrow> int \<Rightarrow> trace_line list" where
  "position_lines t file line = (if trace_flags t AND POSITION \<noteq> 0 then [Location file line] else [])"

lemma trace_print_location_wf:
  assumes "wf_tracer t" "trace_enabled t" "0 \<le> location_stack_top t"
    "location_file_stack t ! nat (location_stack_top t) = Some file"
    "location_line_stack t ! nat (location_stack_top t) = line"
  shows "trace_print_location t = Some (t\<lparr>trace_output := trace_output t @ position_lines t file line\<rparr>)"
  using assms
  by (auto simp: trace_print_location_def wf_tracer_def aget_def position_lines_def trace_print_def)

lemma trace_memory_wf:
  assumes "wf_tracer t" "trace_enabled t" "trace_flags t AND MEMORY \<noteq> 0" "type < 2" "cause < 2"
    "0 \<le> location_stack_top t"
    "location_file_stack t ! nat (location_stack_top t) = Some file"
    "location_line_stack t ! nat (location_stack_top t) = line"
  shows "trace_memory t cycle type n cause address v = Some (t\<lparr>last_address := address,
    trace_output := trace_output t @ position_lines t file line @
      [Memory_access cycle '''' (if type = 0 then ''write'' else ''read'') n
        (if cause = 0 then '''' else '', fetch'') address v]\<rparr>)"
proof -
  have two: "x = 0 \<or> x = 1" if "x < 2" for x :: u8
    using that by (auto simp: word_less_nat_alt word_unat_eq_iff)
  show ?thesis
    using assms two [OF assms(4)] two [OF assms(5)]
      trace_print_location_wf [of "t\<lparr>last_address := address\<rparr>" "file" "line"]
    by (auto simp: trace_memory_def wf_tracer_def position_lines_def Let_def trace_print_def
        trace_memory_type_def trace_memory_cause_def trace_memory_seq_def)
qed

lemma wf_tracer_pop:
  assumes "wf_tracer t" "0 \<le> location_stack_top t"
  shows "wf_tracer (trace_end_location t)"
  using assms by (auto simp: wf_tracer_def trace_end_location_def)

lemma wf_tracer_output [simp]:
  "wf_tracer (t\<lparr>last_address := a, trace_output := out\<rparr>) = wf_tracer t"
  by (simp add: wf_tracer_def)

lemma located_memory:
  assumes "wf_tracer t" "trace_enabled t" "location_stack_top t < 127" "trace_flags t AND MEMORY \<noteq> 0"
    "type < 2" "cause < 2"
  shows "\<exists>t'. located file line (\<lambda>t. trace_memory t cycle type n cause address v) t = Some t'
    \<and> wf_tracer t' \<and> location_stack_top t' = location_stack_top t \<and> last_address t' = address
    \<and> trace_output t' = trace_output t @ position_lines t file line @
      [Memory_access cycle '''' (if type = 0 then ''write'' else ''read'') n
        (if cause = 0 then '''' else '', fetch'') address v]"
proof -
  obtain t1 where t1: "trace_start_location t file line = Some t1" "wf_tracer t1"
    "location_stack_top t1 = location_stack_top t + 1"
    "location_file_stack t1 ! nat (location_stack_top t1) = Some file"
    "location_line_stack t1 ! nat (location_stack_top t1) = line"
    "trace_output t1 = trace_output t" "trace_enabled t1" "trace_flags t1 = trace_flags t"
    using wf_trace_start_location [OF assms(1,3), of "file" "line"] assms(2) by auto
  have top: "0 \<le> location_stack_top t1" using assms(1) t1(3) by (simp add: wf_tracer_def)
  have flags: "trace_flags t1 AND MEMORY \<noteq> 0" using assms(4) t1(8) by simp
  note traced = trace_memory_wf [OF t1(2,7) flags assms(5,6) top t1(4,5), of cycle n address v]
  have "wf_tracer (trace_end_location (t1\<lparr>last_address := address, trace_output := out\<rparr>))" for out
    using t1(2) top by (intro wf_tracer_pop) simp_all
  then show ?thesis
    using t1 traced by (auto simp: located_def trace_end_location_def position_lines_def)
qed

lemma located_disabled:
  assumes "\<not> trace_enabled t"
  shows "located file line (\<lambda>t. trace_memory t cycle type n cause address v) t = Some t"
  using assms by (simp add: located_def trace_start_location_def trace_memory_def trace_end_location_def)

text \<open>
  The registers printed under the label of a mode other than the user mode are those of the
  current mode, whatever the label.
\<close>

lemma print_registers_any_mode:
  "m \<noteq> USR \<Longrightarrow> m' \<noteq> USR \<Longrightarrow> print_registers p m regs count = print_registers p m' regs count"
  by (induction regs arbitrary: count) auto

end
