(* ===== verification/Simulator.thy ===== *)
theory Simulator
  imports Scanner Debug Trace
begin

text \<open>
  \<open>arm_simulator.c\<close>: the process.  \<open>main\<close> reads the options, creates the memory and the core,
  starts the two listening threads and waits for the one that serves gdb.  What \<open>getopt_long\<close>
  returns is a list of options with their arguments; sockets and connections are the library's,
  and their content is given as the bytes that each of the two threads receives.
\<close>

section \<open>Options\<close>

record settings =
  gdb_port :: u16
  irq_port :: u16
  trace_file :: "u8 list option"
  tracing :: tracer
  debugged :: debug_table

datatype parsed = Settings settings | Exit_with int

definition default_settings :: settings where
  "default_settings = \<lparr>gdb_port = 0, irq_port = 0, trace_file = None, tracing = initial_tracer,
     debugged = no_debug\<rparr>"

text \<open>The first argument tells the files that \<open>fopen\<close> can open.\<close>

fun parse_options :: "(u8 list \<Rightarrow> bool) \<Rightarrow> (char \<times> u8 list) list \<Rightarrow> settings \<Rightarrow> parsed option" where
  "parse_options writable [] s = Some (Settings s)"
| "parse_options writable ((opt, optarg) # opts) s =
     (if opt = CHR ''g'' then do {
        n \<leftarrow> atoi optarg;
        parse_options writable opts (s\<lparr>gdb_port := word_of_int n\<rparr>)
      }
      else if opt = CHR ''i'' then do {
        n \<leftarrow> atoi optarg;
        parse_options writable opts (s\<lparr>irq_port := word_of_int n\<rparr>)
      }
      else if opt = CHR ''h'' then Some (Exit_with 0)
      else if opt = CHR ''t'' then
        (if writable optarg then parse_options writable opts (s\<lparr>trace_file := Some optarg\<rparr>)
         else Some (Exit_with 1))
      else if opt = CHR ''r'' then
        parse_options writable opts (s\<lparr>tracing := trace_add (tracing s) REGISTERS\<rparr>)
      else if opt = CHR ''m'' then
        parse_options writable opts (s\<lparr>tracing := trace_add (tracing s) MEMORY\<rparr>)
      else if opt = CHR ''s'' then
        parse_options writable opts (s\<lparr>tracing := trace_add (tracing s) STATE\<rparr>)
      else if opt = CHR ''p'' then
        parse_options writable opts (s\<lparr>tracing := trace_add (tracing s) POSITION\<rparr>)
      else if opt = CHR ''d'' then do {
        d \<leftarrow> add_debug_to (debugged s) optarg;
        parse_options writable opts (s\<lparr>debugged := d\<rparr>)
      }
      else Some (Exit_with 1))"

section \<open>The threads\<close>

text \<open>
  The core is shared: the thread that serves gdb reaches it through its own data, the one that
  receives interrupts through \<open>shared\<close>; both hold the lock while they use it, so that the steps
  of the threads are whole packets and whole interrupts.  \<open>Main_thread\<close> waits for the first one,
  frees the core and the memory, and returns; the state keeps the values of the freed core, of which nothing is said.
\<close>

datatype thread = Gdb_thread | Irq_thread | Main_thread

datatype main_state = Main_waiting | Main_destroyed | Main_returned

record system =
  parser :: parser_data
  gdb_input :: "u8 list"
  irq_input :: "u8 list"
  listening :: bool
  main_state :: main_state
  ended :: "service option"

definition gdb_listener :: "host \<Rightarrow> (u8 list \<Rightarrow> nat \<Rightarrow> u32) \<Rightarrow> nat \<Rightarrow> system \<Rightarrow> system option" where
  "gdb_listener h junk fuel s =
     (if \<not> listening s then Some s
      else if gdb_input s = [] then do {
        outcome \<leftarrow> handle_error (parser s);
        Some (case outcome of
          Going d \<Rightarrow> s\<lparr>parser := d, listening := False\<rparr>
        | Over e \<Rightarrow> s\<lparr>ended := Some e\<rparr>)
      }
      else do {
        (act, leng) \<leftarrow> yy_token (gdb_input s);
        outcome \<leftarrow> yy_action h (junk (drop leng (gdb_input s))) fuel (parser s) act
          (take leng (gdb_input s));
        Some (case outcome of
          Going d \<Rightarrow> s\<lparr>parser := d, gdb_input := drop leng (gdb_input s)\<rparr>
        | Over e \<Rightarrow> s\<lparr>ended := Some e\<rparr>)
      })"

text \<open>An interrupt that comes when the core has been freed is undefined.\<close>

definition irq_listener :: "system \<Rightarrow> system option" where
  "irq_listener s = (case irq_input s of
     [] \<Rightarrow> Some s
   | irq # irqs \<Rightarrow>
       if main_state s \<noteq> Main_waiting then None
       else do {
         p \<leftarrow> arm_exception (arm (gdb (parser s))) irq;
         Some (s\<lparr>parser := (parser s)\<lparr>gdb := (gdb (parser s))\<lparr>arm := p\<rparr>\<rparr>, irq_input := irqs\<rparr>)
       })"

definition main_thread :: "system \<Rightarrow> system" where
  "main_thread s = (case main_state s of
     Main_waiting \<Rightarrow> if listening s then s else s\<lparr>main_state := Main_destroyed\<rparr>
   | Main_destroyed \<Rightarrow> s\<lparr>main_state := Main_returned, ended := Some (Exited 0)\<rparr>
   | Main_returned \<Rightarrow> s)"

definition system_step ::
  "host \<Rightarrow> (u8 list \<Rightarrow> nat \<Rightarrow> u32) \<Rightarrow> nat \<Rightarrow> thread \<Rightarrow> system \<Rightarrow> system option" where
  "system_step h junk fuel t s =
     (if ended s \<noteq> None then Some s
      else case t of
        Gdb_thread \<Rightarrow> gdb_listener h junk fuel s
      | Irq_thread \<Rightarrow> irq_listener s
      | Main_thread \<Rightarrow> Some (main_thread s))"

definition simulate ::
  "host \<Rightarrow> (u8 list \<Rightarrow> nat \<Rightarrow> u32) \<Rightarrow> nat \<Rightarrow> thread list \<Rightarrow> system \<Rightarrow> system option" where
  "simulate h junk fuel = for_each (system_step h junk fuel)"

text \<open>
  The creation: the flags say which allocations succeed, in the order of \<open>memory_create\<close>,
  \<open>arm_create\<close> and \<open>gdb_init_data\<close>.  The code does not test the pointers it gets; a null one is
  undefined here, although the code only fails when it uses it.
\<close>

definition create_simulator ::
  "bool \<Rightarrow> bool \<Rightarrow> bool \<Rightarrow> bool \<Rightarrow> bool \<Rightarrow> bool \<Rightarrow> bool \<Rightarrow> arm_core option" where
  "create_simulator memory_ok data_ok core_ok struct_ok main_ok banked_ok psr_ok = do {
     m \<leftarrow> memory_create memory_ok data_ok 0x20000 target_big_endian;
     m \<leftarrow> m;
     p \<leftarrow> arm_create core_ok struct_ok main_ok banked_ok psr_ok m;
     p
   }"

definition start_threads :: "bool \<Rightarrow> bool \<Rightarrow> nat \<Rightarrow> u8 list \<Rightarrow> u8 list \<Rightarrow> arm_core \<Rightarrow> u8 list \<Rightarrow> u8 list \<Rightarrow> system option" where
  "start_threads created opened writes packet_junk err_junk p gdb_bytes irq_bytes = do {
     g \<leftarrow> gdb_init_data created writes packet_junk p;
     Some \<lparr>parser = \<lparr>gdb = g, err_buffer = err_junk, err_len = 0, echoed = []\<rparr>,
       gdb_input = gdb_bytes, irq_input = irq_bytes, listening = opened, main_state = Main_waiting,
       ended = None\<rparr>
   }"

section \<open>What the threads keep\<close>

lemma arm_exception_wf:
  assumes "wf_core p"
  shows "\<exists>q. arm_exception p e = Some q \<and> wf_core q"
  using assms by (simp add: arm_exception_def Exception_bit_9_def core_simps)

lemma arm_exception_ignored: "e \<noteq> 1 \<Longrightarrow> arm_exception p e = Some p"
  by (simp add: arm_exception_def)

text \<open>The cases of a step of either listener.\<close>

lemma irq_listener_cases:
  assumes "irq_listener s = Some t"
  obtains "irq_input s = []" "t = s"
  | e es p where "irq_input s = e # es" "main_state s = Main_waiting" "arm_exception (arm (gdb (parser s))) e = Some p"
      "t = s\<lparr>parser := (parser s)\<lparr>gdb := (gdb (parser s))\<lparr>arm := p\<rparr>\<rparr>, irq_input := es\<rparr>"
  using assms
  by (cases "irq_input s") (auto simp: irq_listener_def Option.bind_eq_Some_conv split: if_splits)

lemma gdb_listener_cases [consumes 1, case_names idle close token ending]:
  assumes "gdb_listener h junk fuel s = Some t"
  obtains (idle) "\<not> listening s" "t = s"
  | (close) d where "listening s" "gdb_input s = []" "handle_error (parser s) = Some (Going d)"
      "t = s\<lparr>parser := d, listening := False\<rparr>"
  | (token) act n d where "listening s" "gdb_input s \<noteq> []" "yy_token (gdb_input s) = Some (act, n)"
      "yy_action h (junk (drop n (gdb_input s))) fuel (parser s) act (take n (gdb_input s)) = Some (Going d)"
      "t = s\<lparr>parser := d, gdb_input := drop n (gdb_input s)\<rparr>"
  | (ending) e where "listening s" "t = s\<lparr>ended := Some e\<rparr>"
proof (cases "listening s \<and> gdb_input s \<noteq> []")
  case True
  then obtain act n outcome where "yy_token (gdb_input s) = Some (act, n)"
    "yy_action h (junk (drop n (gdb_input s))) fuel (parser s) act (take n (gdb_input s)) = Some outcome"
    "t = (case outcome of Going d \<Rightarrow> s\<lparr>parser := d, gdb_input := drop n (gdb_input s)\<rparr>
       | Over e \<Rightarrow> s\<lparr>ended := Some e\<rparr>)"
    using assms by (auto simp: gdb_listener_def Option.bind_eq_Some_conv)
  with True token ending show thesis by (cases outcome) auto
next
  case False
  show thesis
  proof (cases "listening s")
    case True
    then obtain outcome where "gdb_input s = []" "handle_error (parser s) = Some outcome"
      "t = (case outcome of Going d \<Rightarrow> s\<lparr>parser := d, listening := False\<rparr> | Over e \<Rightarrow> s\<lparr>ended := Some e\<rparr>)"
      using assms False by (auto simp: gdb_listener_def Option.bind_eq_Some_conv)
    with True close ending show thesis by (cases outcome) auto
  next
    case False
    then have "t = s" using assms by (simp add: gdb_listener_def)
    with False show thesis by (rule idle)
  qed
qed

lemma irq_listener_keeps:
  assumes "wf_parser (parser s)" "irq_listener s = Some t"
  shows "wf_parser (parser t)"
proof -
  have "wf_core p" if "arm_exception (arm (gdb (parser s))) e = Some p" for e p
    using arm_exception_wf [of "arm (gdb (parser s))" e] assms(1) that
    by (auto simp: wf_parser_def wf_gdb_def)
  then show ?thesis
    using assms(1) by (cases rule: irq_listener_cases [OF assms(2)]) (auto simp: wf_parser_def wf_gdb_def)
qed

lemma gdb_listener_keeps:
  assumes "wf_parser (parser s)" "gdb_listener h junk fuel s = Some t"
  shows "wf_parser (parser t)"
  using assms(2)
proof (cases rule: gdb_listener_cases)
  case (close d)
  obtain e where "handle_error (parser s) = Some e" "wf_session e" using handle_error_keeps [OF assms(1)] by blast
  then show ?thesis using close by auto
next
  case (token act n d)
  then show ?thesis using yy_action_keeps [OF assms(1)] by simp
qed (use assms(1) in simp_all)

text \<open>The thread that serves gdb is undefined exactly at a packet whose handling is.\<close>

lemma gdb_listener_undefined:
  assumes "wf_parser (parser s)"
  shows "gdb_listener h junk fuel s = None
    \<longleftrightarrow> listening s \<and> undefined_packet h junk fuel (parser s) (gdb_input s)"
proof (cases "listening s \<and> gdb_input s \<noteq> []")
  case False
  obtain e where "handle_error (parser s) = Some e" using handle_error_keeps [OF assms] by blast
  then show ?thesis using False by (auto simp: gdb_listener_def undefined_packet_def packet_length_token)
next
  case True
  obtain act n where t: "token_spec (gdb_input s) = (act, n)" by (cases "token_spec (gdb_input s)")
  have ne: "gdb_input s \<noteq> []" using True by simp
  have "gdb_listener h junk fuel s = None
      \<longleftrightarrow> yy_action h (junk (drop n (gdb_input s))) fuel (parser s) act (take n (gdb_input s)) = None"
    using True t by (auto simp: gdb_listener_def yy_token_eq Option.bind_eq_None_conv)
  then show ?thesis using yy_action_undefined [OF assms ne t] True by simp
qed

lemma main_thread_parser [simp]: "parser (main_thread s) = parser s"
  by (simp add: main_thread_def split: main_state.split)

text \<open>The core is freed after the end of the session only.\<close>

definition wf_system :: "system \<Rightarrow> bool" where
  "wf_system s \<longleftrightarrow> wf_parser (parser s) \<and> (listening s \<longrightarrow> main_state s = Main_waiting)"

lemma system_step_keeps:
  assumes "wf_system s" "system_step h junk fuel th s = Some t"
  shows "wf_system t"
proof (cases "ended s")
  case None
  have wf: "wf_parser (parser s)" using assms(1) by (simp add: wf_system_def)
  show ?thesis
  proof (cases th)
    case Gdb_thread
    then have g: "gdb_listener h junk fuel s = Some t" using assms(2) None by (simp add: system_step_def)
    then have "listening t \<longrightarrow> main_state t = Main_waiting"
      using assms(1) by (cases rule: gdb_listener_cases) (auto simp: wf_system_def)
    then show ?thesis using gdb_listener_keeps [OF wf g] by (simp add: wf_system_def)
  next
    case Irq_thread
    then have i: "irq_listener s = Some t" using assms(2) None by (simp add: system_step_def)
    have "listening t \<longrightarrow> main_state t = Main_waiting"
      using assms(1) by (cases rule: irq_listener_cases [OF i]) (auto simp: wf_system_def)
    then show ?thesis using irq_listener_keeps [OF wf i] by (simp add: wf_system_def)
  next
    case Main_thread
    then have "t = main_thread s" using assms(2) None by (simp add: system_step_def)
    then show ?thesis using assms(1) by (auto simp: wf_system_def main_thread_def split: main_state.splits)
  qed
next
  case (Some e)
  then show ?thesis using assms by (simp add: system_step_def)
qed

interpretation threads: step_system "system_step h junk fuel" wf_system for h junk fuel
  by unfold_locales (rule system_step_keeps)

text \<open>What each thread can do in a state of the process.\<close>

lemma system_step_undefined:
  assumes "wf_system s" "ended s = None"
  shows "system_step h junk fuel th s = None \<longleftrightarrow> (case th of
      Gdb_thread \<Rightarrow> listening s \<and> undefined_packet h junk fuel (parser s) (gdb_input s)
    | Irq_thread \<Rightarrow> irq_input s \<noteq> [] \<and> main_state s \<noteq> Main_waiting
    | Main_thread \<Rightarrow> False)"
proof (cases th)
  case Gdb_thread
  then show ?thesis using assms gdb_listener_undefined [of s h junk fuel] by (simp add: system_step_def wf_system_def)
next
  case Irq_thread
  have "\<exists>q. arm_exception (arm (gdb (parser s))) e = Some q" for e
    using arm_exception_wf [of "arm (gdb (parser s))" e] assms(1) by (auto simp: wf_system_def wf_parser_def wf_gdb_def)
  then have "arm_exception (arm (gdb (parser s))) e \<noteq> None" for e by simp
  then show ?thesis using Irq_thread assms(2)
    by (cases "irq_input s") (auto simp: system_step_def irq_listener_def Option.bind_eq_None_conv)
next
  case Main_thread
  then show ?thesis using assms(2) by (simp add: system_step_def)
qed

text \<open>
  Without a reset among the interrupts, the interleaving does not matter: the session is the one
  that the scanner has alone.
\<close>

lemma irq_listener_silent:
  assumes "irq_listener s = Some t" "1 \<notin> set (irq_input s)"
  shows "parser t = parser s \<and> gdb_input t = gdb_input s \<and> listening t = listening s
    \<and> ended t = ended s \<and> 1 \<notin> set (irq_input t)"
  using assms(2) by (cases rule: irq_listener_cases [OF assms(1)]) (auto simp: arm_exception_ignored)

lemma main_thread_silent:
  "listening s \<Longrightarrow> main_state s = Main_waiting \<Longrightarrow> main_thread s = s"
  by (simp add: main_thread_def)

text \<open>What the session still computes in a state of the process.\<close>

definition session_of :: "host \<Rightarrow> (u8 list \<Rightarrow> nat \<Rightarrow> u32) \<Rightarrow> nat \<Rightarrow> system \<Rightarrow> session option" where
  "session_of h junk fuel s =
     (if listening s then yylex h junk fuel (parser s) (gdb_input s) else Some (Going (parser s)))"

lemma gdb_listener_session:
  assumes "gdb_listener h junk fuel s = Some t" "ended s = None" "ended t = None"
  shows "session_of h junk fuel s = session_of h junk fuel t \<and> irq_input t = irq_input s"
  using assms
proof (cases rule: gdb_listener_cases)
  case (close d)
  then show ?thesis by (simp add: session_of_def yylex_end)
next
  case (token act n d)
  have spec: "token_spec (gdb_input s) = (act, n)" using yy_token_eq [OF token(2)] token(3) by simp
  show ?thesis
    using yylex_step [OF token(2) spec, of h junk fuel "parser s"] token by (simp add: session_of_def)
qed simp_all

lemma system_step_session:
  assumes "system_step h junk fuel th s = Some t" "ended t = None" "1 \<notin> set (irq_input s)"
  shows "session_of h junk fuel s = session_of h junk fuel t \<and> ended s = None \<and> 1 \<notin> set (irq_input t)"
proof -
  have e: "ended s = None" using assms(1,2) by (cases "ended s") (auto simp: system_step_def)
  show ?thesis
  proof (cases th)
    case Gdb_thread
    then have "gdb_listener h junk fuel s = Some t" using assms(1) e by (simp add: system_step_def)
    then show ?thesis using gdb_listener_session [OF _ e assms(2)] e assms(3) by simp
  next
    case Irq_thread
    then have "irq_listener s = Some t" using assms(1) e by (simp add: system_step_def)
    then show ?thesis using irq_listener_silent [OF _ assms(3)] e by (simp add: session_of_def)
  next
    case Main_thread
    then have "t = main_thread s" using assms(1) e by (simp add: system_step_def)
    then show ?thesis
      using e assms(3) by (simp add: session_of_def main_thread_def split: main_state.split)
  qed
qed

lemma simulate_ended: "ended s \<noteq> None \<Longrightarrow> simulate h junk fuel ths s = Some t \<Longrightarrow> t = s"
  by (induction ths) (auto simp: simulate_def system_step_def)

lemma simulate_session:
  "simulate h junk fuel ths s = Some t \<Longrightarrow> ended t = None \<Longrightarrow> 1 \<notin> set (irq_input s)
    \<Longrightarrow> session_of h junk fuel s = session_of h junk fuel t \<and> ended s = None"
proof (induction ths arbitrary: s)
  case (Cons th ths)
  then obtain s1 where s1: "system_step h junk fuel th s = Some s1" "simulate h junk fuel ths s1 = Some t"
    by (auto simp: simulate_def Option.bind_eq_Some_conv)
  have "ended s1 = None \<Longrightarrow> 1 \<notin> set (irq_input s1)"
    using system_step_session [OF s1(1) _ Cons.prems(3)] by simp
  then show ?case
    using Cons.IH [OF s1(2) Cons.prems(2)] system_step_session [OF s1(1) _ Cons.prems(3)]
      simulate_ended [OF _ s1(2)] Cons.prems(2) by (cases "ended s1") auto
qed (simp add: simulate_def)

text \<open>
  The threads are not joined: when the connection of gdb is closed, \<open>main\<close> frees the core while
  the other thread can still receive an interrupt.
\<close>

lemma interrupt_after_disconnection:
  assumes "\<not> listening s" "ended s = None" "main_state s = Main_waiting" "irq_input s \<noteq> []"
  shows "simulate h junk fuel [Main_thread, Irq_thread] s = None"
  using assms by (cases "irq_input s") (auto simp: simulate_def system_step_def main_thread_def irq_listener_def)

section \<open>The start\<close>

lemma create_memory:
  "memory_create True True 0x20000 target_big_endian = Some (Some
     \<lparr>is_big_endian_type = True, mem_size = 0x20000, mem_data = replicate 0x20000 0\<rparr>)"
  by (simp add: memory_create_def target_big_endian_def)

end
