(* ===== verification/TracedCore.thy ===== *)
theory TracedCore
  imports Trace
begin

text \<open>
  The accesses of \<open>arm_core.c\<close> with the calls of the tracer they make, which the theory \<open>Core\<close> leaves out:
  each gives what the access gives, with the tracer after it.  A read of the memory that is refused reports
  the content of the variable of the caller, which is the argument \<open>junk\<close>.  The lemmas say what each access adds to
  the trace, and that it gives what the access without the tracer does.
\<close>

section \<open>The accesses\<close>

definition traced_read_register :: "tracer \<Rightarrow> arm_core \<Rightarrow> u8 \<Rightarrow> (u32 \<times> tracer) option" where
  "traced_read_register t p reg = do {
     value \<leftarrow> read_register (core_regs p) reg;
     let value = (if reg = 15 then (value + 4) AND 0xFFFFFFFD else value);
     m \<leftarrow> get_mode (core_regs p);
     t \<leftarrow> trace_register t (cycle_count p) 1 reg m value;
     Some (value, t)
   }"

definition traced_read_usr_register :: "tracer \<Rightarrow> arm_core \<Rightarrow> u8 \<Rightarrow> (u32 \<times> tracer) option" where
  "traced_read_usr_register t p reg = do {
     value \<leftarrow> read_usr_register (core_regs p) reg;
     let value = (if reg = 15 then (value + 4) AND 0xFFFFFFFD else value);
     t \<leftarrow> trace_register t (cycle_count p) 1 reg USR value;
     Some (value, t)
   }"

definition traced_read_cpsr :: "tracer \<Rightarrow> arm_core \<Rightarrow> (u32 \<times> tracer) option" where
  "traced_read_cpsr t p = do {
     value \<leftarrow> read_cpsr (core_regs p);
     t \<leftarrow> trace_register t (cycle_count p) 1 16 0 value;
     Some (value, t)
   }"

definition traced_read_spsr :: "tracer \<Rightarrow> arm_core \<Rightarrow> (u32 \<times> tracer) option" where
  "traced_read_spsr t p = do {
     value \<leftarrow> read_spsr (core_regs p);
     m \<leftarrow> get_mode (core_regs p);
     t \<leftarrow> trace_register t (cycle_count p) 1 17 m value;
     Some (value, t)
   }"

definition traced_write_register :: "tracer \<Rightarrow> arm_core \<Rightarrow> u8 \<Rightarrow> u32 \<Rightarrow> (arm_core \<times> tracer) option" where
  "traced_write_register t p reg value = do {
     r \<leftarrow> write_register (core_regs p) reg value;
     m \<leftarrow> get_mode r;
     t \<leftarrow> trace_register t (cycle_count p) 0 reg m value;
     Some (p\<lparr>core_regs := r\<rparr>, t)
   }"

definition traced_write_usr_register :: "tracer \<Rightarrow> arm_core \<Rightarrow> u8 \<Rightarrow> u32 \<Rightarrow> (arm_core \<times> tracer) option" where
  "traced_write_usr_register t p reg value = do {
     r \<leftarrow> write_usr_register (core_regs p) reg value;
     t \<leftarrow> trace_register t (cycle_count p) 0 reg USR value;
     Some (p\<lparr>core_regs := r\<rparr>, t)
   }"

definition traced_write_cpsr :: "tracer \<Rightarrow> arm_core \<Rightarrow> u32 \<Rightarrow> (arm_core \<times> tracer) option" where
  "traced_write_cpsr t p value = do {
     r \<leftarrow> write_cpsr (core_regs p) value;
     t \<leftarrow> trace_register t (cycle_count p) 0 16 0 value;
     Some (p\<lparr>core_regs := r\<rparr>, t)
   }"

definition traced_write_spsr :: "tracer \<Rightarrow> arm_core \<Rightarrow> u32 \<Rightarrow> (arm_core \<times> tracer) option" where
  "traced_write_spsr t p value = do {
     r \<leftarrow> write_spsr (core_regs p) value;
     m \<leftarrow> get_mode r;
     t \<leftarrow> trace_register t (cycle_count p) 0 17 m value;
     Some (p\<lparr>core_regs := r\<rparr>, t)
   }"

text \<open>What a read of the memory leaves in the variable of the caller.\<close>

definition read_into :: "('a::len) word access \<Rightarrow> 'a word \<Rightarrow> 'a word" where
  "read_into result junk = (case result of Denied \<Rightarrow> junk | Granted v \<Rightarrow> v)"

definition traced_fetch :: "u32 \<Rightarrow> tracer \<Rightarrow> arm_core \<Rightarrow> ((u32 access \<times> arm_core) \<times> tracer) option" where
  "traced_fetch junk t p = do {
     let p = p\<lparr>cycle_count := cycle_count p + 1\<rparr>;
     (pc, t) \<leftarrow> traced_read_register t p 15;
     let address = pc - 4;
     result \<leftarrow> memory_read_word (core_mem p) address;
     t \<leftarrow> trace_memory t (cycle_count p) 1 4 1 address (read_into result junk);
     (p, t) \<leftarrow> traced_write_register t p 15 (address + 4);
     Some ((result, p), t)
   }"

definition traced_read_byte :: "u8 \<Rightarrow> tracer \<Rightarrow> arm_core \<Rightarrow> u32 \<Rightarrow> (u8 access \<times> tracer) option" where
  "traced_read_byte junk t p address = do {
     result \<leftarrow> memory_read_byte (core_mem p) address;
     t \<leftarrow> trace_memory t (cycle_count p) 1 1 0 address (ucast (read_into result junk));
     Some (result, t)
   }"

definition traced_read_half :: "u16 \<Rightarrow> tracer \<Rightarrow> arm_core \<Rightarrow> u32 \<Rightarrow> (u16 access \<times> tracer) option" where
  "traced_read_half junk t p address = do {
     result \<leftarrow> memory_read_half (core_mem p) address;
     t \<leftarrow> trace_memory t (cycle_count p) 1 2 0 address (ucast (read_into result junk));
     Some (result, t)
   }"

definition traced_read_word :: "u32 \<Rightarrow> tracer \<Rightarrow> arm_core \<Rightarrow> u32 \<Rightarrow> (u32 access \<times> tracer) option" where
  "traced_read_word junk t p address = do {
     result \<leftarrow> memory_read_word (core_mem p) address;
     t \<leftarrow> trace_memory t (cycle_count p) 1 4 0 address (read_into result junk);
     Some (result, t)
   }"

definition traced_write_byte :: "tracer \<Rightarrow> arm_core \<Rightarrow> u32 \<Rightarrow> u8 \<Rightarrow> ((int \<times> arm_core) \<times> tracer) option" where
  "traced_write_byte t p address value = do {
     (result, m) \<leftarrow> memory_write_byte (core_mem p) address value;
     t \<leftarrow> trace_memory t (cycle_count p) 0 1 0 address (ucast value);
     Some ((result, p\<lparr>core_mem := m\<rparr>), t)
   }"

definition traced_write_half :: "tracer \<Rightarrow> arm_core \<Rightarrow> u32 \<Rightarrow> u16 \<Rightarrow> ((int \<times> arm_core) \<times> tracer) option" where
  "traced_write_half t p address value = do {
     (result, m) \<leftarrow> memory_write_half (core_mem p) address value;
     t \<leftarrow> trace_memory t (cycle_count p) 0 2 0 address (ucast value);
     Some ((result, p\<lparr>core_mem := m\<rparr>), t)
   }"

definition traced_write_word :: "tracer \<Rightarrow> arm_core \<Rightarrow> u32 \<Rightarrow> u32 \<Rightarrow> ((int \<times> arm_core) \<times> tracer) option" where
  "traced_write_word t p address value = do {
     (result, m) \<leftarrow> memory_write_word (core_mem p) address value;
     t \<leftarrow> trace_memory t (cycle_count p) 0 4 0 address value;
     Some ((result, p\<lparr>core_mem := m\<rparr>), t)
   }"

section \<open>What is reported\<close>

definition location_lines :: "tracer \<Rightarrow> trace_line list" where
  "location_lines t = (if trace_flags t AND POSITION \<noteq> 0 \<and> 0 \<le> location_stack_top t
     then [Location (the (location_file_stack t ! nat (location_stack_top t)))
       (location_line_stack t ! nat (location_stack_top t))] else [])"

definition mode_suffix :: "u8 \<Rightarrow> string" where
  "mode_suffix m = (case arm_mode_names ! unat m of None \<Rightarrow> '''' | Some s \<Rightarrow> ''_'' @ s)"

definition report_register :: "tracer \<Rightarrow> u32 \<Rightarrow> bool \<Rightarrow> u8 \<Rightarrow> u8 \<Rightarrow> u32 \<Rightarrow> tracer" where
  "report_register t cycle reading reg m v = (if trace_enabled t \<and> trace_flags t AND REGISTERS \<noteq> 0
     then t\<lparr>trace_output := trace_output t @ location_lines t @ [Register_access cycle
       (if reading then ''read'' else ''write'') (the (arm_register_names ! unat reg)) (mode_suffix m) v]\<rparr>
     else t)"

definition report_memory :: "tracer \<Rightarrow> u32 \<Rightarrow> bool \<Rightarrow> u8 \<Rightarrow> bool \<Rightarrow> u32 \<Rightarrow> u32 \<Rightarrow> tracer" where
  "report_memory t cycle reading n fetching address v = (if trace_enabled t \<and> trace_flags t AND MEMORY \<noteq> 0
     then t\<lparr>last_address := address, trace_output := trace_output t @ location_lines t @ [Memory_access cycle ''''
       (if reading then ''read'' else ''write'') n (if fetching then '', fetch'' else '''') address v]\<rparr>
     else t)"

lemma location_result:
  assumes "wf_tracer t" "trace_enabled t"
  shows "trace_print_location t = Some (t\<lparr>trace_output := trace_output t @ location_lines t\<rparr>)"
proof -
  have "location_file_stack t ! nat (location_stack_top t) \<noteq> None" if "0 \<le> location_stack_top t"
    using assms(1) that by (simp add: wf_tracer_def)
  then show ?thesis
    using assms by (auto simp: trace_print_location_def location_lines_def wf_tracer_def trace_print_def)
qed

lemma mode_name:
  assumes "m \<le> 0x1F"
  shows "\<exists>name. arm_get_mode_name m = Some name \<and> arm_mode_names ! unat m = name
    \<and> (case name of None \<Rightarrow> True | Some s \<Rightarrow> length s = 3)"
proof -
  have less: "unat m < length arm_mode_names" using assms by (simp add: arm_mode_names_def word_le_nat_alt)
  have "list_all (\<lambda>x. case x of None \<Rightarrow> True | Some s \<Rightarrow> length s = 3) arm_mode_names"
    by (simp add: arm_mode_names_def list_all_iff)
  with less show ?thesis by (simp add: arm_get_mode_name_def list_all_length)
qed

lemma register_name:
  assumes "reg \<le> 17"
  shows "\<exists>s. arm_get_register_name reg = Some (Some s) \<and> arm_register_names ! unat reg = Some s"
proof -
  have less: "unat reg < length arm_register_names"
    using assms by (simp add: arm_register_names_def word_le_nat_alt)
  have "list_all (\<lambda>x. x \<noteq> None) arm_register_names" by (simp add: arm_register_names_def)
  with less have "arm_register_names ! unat reg \<noteq> None" by (simp add: list_all_length)
  with less show ?thesis by (auto simp: arm_get_register_name_def)
qed

lemma trace_register_result:
  assumes "wf_tracer t" "reg \<le> 17" "m \<le> 0x1F"
  shows "trace_register t cycle 1 reg m v = Some (report_register t cycle True reg m v)"
    "trace_register t cycle 0 reg m v = Some (report_register t cycle False reg m v)"
proof -
  obtain s where reg: "arm_get_register_name reg = Some (Some s)" "arm_register_names ! unat reg = Some s"
    using register_name [OF assms(2)] by auto
  obtain name where m: "arm_get_mode_name m = Some name" "arm_mode_names ! unat m = name"
    "case name of None \<Rightarrow> True | Some s \<Rightarrow> length s = 3"
    using mode_name [OF assms(3)] by auto
  then have suffix: "(case name of None \<Rightarrow> Some '''' | Some s \<Rightarrow> if length s + 2 \<le> 5 then Some (''_'' @ s) else None)
    = Some (mode_suffix m)"
    by (cases name) (simp_all add: mode_suffix_def)
  show "trace_register t cycle 1 reg m v = Some (report_register t cycle True reg m v)"
    using suffix by (simp add: trace_register_def report_register_def location_result assms reg m(1)
        trace_register_type_def trace_print_def)
  show "trace_register t cycle 0 reg m v = Some (report_register t cycle False reg m v)"
    using suffix by (simp add: trace_register_def report_register_def location_result assms reg m(1)
        trace_register_type_def trace_print_def)
qed

lemma trace_memory_result:
  assumes "wf_tracer t"
  shows "trace_memory t cycle 1 n 1 address v = Some (report_memory t cycle True n True address v)"
    "trace_memory t cycle 1 n 0 address v = Some (report_memory t cycle True n False address v)"
    "trace_memory t cycle 0 n 0 address v = Some (report_memory t cycle False n False address v)"
proof -
  have wf: "wf_tracer (t\<lparr>last_address := address\<rparr>)" using assms by (simp add: wf_tracer_def)
  have lines: "location_lines (t\<lparr>last_address := address\<rparr>) = location_lines t"
    by (simp add: location_lines_def)
  note simps = trace_memory_def report_memory_def location_result [OF wf] lines trace_memory_type_def
    trace_memory_seq_def trace_memory_cause_def trace_print_def Let_def
  show "trace_memory t cycle 1 n 1 address v = Some (report_memory t cycle True n True address v)"
    "trace_memory t cycle 1 n 0 address v = Some (report_memory t cycle True n False address v)"
    "trace_memory t cycle 0 n 0 address v = Some (report_memory t cycle False n False address v)"
    by (simp_all add: simps)
qed

lemma wf_report [simp]:
  "wf_tracer (report_register t cycle reading reg m v) = wf_tracer t"
  "wf_tracer (report_memory t cycle reading n fetching address v) = wf_tracer t"
  by (simp_all add: report_register_def report_memory_def wf_tracer_def)

section \<open>The accesses are the untraced ones\<close>

lemma register_bounds: "(15 :: u8) \<le> 17" "reg \<le> 15 \<Longrightarrow> reg \<le> (17 :: u8)"
  by (simp_all add: word_le_nat_alt)

lemma traced_register_reads:
  assumes "wf_core p" "wf_tracer t"
  shows "reg \<le> 15 \<Longrightarrow> traced_read_register t p reg =
      map_option (\<lambda>v. (v, report_register t (cycle_count p) True reg (mode p) v)) (arm_read_register p reg)"
    "reg \<le> 15 \<Longrightarrow> traced_read_usr_register t p reg =
      map_option (\<lambda>v. (v, report_register t (cycle_count p) True reg USR v)) (arm_read_usr_register p reg)"
    "traced_read_cpsr t p = map_option (\<lambda>v. (v, report_register t (cycle_count p) True 16 0 v)) (arm_read_cpsr p)"
    "traced_read_spsr t p =
      map_option (\<lambda>v. (v, report_register t (cycle_count p) True 17 (mode p) v)) (arm_read_spsr p)"
  using assms register_bounds(2) [of reg]
  by (simp_all add: traced_read_register_def traced_read_usr_register_def traced_read_cpsr_def traced_read_spsr_def
      arm_read_register_def arm_read_usr_register_def arm_read_cpsr_def arm_read_spsr_def Let_def core_simps
      trace_register_result mode_of_le)

lemma mode_write_spsr:
  "wf_registers r \<Longrightarrow> write_spsr r v = Some r' \<Longrightarrow> wf_registers r' \<and> mode_of r' = mode_of r"
  using get_register_from_mode_range [of "mode_of r"]
  by (auto simp: write_spsr_wf Let_def wf_registers_def mode_of_def split: if_splits)

lemma traced_register_writes:
  assumes "wf_core p" "wf_tracer t"
  shows "reg \<le> 15 \<Longrightarrow> traced_write_register t p reg v =
      map_option (\<lambda>q. (q, report_register t (cycle_count p) False reg (mode p) v)) (arm_write_register p reg v)"
    "reg \<le> 15 \<Longrightarrow> traced_write_usr_register t p reg v =
      map_option (\<lambda>q. (q, report_register t (cycle_count p) False reg USR v)) (arm_write_usr_register p reg v)"
    "traced_write_cpsr t p v =
      map_option (\<lambda>q. (q, report_register t (cycle_count p) False 16 0 v)) (arm_write_cpsr p v)"
    "traced_write_spsr t p v =
      map_option (\<lambda>q. (q, report_register t (cycle_count p) False 17 (mode p) v)) (arm_write_spsr p v)"
proof -
  note regs = wf_core_parts(1) [OF assms(1)]
  show "traced_write_register t p reg v = map_option (\<lambda>q. (q, report_register t (cycle_count p) False reg (mode p) v))
      (arm_write_register p reg v)" if "reg \<le> 15"
    using assms(2) regs that register_bounds(2) [OF that]
    by (simp add: traced_write_register_def arm_write_register_def write_register_wf get_mode_wf cell_set_wf
        trace_register_result mode_of_le)
  show "traced_write_usr_register t p reg v = map_option (\<lambda>q. (q, report_register t (cycle_count p) False reg USR v))
      (arm_write_usr_register p reg v)" if "reg \<le> 15"
    using assms(2) regs that register_bounds(2) [OF that]
    by (simp add: traced_write_usr_register_def arm_write_usr_register_def write_usr_register_wf
        trace_register_result)
  show "traced_write_cpsr t p v =
      map_option (\<lambda>q. (q, report_register t (cycle_count p) False 16 0 v)) (arm_write_cpsr p v)"
    using assms(2) regs
    by (simp add: traced_write_cpsr_def arm_write_cpsr_def write_cpsr_wf trace_register_result)
  obtain r where r: "write_spsr (core_regs p) v = Some r" using write_spsr_wf [OF regs] by blast
  then show "traced_write_spsr t p v =
      map_option (\<lambda>q. (q, report_register t (cycle_count p) False 17 (mode p) v)) (arm_write_spsr p v)"
    using assms(2) mode_write_spsr [OF regs r]
    by (simp add: traced_write_spsr_def arm_write_spsr_def get_mode_wf trace_register_result mode_of_le)
qed

lemma traced_memory_reads:
  assumes "wf_tracer t"
  shows "traced_read_byte junk1 t p a = map_option (\<lambda>r. (r,
      report_memory t (cycle_count p) True 1 False a (ucast (read_into r junk1)))) (arm_read_byte p a)"
    "traced_read_half junk2 t p a = map_option (\<lambda>r. (r,
      report_memory t (cycle_count p) True 2 False a (ucast (read_into r junk2)))) (arm_read_half p a)"
    "traced_read_word junk4 t p a = map_option (\<lambda>r. (r,
      report_memory t (cycle_count p) True 4 False a (read_into r junk4))) (arm_read_word p a)"
  using assms
  by (simp_all add: traced_read_byte_def traced_read_half_def traced_read_word_def arm_read_byte_def
      arm_read_half_def arm_read_word_def trace_memory_result map_conv_bind_option comp_def)

lemma traced_memory_writes:
  assumes "wf_tracer t"
  shows "traced_write_byte t p a b = map_option (\<lambda>r. (r,
      report_memory t (cycle_count p) False 1 False a (ucast b))) (arm_write_byte p a b)"
    "traced_write_half t p a h = map_option (\<lambda>r. (r,
      report_memory t (cycle_count p) False 2 False a (ucast h))) (arm_write_half p a h)"
    "traced_write_word t p a w = map_option (\<lambda>r. (r,
      report_memory t (cycle_count p) False 4 False a w)) (arm_write_word p a w)"
  using assms
  by (auto simp: traced_write_byte_def traced_write_half_def traced_write_word_def arm_write_byte_def
      arm_write_half_def arm_write_word_def trace_memory_result map_option_bind intro!: bind_option_cong)

lemma traced_fetch_result:
  assumes "wf_core p" "wf_tracer t"
  shows "traced_fetch junk t p = map_option (\<lambda>(r, q). ((r, q),
    report_register (report_memory (report_register t (cycle_count p + 1) True 15 (mode p) (fetch_address p + 4))
      (cycle_count p + 1) True 4 True (fetch_address p) (read_into r junk))
      (cycle_count p + 1) False 15 (mode p) (fetch_address p + 4))) (arm_fetch p)"
proof -
  obtain p1 where p1_def: "p1 = p\<lparr>cycle_count := cycle_count p + 1\<rparr>" by blast
  have p1: "wf_core p1" "mode p1 = mode p" "cycle_count p1 = cycle_count p + 1" "core_mem p1 = core_mem p"
    "rval p1 15 = fetch_address p + 4"
    using assms(1) by (simp_all add: p1_def fetch_address_def rval_def xreg_def)
  have reading: "traced_read_register t p1 15 = Some (fetch_address p + 4,
    report_register t (cycle_count p + 1) True 15 (mode p) (fetch_address p + 4))"
    using traced_register_reads(1) [OF p1(1) assms(2), of 15] p1 by (simp add: arm_read_register_wf)
  have writing: "traced_write_register t' p1 15 v = Some (set_xreg p1 15 v,
    report_register t' (cycle_count p + 1) False 15 (mode p) v)" if "wf_tracer t'" for t' v
    using traced_register_writes(1) [OF p1(1) that, of 15] p1 by (simp add: arm_write_register_wf)
  have "fetched p = set_xreg p1 15 (fetch_address p + 4)" by (simp add: fetched_def p1_def)
  then show ?thesis
    using assms p1 reading
    by (simp add: traced_fetch_def p1_def [symmetric] arm_fetch_wf memory_read_word_wf trace_memory_result writing Let_def)
qed

end
