(* ===== verification/HostProperties.thy ===== *)
theory HostProperties
  imports Rio Debug SendIrq Simulator ScannerProperties TracedCore CoreProperties
begin

text \<open>
  The properties of the process around the simulated machine: the two listening threads, the
  sender of interrupts, the tracer, the table of debugged files and the robust input and output.
\<close>

section \<open>The process\<close>



text \<open>C32: Interrupts other than a reset do nothing: whatever their interleaving with the packets, a session
  that comes to its end ends as the one of a server that receives no interrupt.\<close>

theorem interrupts_do_nothing:
  assumes "1 \<notin> set (irq_input s)" "listening s"
    and "simulate h junk fuel schedule s = Some t" "ended t = None" "\<not> listening t"
  shows "yylex h junk fuel (parser s) (gdb_input s) = Some (Going (parser t))"
  using simulate_session [OF assms(3,4,1)] assms(2,5) by (simp add: session_of_def)

definition demo_system :: system where
  "demo_system = \<lparr>parser = demo_parser, gdb_input = ascii ''+'', irq_input = [6], listening = True,
     main_state = Main_waiting, ended = None\<rparr>"

theorem interrupts_do_nothing_witness:
  "\<exists>t. simulate demo_host (\<lambda>_ _. 0) 0 [Gdb_thread, Irq_thread, Gdb_thread] demo_system = Some t
    \<and> irq_input t = [] \<and> yylex demo_host (\<lambda>_ _. 0) 0 demo_parser (ascii ''+'') = Some (Going (parser t))"
proof -
  have "yy_token (ascii ''+'') = Some (1, 1)"
    by (subst yy_token_eq) (simp_all add: ascii_def token_spec_def packet_length_def)
  then have "\<exists>t. simulate demo_host (\<lambda>_ _. 0) 0 [Gdb_thread, Irq_thread, Gdb_thread] demo_system = Some t
    \<and> irq_input t = [] \<and> ended t = None \<and> \<not> listening t"
    by (simp add: simulate_def system_step_def demo_system_def gdb_listener_def irq_listener_def
        yy_action_def handle_error_idle arm_exception_ignored ascii_def)
  then obtain t where "simulate demo_host (\<lambda>_ _. 0) 0 [Gdb_thread, Irq_thread, Gdb_thread] demo_system = Some t"
    "irq_input t = []" "ended t = None" "\<not> listening t" by blast
  then show ?thesis
    using interrupts_do_nothing [of demo_system demo_host "\<lambda>_ _. 0" 0 "[Gdb_thread, Irq_thread, Gdb_thread]" t]
    by (simp add: demo_system_def)
qed

text \<open>The sender finds the number of each of the seven names, sends the interrupt when there is no
  name, and refuses any other name with the exit code 2 and a missing host or port with 1.\<close>

lemma send_irq_numbers:
  "send_irq [] = Some (Exit_code 1) \<and> send_irq [host] = Some (Exit_code 1)
    \<and> send_irq [host, port] = Some (Send 6)
    \<and> send_irq (host # port # name # others) = Some (case map_of (map (\<lambda>(s, n). (c_bytes s, n)) irq_numbers) name of
         Some n \<Rightarrow> Send n | None \<Rightarrow> Exit_code 2)"
proof -
  have "find_irq (Suc (Suc (Suc (Suc (Suc (Suc (Suc (Suc 248)))))))) 1 name =
    Some (case map_of (map (\<lambda>(s, n). (c_bytes s, n)) irq_numbers) name of
       Some n \<Rightarrow> Send n | None \<Rightarrow> Exit_code 2)"
    by (rule find_irq_table)
  then show ?thesis by (simp add: send_irq_def numeral_eq_Suc)
qed

section \<open>The tracer\<close>

text \<open>A located access to the memory is reported, when tracing is enabled for the memory, with the file
  and the line of the access if positions are asked for, and leaves the stack of locations as it was; when tracing is
  disabled it is not reported.\<close>

lemma located_access_reported:
  assumes "wf_tracer t" "location_stack_top t < 127" "trace_flags t AND MEMORY \<noteq> 0" "type < 2" "cause < 2"
  shows "\<exists>t'. located file line (\<lambda>t. trace_memory t cycle type n cause address v) t = Some t'
    \<and> wf_tracer t' \<and> location_stack_top t' = location_stack_top t
    \<and> trace_output t' = trace_output t @ (if trace_enabled t then
        position_lines t file line @ [Memory_access cycle '''' (if type = 0 then ''write'' else ''read'') n
          (if cause = 0 then '''' else '', fetch'') address v] else [])"
proof (cases "trace_enabled t")
  case True
  from located_memory [OF assms(1) True assms(2-5)] show ?thesis using True by fastforce
next
  case False
  with located_disabled [OF False] assms(1) show ?thesis by simp
qed

text \<open>C40: On a well-formed core and tracer every access of the core with its calls of the tracer gives what the
  access without them gives, and adds to the trace exactly its own report: the fetch reports the read of the
  program counter, the read of the opcode and the write of the program counter, in this order and under the
  new cycle number.\<close>

theorem traced_accesses:
  assumes "wf_core p" "wf_tracer t" "reg \<le> 15"
  shows "traced_read_register t p reg =
      map_option (\<lambda>x. (x, report_register t (cycle_count p) True reg (mode p) x)) (arm_read_register p reg)
    \<and> traced_read_usr_register t p reg =
      map_option (\<lambda>x. (x, report_register t (cycle_count p) True reg USR x)) (arm_read_usr_register p reg)
    \<and> traced_read_cpsr t p = map_option (\<lambda>x. (x, report_register t (cycle_count p) True 16 0 x)) (arm_read_cpsr p)
    \<and> traced_read_spsr t p =
      map_option (\<lambda>x. (x, report_register t (cycle_count p) True 17 (mode p) x)) (arm_read_spsr p)
    \<and> traced_write_register t p reg v =
      map_option (\<lambda>q. (q, report_register t (cycle_count p) False reg (mode p) v)) (arm_write_register p reg v)
    \<and> traced_write_usr_register t p reg v =
      map_option (\<lambda>q. (q, report_register t (cycle_count p) False reg USR v)) (arm_write_usr_register p reg v)
    \<and> traced_write_cpsr t p v =
      map_option (\<lambda>q. (q, report_register t (cycle_count p) False 16 0 v)) (arm_write_cpsr p v)
    \<and> traced_write_spsr t p v =
      map_option (\<lambda>q. (q, report_register t (cycle_count p) False 17 (mode p) v)) (arm_write_spsr p v)
    \<and> traced_fetch junk4 t p = map_option (\<lambda>(r, q). ((r, q),
        report_register (report_memory (report_register t (cycle_count p + 1) True 15 (mode p) (fetch_address p + 4))
          (cycle_count p + 1) True 4 True (fetch_address p) (read_into r junk4))
          (cycle_count p + 1) False 15 (mode p) (fetch_address p + 4))) (arm_fetch p)
    \<and> traced_read_byte junk1 t p a = map_option (\<lambda>r. (r,
        report_memory t (cycle_count p) True 1 False a (ucast (read_into r junk1)))) (arm_read_byte p a)
    \<and> traced_read_half junk2 t p a = map_option (\<lambda>r. (r,
        report_memory t (cycle_count p) True 2 False a (ucast (read_into r junk2)))) (arm_read_half p a)
    \<and> traced_read_word junk4 t p a = map_option (\<lambda>r. (r,
        report_memory t (cycle_count p) True 4 False a (read_into r junk4))) (arm_read_word p a)
    \<and> traced_write_byte t p a b = map_option (\<lambda>r. (r,
        report_memory t (cycle_count p) False 1 False a (ucast b))) (arm_write_byte p a b)
    \<and> traced_write_half t p a h = map_option (\<lambda>r. (r,
        report_memory t (cycle_count p) False 2 False a (ucast h))) (arm_write_half p a h)
    \<and> traced_write_word t p a v = map_option (\<lambda>r. (r,
        report_memory t (cycle_count p) False 4 False a v)) (arm_write_word p a v)"
  by (intro conjI traced_register_reads traced_register_writes traced_memory_reads traced_memory_writes
      traced_fetch_result assms)

theorem traced_accesses_witness:
  "\<exists>t. traced_read_cpsr (trace_add initial_tracer 2) demo_core = Some (0x1D3, t)
    \<and> trace_output t = [Register_access 0 ''read'' ''CPSR'' '''' 0x1D3]"
proof -
  have "wf_tracer (trace_add initial_tracer 2)"
    by (simp add: wf_tracer_def trace_add_def initial_tracer_def)
  moreover have "cpsr demo_core = 0x1D3" by (simp add: cpsr_def demo_core_def demo_registers_def)
  ultimately have "traced_read_cpsr (trace_add initial_tracer 2) demo_core =
      Some (0x1D3, report_register (trace_add initial_tracer 2) (cycle_count demo_core) True 16 0 0x1D3)"
    using traced_accesses [of demo_core "trace_add initial_tracer 2" 0] by (simp add: arm_read_cpsr_wf)
  then show ?thesis
    by (simp add: demo_core_def report_register_def location_lines_def trace_add_def initial_tracer_def
        arm_register_names_def mode_suffix_def arm_mode_names_def nth_append)
qed

section \<open>The table of debugged files\<close>

text \<open>C39: After at most 64 requests the binary search answers exactly the names that were requested.\<close>

theorem debug_table_is_set:
  assumes "length names \<le> 64"
  shows "\<exists>d. for_each (\<lambda>name d. add_debug_to d name) names no_debug = Some d
    \<and> (\<forall>name. is_debugged d name = Some (name \<in> set names))"
proof -
  have "\<exists>d. for_each (\<lambda>name d. add_debug_to d name) names d0 = Some d \<and> holds d (fold insort names old)"
    if "holds d0 old" "length old + length names \<le> 64" for d0 old
    using that
  proof (induction names arbitrary: d0 old)
    case (Cons name names)
    then obtain d1 where "add_debug_to d0 name = Some d1" "holds d1 (insort name old)"
      using add_debug_to_eq [of d0 old name] by auto
    then show ?case using Cons.IH [of d1 "insort name old"] Cons.prems(2) by simp
  qed simp
  from this [OF holds_no_debug] obtain d where
    "for_each (\<lambda>name d. add_debug_to d name) names no_debug = Some d" "holds d (fold insort names [])"
    using assms by auto
  moreover have "set (fold insort names old) = set names \<union> set old" for old
    by (induction names arbitrary: old) (auto simp: set_insort_key)
  ultimately show ?thesis using is_debugged_eq by fastforce
qed

theorem debug_table_is_set_witness:
  "\<exists>d. for_each (\<lambda>name d. add_debug_to d name) [[2], [1, 3]] no_debug = Some d
    \<and> is_debugged d [1, 3] = Some True \<and> is_debugged d [1] = Some False"
  using debug_table_is_set [of "[[2], [1, 3]]"] by force

section \<open>Robust input and output\<close>

text \<open>C33: The buffered and the unbuffered read return the next bytes of the input, as many as are asked for or
  are left, whatever the sizes of the reads of the kernel and the signals that interrupt them, and
  leave the rest to be read.\<close>

theorem robust_reads_agree:
  assumes "reads_stream sys_read content signals" "wf_rio rp"
    and "n + signals fd < fuel" "signals (rio_fd rp) + 1 < fuel_read"
  shows "(\<exists>fd'. Rio_readn sys_read fuel fd n = Some (Success (take n (content fd), fd'))
      \<and> content fd' = drop n (content fd))
    \<and> (\<exists>rp'. Rio_readnb sys_read fuel_read fuel rp n = Some (Success (take n (unread content rp), rp'))
      \<and> wf_rio rp' \<and> unread content rp' = drop n (unread content rp))"
proof -
  from descriptor.loop_reads [of sys_read content signals n fd fuel "[]"] assms(1,3)
  obtain fd' where "read_loop (\<lambda>s n. Some (sys_read s n)) fuel fd n [] = Some (Some (take n (content fd)), fd')"
    "content fd' = drop n (content fd)" by auto
  moreover from buffered.loop_reads [of sys_read content signals rp fuel_read n fuel "[]"] assms
  obtain rp' where "read_loop (rio_read sys_read fuel_read) fuel rp n [] = Some (Some (take n (unread content rp)), rp')"
    "wf_rio rp'" "unread content rp' = drop n (unread content rp)" by auto
  ultimately show ?thesis by (simp add: Rio_readn_def Rio_readnb_def rio_readn_def rio_readnb_def)
qed

text \<open>
  A kernel that gives one byte at a time after a signal; its state is the input and whether the
  signal has come.
\<close>

definition slow_read :: "u8 list \<times> bool \<Rightarrow> nat \<Rightarrow> syscall \<times> u8 list \<times> bool" where
  "slow_read s n = (case s of (bs, ready) \<Rightarrow>
     if bs = [] then (Returned [], bs, ready)
     else if ready then (Returned [hd bs], tl bs, False)
     else (Error True, bs, True))"

definition slow_signals :: "u8 list \<times> bool \<Rightarrow> nat" where
  "slow_signals s = (case s of (bs, ready) \<Rightarrow> 2 * length bs + (if ready then 0 else 1))"

lemma slow_read_stream: "reads_stream slow_read fst slow_signals"
  by (auto simp: reads_stream_def slow_read_def slow_signals_def neq_Nil_conv)

definition demo_rio :: "(u8 list \<times> bool) rio" where
  "demo_rio = rio_readinitb ([0x61, 0x62, 0x0a, 0x63], False) (replicate 8192 0)"

lemma demo_rio_simps [simp]:
  "wf_rio demo_rio" "unread fst demo_rio = [0x61, 0x62, 0x0a, 0x63]"
  "rio_fd demo_rio = ([0x61, 0x62, 0x0a, 0x63], False)"
  by (simp_all add: demo_rio_def)

theorem robust_reads_agree_witness:
  "(\<exists>fd'. Rio_readn slow_read 20 ([0x61, 0x62, 0x0a, 0x63], False) 3 = Some (Success ([0x61, 0x62, 0x0a], fd')))
    \<and> (\<exists>rp'. Rio_readnb slow_read 20 20 demo_rio 3 = Some (Success ([0x61, 0x62, 0x0a], rp')))"
  using robust_reads_agree [OF slow_read_stream, of demo_rio 3 "([0x61, 0x62, 0x0a, 0x63], False)" 20 20]
  by (simp add: slow_signals_def) blast

text \<open>The line reader stores the next line, up to the newline, the size of the buffer less one or the
  end of the input, and leaves the rest; its result is the number of bytes stored for a line
  that ends by a newline and 0 at the end of the input, but one more than the number of bytes
  stored for a line that is cut.\<close>

lemma read_line:
  assumes "reads_stream sys_read content signals" "wf_rio rp" "signals (rio_fd rp) + 1 < fuel"
  shows "\<exists>rp'. let line = line_of (maxlen - 1) (unread content rp) in
    Rio_readlineb sys_read fuel rp maxlen = Some (Success
      (if complete line then length line
       else if maxlen > 1 \<and> unread content rp = [] then 0 else length line + 1, line, rp'))
    \<and> wf_rio rp' \<and> unread content rp' = drop (length line) (unread content rp)"
proof -
  let ?line = "line_of (maxlen - 1) (unread content rp)"
  obtain rp' where rp': "readline_loop sys_read fuel rp (maxlen - 1) 1 [] = Some (Some
       (let line = ?line in
        (if complete line then 1 + length line - 1
         else if line = [] \<and> 0 < maxlen - 1 \<and> (1 :: nat) = 1 then 0 else 1 + length line,
         if line = [] \<and> 0 < maxlen - 1 \<and> (1 :: nat) = 1 then [] else [] @ line)), rp')"
    "wf_rio rp'" "unread content rp' = drop (length ?line) (unread content rp)"
    using readline_loop_result [OF assms, of 1 "maxlen - 1" "[]"] by auto
  show ?thesis
    using rp' by (intro exI [of _ rp'], cases "unread content rp = []")
      (auto simp: Rio_readlineb_def rio_readlineb_def Let_def)
qed

lemma demo_lines:
  "line_of 9 [0x61, 0x62, 0x0a, 0x63] = [0x61, 0x62, 0x0a]" "line_of 2 [0x61, 0x62, 0x0a, 0x63] = [0x61, 0x62]"
  "complete [0x61, 0x62, 0x0a]" "\<not> complete [0x61, 0x62]"
  by code_simp+

text \<open>The robust write comes to an end and has written all the bytes, in their order and once, whatever
  the sizes the kernel accepts and the signals that interrupt it.\<close>

lemma robust_write:
  assumes "writes_stream sys_write sink signals" "length bs + signals fd < fuel"
  shows "\<exists>fd'. Rio_writen sys_write fuel fd bs = Some (Success fd') \<and> sink fd' = sink fd @ bs"
  using write_loop_result [OF assms] by (auto simp: Rio_writen_def rio_writen_bytes_def)

definition slow_write :: "u8 list \<times> nat \<Rightarrow> u8 list \<Rightarrow> int \<times> bool \<times> u8 list \<times> nat" where
  "slow_write s bs = (case s of (out, 0) \<Rightarrow> (1, False, out @ take 1 bs, 0)
     | (out, Suc n) \<Rightarrow> (-1, True, out, n))"

lemma slow_write_stream: "writes_stream slow_write fst snd"
  by (auto simp: writes_stream_def slow_write_def neq_Nil_conv split: nat.splits)

end
