(* ===== verification/Flex.thy ===== *)
theory Flex
  imports Scanner Rio
begin

text \<open>
  The buffer of the scanner of \<open>scanner.c\<close>: \<open>yylex\<close> with its labels, the refill of the buffer,
  the two bytes 0 that end it, the bytes 0 of the input itself, the byte that is held back while
  the text of a token is a C string, and the creation of the buffer.  The theory \<open>Scanner\<close> has the
  scanner over the whole input; here the input comes from \<open>read\<close> in pieces of any size, and the
  lemmas of \<open>FlexScan\<close> show that the two agree.

  A pointer into the buffer is an index.  The scanner has one buffer, which it owns, and its
  stream is always the one of the connection.  The number of gotos inside one token is bounded by
  fuel; in this theory \<open>None\<close> is undefined behaviour or the end of the fuel, and the main lemma
  says that there is neither.
\<close>

section \<open>The state of the scanner\<close>

datatype buffer_status = Buffer_new | Buffer_normal | Buffer_eof_pending

record 's yyguts =
  kernel :: 's
  yy_ch_buf :: "u8 list"
  yy_buf_size :: nat
  yy_buf_pos :: nat
  buffer_n_chars :: nat
  buffer_status :: buffer_status
  yy_fill_buffer :: bool
  yy_n_chars :: nat
  yy_c_buf_p :: nat
  yytext_ptr :: nat
  yyleng :: nat
  yy_hold_char :: u8
  last_accepting :: accepting

text \<open>
  What the scanner gets from its environment: the system call \<open>read\<close>, the sizes that can be
  allocated, the indeterminate content of new memory, and what a command leaves of the text it is
  given, which it may overwrite.
\<close>

record 's platform =
  sys_read :: "'s \<Rightarrow> nat \<Rightarrow> syscall \<times> 's"
  allocates :: "nat \<Rightarrow> bool"
  indeterminate :: "nat \<Rightarrow> u8"
  overwritten :: "u8 list \<Rightarrow> u8 list"

text \<open>\<open>yy_fatal_error\<close> ends the process with the exit code 2.\<close>

datatype 'a lexed = Done 'a | Fatal

definition yyalloc :: "'s platform \<Rightarrow> nat \<Rightarrow> u8 list option" where
  "yyalloc e n = (if allocates e n then Some (map (indeterminate e) [0..<n]) else None)"

definition yyrealloc :: "'s platform \<Rightarrow> u8 list \<Rightarrow> nat \<Rightarrow> u8 list option" where
  "yyrealloc e block n = (if allocates e n then Some (take n (block @ map (indeterminate e) [0..<n])) else None)"

section \<open>The buffer\<close>

definition yy_load_buffer_state :: "'s yyguts \<Rightarrow> 's yyguts option" where
  "yy_load_buffer_state g = do {
     c \<leftarrow> aget (yy_ch_buf g) (yy_buf_pos g);
     Some (g\<lparr>yy_n_chars := buffer_n_chars g, yytext_ptr := yy_buf_pos g, yy_c_buf_p := yy_buf_pos g,
       yy_hold_char := c\<rparr>)
   }"

text \<open>\<open>current\<close> says whether the buffer is the current one.\<close>

definition yy_flush_buffer :: "bool \<Rightarrow> 's yyguts \<Rightarrow> 's yyguts option" where
  "yy_flush_buffer current g = do {
     buf \<leftarrow> aset (yy_ch_buf g) 0 0;
     buf \<leftarrow> aset buf 1 0;
     let g = g\<lparr>buffer_n_chars := 0, yy_ch_buf := buf, yy_buf_pos := 0, buffer_status := Buffer_new\<rparr>;
     if current then yy_load_buffer_state g else Some g
   }"

definition yy_init_buffer :: "bool \<Rightarrow> 's yyguts \<Rightarrow> 's yyguts option" where
  "yy_init_buffer current g = do {
     g \<leftarrow> yy_flush_buffer current g;
     Some (g\<lparr>yy_fill_buffer := True\<rparr>)
   }"

definition yyrestart :: "'s yyguts \<Rightarrow> 's yyguts option" where
  "yyrestart g = do {
     g \<leftarrow> yy_init_buffer True g;
     yy_load_buffer_state g
   }"

text \<open>The structure of a buffer has 64 bytes.\<close>

definition yy_create_buffer :: "'s platform \<Rightarrow> 's yyguts \<Rightarrow> nat \<Rightarrow> 's yyguts lexed option" where
  "yy_create_buffer e g n =
     (if \<not> allocates e 64 then Some Fatal
      else case yyalloc e (n + 2) of None \<Rightarrow> Some Fatal
      | Some block \<Rightarrow> do {
          g \<leftarrow> yy_init_buffer False (g\<lparr>yy_buf_size := n, yy_ch_buf := block\<rparr>);
          Some (Done g)
        })"

text \<open>
  The first part of \<open>yylex\<close>: the stack of buffers has room for one pointer, and the buffer is
  created.
\<close>

definition yylex_start :: "'s platform \<Rightarrow> 's yyguts \<Rightarrow> 's yyguts lexed option" where
  "yylex_start e g =
     (if \<not> allocates e 8 then Some Fatal
      else do {
        created \<leftarrow> yy_create_buffer e g 16384;
        case created of Fatal \<Rightarrow> Some Fatal
        | Done g \<Rightarrow> do { g \<leftarrow> yy_load_buffer_state g; Some (Done g) }
      })"

text \<open>
  \<open>memset\<close> clears the structure; the scanner has no buffer yet.  The result is \<open>None\<close> when the
  structure cannot be allocated.
\<close>

definition yylex_init_extra :: "bool \<Rightarrow> 's \<Rightarrow> 's yyguts option" where
  "yylex_init_extra ok s = (if \<not> ok then None else Some \<lparr>kernel = s, yy_ch_buf = [], yy_buf_size = 0, yy_buf_pos = 0,
     buffer_n_chars = 0, buffer_status = Buffer_new, yy_fill_buffer = False, yy_n_chars = 0, yy_c_buf_p = 0, yytext_ptr = 0,
     yyleng = 0, yy_hold_char = 0, last_accepting = None\<rparr>)"

text \<open>\<open>YY_INPUT\<close>: read again after a signal; the inner \<open>None\<close> is an error.\<close>

fun yy_input :: "'s platform \<Rightarrow> nat \<Rightarrow> 's \<Rightarrow> nat \<Rightarrow> (u8 list option \<times> 's) option" where
  "yy_input e 0 s n = None"
| "yy_input e (Suc fuel) s n = (case sys_read e s n of
     (Returned bs, s) \<Rightarrow> Some (Some bs, s)
   | (Error interrupted, s) \<Rightarrow> if interrupted then yy_input e fuel s n else Some (None, s))"

text \<open>
  The loop that makes room, while less than one byte can be read.  The size is a C integer: its
  double must not overflow.
\<close>

fun yy_grow :: "'s platform \<Rightarrow> nat \<Rightarrow> 's yyguts \<Rightarrow> nat \<Rightarrow> 's yyguts lexed option" where
  "yy_grow e 0 g number_to_move = None"
| "yy_grow e (Suc fuel) g number_to_move =
     (if yy_buf_size g > number_to_move + 1 then Some (Done g)
      else if yy_buf_size g * 2 \<ge> 2 ^ 31 then None
      else
        let g = g\<lparr>yy_buf_size := (if yy_buf_size g * 2 = 0 then yy_buf_size g + yy_buf_size g div 8
          else yy_buf_size g * 2)\<rparr> in
        case yyrealloc e (yy_ch_buf g) (yy_buf_size g + 2) of
          None \<Rightarrow> Some Fatal
        | Some block \<Rightarrow> yy_grow e fuel (g\<lparr>yy_ch_buf := block\<rparr>) number_to_move)"

text \<open>The copy of the last characters to the start of the buffer.\<close>

fun yy_move :: "nat \<Rightarrow> nat \<Rightarrow> nat \<Rightarrow> u8 list \<Rightarrow> u8 list option" where
  "yy_move 0 dest source buf = Some buf"
| "yy_move (Suc n) dest source buf = do {
     c \<leftarrow> aget buf source;
     buf \<leftarrow> aset buf dest c;
     yy_move n (dest + 1) (source + 1) buf
   }"

datatype eob_act = Continue_scan | End_of_file | Last_match

text \<open>The part that reads: the bytes are stored after those that were moved.\<close>

definition yy_fill :: "'s platform \<Rightarrow> nat \<Rightarrow> 's yyguts \<Rightarrow> nat \<Rightarrow> 's yyguts lexed option" where
  "yy_fill e fuel g number_to_move =
     (if buffer_status g = Buffer_eof_pending then Some (Done (g\<lparr>buffer_n_chars := 0, yy_n_chars := 0\<rparr>))
      else do {
        grown \<leftarrow> yy_grow e fuel g number_to_move;
        case grown of Fatal \<Rightarrow> Some Fatal
        | Done g \<Rightarrow> do {
            let num_to_read = min (yy_buf_size g - number_to_move - 1) 8192;
            (result, s) \<leftarrow> yy_input e fuel (kernel g) num_to_read;
            case result of None \<Rightarrow> Some Fatal
            | Some bs \<Rightarrow>
                if number_to_move + length bs > length (yy_ch_buf g) then None
                else Some (Done (g\<lparr>kernel := s, yy_n_chars := length bs, buffer_n_chars := length bs,
                  yy_ch_buf := take number_to_move (yy_ch_buf g) @ bs
                    @ drop (number_to_move + length bs) (yy_ch_buf g)\<rparr>))
          }
      })"

text \<open>The extension of the array by half of what was read.\<close>

definition yy_extend :: "'s platform \<Rightarrow> 's yyguts \<Rightarrow> nat \<Rightarrow> 's yyguts lexed" where
  "yy_extend e g number_to_move =
     (if yy_n_chars g + number_to_move > yy_buf_size g then
        let new_size = yy_n_chars g + number_to_move + yy_n_chars g div 2 in
        case yyrealloc e (yy_ch_buf g) new_size of
          None \<Rightarrow> Fatal
        | Some block \<Rightarrow> Done (g\<lparr>yy_ch_buf := block, yy_buf_size := new_size - 2\<rparr>)
      else Done g)"

definition yy_get_next_buffer :: "'s platform \<Rightarrow> nat \<Rightarrow> 's yyguts \<Rightarrow> (eob_act \<times> 's yyguts) lexed option" where
  "yy_get_next_buffer e fuel g =
     (if yy_c_buf_p g > yy_n_chars g + 1 then Some Fatal
      else if \<not> yy_fill_buffer g then
        Some (Done (if yy_c_buf_p g - yytext_ptr g = 1 then End_of_file else Last_match, g))
      else do {
        let number_to_move = yy_c_buf_p g - yytext_ptr g - 1;
        buf \<leftarrow> yy_move number_to_move 0 (yytext_ptr g) (yy_ch_buf g);
        filled \<leftarrow> yy_fill e fuel (g\<lparr>yy_ch_buf := buf\<rparr>) number_to_move;
        case filled of Fatal \<Rightarrow> Some Fatal
        | Done g \<Rightarrow> do {
            (act, g) \<leftarrow>
              (if yy_n_chars g = 0 then
                 if number_to_move = 0 then do { g \<leftarrow> yyrestart g; Some (End_of_file, g) }
                 else Some (Last_match, g\<lparr>buffer_status := Buffer_eof_pending\<rparr>)
               else Some (Continue_scan, g));
            case yy_extend e g number_to_move of Fatal \<Rightarrow> Some Fatal
            | Done g \<Rightarrow> do {
                let n = yy_n_chars g + number_to_move;
                buf \<leftarrow> aset (yy_ch_buf g) n 0;
                buf \<leftarrow> aset buf (n + 1) 0;
                Some (Done (act, g\<lparr>yy_n_chars := n, yy_ch_buf := buf, yytext_ptr := 0\<rparr>))
              }
          }
      })"

section \<open>The scan of a token\<close>

text \<open>The loop of \<open>yy_get_previous_state\<close>, over the bytes between \<open>yy_cp\<close> and \<open>yy_c_buf_p\<close>.\<close>

fun yy_rerun :: "u8 list \<Rightarrow> nat \<Rightarrow> nat \<Rightarrow> accepting \<Rightarrow> (nat \<times> accepting) option" where
  "yy_rerun [] state cp acc = Some (state, acc)"
| "yy_rerun (b # bs) state cp acc = do {
     c \<leftarrow> (if b \<noteq> 0 then aget yy_ec (unat b) else Some 1);
     acc \<leftarrow> remember state cp acc;
     state \<leftarrow> yy_step state c;
     yy_rerun bs state (cp + 1) acc
   }"

definition yy_get_previous_state :: "'s yyguts \<Rightarrow> (nat \<times> 's yyguts) option" where
  "yy_get_previous_state g =
     (if yy_c_buf_p g > length (yy_ch_buf g) then None
      else do {
        (state, acc) \<leftarrow> yy_rerun (drop (yytext_ptr g) (take (yy_c_buf_p g) (yy_ch_buf g))) 1
          (yytext_ptr g) (last_accepting g);
        Some (state, g\<lparr>last_accepting := acc\<rparr>)
      })"

text \<open>The matching loop over the buffer; the bytes 0 are those that end it or those of the input.\<close>

function yy_match_loop :: "u8 list \<Rightarrow> nat \<Rightarrow> nat \<Rightarrow> accepting \<Rightarrow> (nat \<times> nat \<times> accepting) option" where
  "yy_match_loop buf state cp acc =
     (if cp \<ge> length buf then None
      else do {
        c \<leftarrow> aget yy_ec (unat (buf ! cp));
        acc \<leftarrow> remember state cp acc;
        state \<leftarrow> yy_step state c;
        base \<leftarrow> aget yy_base state;
        if base \<noteq> 14 then yy_match_loop buf state (cp + 1) acc else Some (state, cp + 1, acc)
      })"
  by pat_completeness auto

termination by (relation "measure (\<lambda>(buf, state, cp, acc). length buf - cp)") auto

declare yy_match_loop.simps [simp del]

text \<open>The labels \<open>yy_match\<close> and \<open>yy_find_action\<close>, with \<open>yy_current_state\<close> and \<open>yy_cp\<close>.\<close>

datatype label = Match nat nat | Find_action nat nat

datatype token = Rule nat | Eof

text \<open>\<open>YY_DO_BEFORE_ACTION\<close>.\<close>

definition yy_do_before_action :: "'s yyguts \<Rightarrow> nat \<Rightarrow> nat \<Rightarrow> 's yyguts option" where
  "yy_do_before_action g bp cp = do {
     c \<leftarrow> aget (yy_ch_buf g) cp;
     buf \<leftarrow> aset (yy_ch_buf g) cp 0;
     Some (g\<lparr>yytext_ptr := bp, yyleng := cp - bp, yy_hold_char := c, yy_ch_buf := buf, yy_c_buf_p := cp\<rparr>)
   }"

text \<open>
  The case \<open>YY_END_OF_BUFFER\<close>: the label to go to, or \<open>None\<close> for the end of the file.  A byte 0
  before the end is one of the input; otherwise the buffer is refilled.
\<close>

definition yy_NUL_or_refill :: "'s platform \<Rightarrow> nat \<Rightarrow> nat \<Rightarrow> 's yyguts \<Rightarrow> (label option \<times> 's yyguts) lexed option" where
  "yy_NUL_or_refill e fuel amount g =
     (if yy_c_buf_p g \<le> yy_n_chars g then do {
        (state, g) \<leftarrow> yy_get_previous_state (g\<lparr>yy_c_buf_p := yytext_ptr g + amount\<rparr>);
        (next, acc) \<leftarrow> yy_try_NUL_trans state (yy_c_buf_p g) (last_accepting g);
        let g = g\<lparr>last_accepting := acc\<rparr>;
        if next \<noteq> 0 then
          Some (Done (Some (Match next (yy_c_buf_p g + 1)), g\<lparr>yy_c_buf_p := yy_c_buf_p g + 1\<rparr>))
        else Some (Done (Some (Find_action state (yy_c_buf_p g)), g))
      }
      else do {
        result \<leftarrow> yy_get_next_buffer e fuel g;
        case result of Fatal \<Rightarrow> Some Fatal
        | Done (End_of_file, g) \<Rightarrow> Some (Done (None, g\<lparr>yy_c_buf_p := yytext_ptr g\<rparr>))
        | Done (Continue_scan, g) \<Rightarrow> do {
            (state, g) \<leftarrow> yy_get_previous_state (g\<lparr>yy_c_buf_p := yytext_ptr g + amount\<rparr>);
            Some (Done (Some (Match state (yy_c_buf_p g)), g))
          }
        | Done (Last_match, g) \<Rightarrow> do {
            (state, g) \<leftarrow> yy_get_previous_state (g\<lparr>yy_c_buf_p := yy_n_chars g\<rparr>);
            Some (Done (Some (Find_action state (yy_c_buf_p g)), g))
          }
      })"

definition yy_end_of_buffer :: "'s platform \<Rightarrow> nat \<Rightarrow> 's yyguts \<Rightarrow> nat \<Rightarrow> (label option \<times> 's yyguts) lexed option" where
  "yy_end_of_buffer e fuel g cp = do {
     let amount = cp - yytext_ptr g - 1;
     buf \<leftarrow> aset (yy_ch_buf g) cp (yy_hold_char g);
     let g = g\<lparr>yy_ch_buf := buf\<rparr>;
     let g = (if buffer_status g = Buffer_new then
       g\<lparr>yy_n_chars := buffer_n_chars g, buffer_status := Buffer_normal\<rparr> else g);
     yy_NUL_or_refill e fuel amount g
   }"

fun yy_scan :: "'s platform \<Rightarrow> nat \<Rightarrow> nat \<Rightarrow> 's yyguts \<Rightarrow> nat \<Rightarrow> label \<Rightarrow> (token \<times> 's yyguts) lexed option" where
  "yy_scan e reads 0 g bp l = None"
| "yy_scan e reads (Suc fuel) g bp (Match state cp) = do {
     (state, cp, acc) \<leftarrow> yy_match_loop (yy_ch_buf g) state cp (last_accepting g);
     yy_scan e reads fuel (g\<lparr>last_accepting := acc\<rparr>) bp (Find_action state cp)
   }"
| "yy_scan e reads (Suc fuel) g bp (Find_action state cp) = do {
     (act, cp) \<leftarrow> yy_find_action (state, cp, last_accepting g);
     g \<leftarrow> yy_do_before_action g bp cp;
     if act = 6 then do {
       result \<leftarrow> yy_end_of_buffer e reads g cp;
       case result of Fatal \<Rightarrow> Some Fatal
       | Done (None, g) \<Rightarrow> Some (Done (Eof, g))
       | Done (Some l, g) \<Rightarrow> yy_scan e reads fuel g (yytext_ptr g) l
     }
     else if act = 0 then do {
       buf \<leftarrow> aset (yy_ch_buf g) cp (yy_hold_char g);
       (state, cp) \<leftarrow> last_accepting g;
       yy_scan e reads fuel (g\<lparr>yy_ch_buf := buf\<rparr>) bp (Find_action state cp)
     }
     else if act \<le> 5 then Some (Done (Rule act, g))
     else Some Fatal
   }"

text \<open>
  One turn of the loop of \<open>yylex\<close>, and the loop: at most \<open>tokens\<close> turns.  A command may overwrite
  the text it is given; the indeterminate values it reads depend on the state of the scanner.
\<close>

definition yy_next_token :: "'s platform \<Rightarrow> nat \<Rightarrow> nat \<Rightarrow> 's yyguts \<Rightarrow> (token \<times> 's yyguts) lexed option" where
  "yy_next_token e reads fuel g = do {
     let cp = yy_c_buf_p g;
     buf \<leftarrow> aset (yy_ch_buf g) cp (yy_hold_char g);
     yy_scan e reads fuel (g\<lparr>yy_ch_buf := buf\<rparr>) cp (Match 1 cp)
   }"

definition yytext :: "'s yyguts \<Rightarrow> u8 list" where
  "yytext g = take (yyleng g) (drop (yytext_ptr g) (yy_ch_buf g))"

definition overwrite_text :: "'s platform \<Rightarrow> 's yyguts \<Rightarrow> 's yyguts" where
  "overwrite_text e g = g\<lparr>yy_ch_buf := take (yytext_ptr g) (yy_ch_buf g)
     @ take (yyleng g) (overwritten e (yytext g)) @ drop (yytext_ptr g + yyleng g) (yy_ch_buf g)\<rparr>"

fun buffered_yylex :: "'s platform \<Rightarrow> nat \<Rightarrow> nat \<Rightarrow> nat \<Rightarrow> host \<Rightarrow> ('s yyguts \<Rightarrow> nat \<Rightarrow> u32) \<Rightarrow> nat
    \<Rightarrow> parser_data \<Rightarrow> 's yyguts \<Rightarrow> session lexed option" where
  "buffered_yylex e reads gotos 0 h junk fuel d g = None"
| "buffered_yylex e reads gotos (Suc tokens) h junk fuel d g = do {
     result \<leftarrow> yy_next_token e reads gotos g;
     case result of Fatal \<Rightarrow> Some Fatal
     | Done (Eof, g) \<Rightarrow> do { outcome \<leftarrow> handle_error d; Some (Done outcome) }
     | Done (Rule act, g) \<Rightarrow> do {
         outcome \<leftarrow> yy_action h (junk g) fuel d act (yytext g);
         case outcome of Over s \<Rightarrow> Some (Done (Over s))
         | Going d \<Rightarrow> buffered_yylex e reads gotos tokens h junk fuel d (overwrite_text e g)
       }
   }"

text \<open>
  The session of \<open>Scanner\<close> with the scanner that reads by blocks; \<open>allocated\<close> says whether the
  structure of the scanner is, a failure the caller does not look at.
\<close>

definition buffered_gdb_scanner :: "'s platform \<Rightarrow> nat \<Rightarrow> bool \<Rightarrow> bool \<Rightarrow> bool \<Rightarrow> nat \<Rightarrow> u8 list \<Rightarrow> u8 list \<Rightarrow> host
    \<Rightarrow> ('s yyguts \<Rightarrow> nat \<Rightarrow> u32) \<Rightarrow> nat \<Rightarrow> arm_core \<Rightarrow> 's \<Rightarrow> session lexed option" where
  "buffered_gdb_scanner e steps created opened allocated writes packet_junk err_junk h junk fuel p s = do {
     g \<leftarrow> gdb_init_data created writes packet_junk p;
     let d = \<lparr>gdb = g, err_buffer = err_junk, err_len = 0, echoed = []\<rparr>;
     if \<not> opened then Some (Done (Going d))
     else do {
       y \<leftarrow> yylex_init_extra allocated s;
       started \<leftarrow> yylex_start e y;
       case started of Fatal \<Rightarrow> Some Fatal
       | Done y \<Rightarrow> buffered_yylex e steps steps steps h junk fuel d y
     }
   }"

end
