(* ===== verification/FlexRefill.thy ===== *)
theory FlexRefill
  imports Flex
begin

text \<open>
  What the parts of the buffered scanner do: the automaton on the bytes 0, the matching loop
  against \<open>yy_match\<close>, and the refill of the buffer, which keeps the invariant \<open>wf_flex\<close> and the
  input from the start of the token on.
\<close>

section \<open>The automaton at the end of the buffer\<close>

definition live :: "nat set" where
  "live = {1, 4, 5, 6, 7, 8, 9, 10, 11, 12}"

lemma live_transitions:
  "\<forall>s \<in> live. yy_step s 0 = Some 3 \<and>
     (\<forall>c \<in> {1, 2, 3, 4, 5, 6, 7}. \<exists>s' \<in> insert 13 live. yy_step s c = Some s')"
  unfolding live_def by code_simp

lemma end_state:
  "aget yy_accept 3 = Some 6" "aget yy_base 3 = Some 13" "aget yy_base 13 = Some 14"
  "aget yy_accept 13 = Some 0" "aget yy_ec 0 = Some 0"
  by code_simp+

lemma end_state_transitions: "\<forall>c \<in> {0, 1, 2, 3, 4, 5, 6, 7}. yy_step 3 c = Some 13"
  by code_simp

lemma yy_class_range:
  "\<exists>c \<in> {0, 1, 2, 3, 4, 5, 6, 7}. aget yy_ec (unat (b :: u8)) = Some c \<and> (c = 0 \<longleftrightarrow> b = 0)"
proof (cases "b = 0")
  case True
  then show ?thesis by (simp add: end_state)
next
  case False
  then show ?thesis by (simp add: yy_classes [OF False])
qed

lemma live_step:
  assumes "s \<in> live" "(b :: u8) \<noteq> 0"
  shows "\<exists>c s'. aget yy_ec (unat b) = Some c \<and> yy_step s c = Some s' \<and> (s' \<in> live \<or> s' = 13)"
proof -
  obtain c where "c \<in> {1, 2, 3, 4, 5, 6, 7}" "aget yy_ec (unat b) = Some c"
    using yy_class_range [of b] assms(2) by blast
  then show ?thesis using live_transitions assms(1) by blast
qed

lemma live_NUL:
  assumes "s \<in> live"
  shows "yy_step s 0 = Some 3" "\<exists>s'. yy_step s 1 = Some s' \<and> (s' \<in> live \<or> s' = 13)"
  using assms live_transitions by blast+

lemma live_remember: "s \<in> live \<Longrightarrow> \<exists>acc'. remember s cp acc = Some acc'"
  by (auto simp: live_def remember_def yy_accepts [simplified])

lemma live_base: "s \<in> live \<or> s = 13 \<Longrightarrow> \<exists>n. aget yy_base s = Some n"
  by (auto simp: live_def aget_def yy_base_def)

text \<open>A byte 0 leads to the state of the end of the buffer, and the byte after it to a jam.\<close>

lemma match_loop_zero:
  assumes "s \<in> live" "buf ! cp = 0" "cp + 1 < length buf"
  shows "yy_match_loop buf s cp acc = Some (13, cp + 2, Some (3, cp + 1))"
proof -
  obtain acc' where "remember s cp acc = Some acc'" using live_remember [OF assms(1)] by blast
  moreover obtain c where "aget yy_ec (unat (buf ! (cp + 1))) = Some c" "yy_step 3 c = Some 13"
    using yy_class_range [of "buf ! (cp + 1)"] end_state_transitions by blast
  ultimately show ?thesis
    using assms live_NUL(1) [OF assms(1)]
    by (simp add: yy_match_loop.simps [of buf s] yy_match_loop.simps [of buf 3] end_state remember_def)
qed

section \<open>Positions in the buffer and in the input\<close>

definition shifted :: "nat \<Rightarrow> accepting \<Rightarrow> accepting \<Rightarrow> bool" where
  "shifted t acc stored \<longleftrightarrow> (\<forall>s k. acc = Some (s, k) \<longrightarrow> stored = Some (s, t + k))"

lemma shifted_None [simp]: "shifted t None stored"
  by (simp add: shifted_def)

lemma remember_shifted:
  assumes "remember s k acc = Some acc'" "shifted t acc stored"
  shows "\<exists>stored'. remember s (t + k) stored = Some stored' \<and> shifted t acc' stored'"
  using assms by (auto simp: remember_def shifted_def Option.bind_eq_Some_conv)

lemma rerun_shifted:
  "yy_rerun bs s k acc = Some (s', acc') \<Longrightarrow> shifted t acc stored \<Longrightarrow>
   \<exists>stored'. yy_rerun bs s (t + k) stored = Some (s', stored') \<and> shifted t acc' stored'"
proof (induction bs arbitrary: s k acc stored)
  case (Cons b bs)
  then obtain c acc1 s1 where one: "(if b \<noteq> 0 then aget yy_ec (unat b) else Some 1) = Some c"
    "remember s k acc = Some acc1" "yy_step s c = Some s1"
    and more: "yy_rerun bs s1 (k + 1) acc1 = Some (s', acc')"
    by (auto simp only: yy_rerun.simps Option.bind_eq_Some_conv)
  obtain stored1 where stored1: "remember s (t + k) stored = Some stored1" "shifted t acc1 stored1"
    using remember_shifted [OF one(2) Cons.prems(2)] by blast
  from Cons.IH [OF more stored1(2)] show ?case
    using one stored1(1) by (simp only: yy_rerun.simps) simp
qed simp

lemma rerun_snoc:
  "yy_rerun (bs @ [b]) s k acc = do {
     (s, acc) \<leftarrow> yy_rerun bs s k acc;
     c \<leftarrow> (if b \<noteq> 0 then aget yy_ec (unat b) else Some 1);
     acc \<leftarrow> remember s (k + length bs) acc;
     s \<leftarrow> yy_step s c;
     Some (s, acc)
   }"
  by (induction bs arbitrary: s k acc) (auto split: option.split bind_splits)

lemma find_action_shifted:
  assumes "yy_find_action (s, k, acc) = Some (act, n)" "shifted t acc stored"
  shows "yy_find_action (s, t + k, stored) = Some (act, t + n)"
  using assms by (auto simp: yy_find_action_def shifted_def Option.bind_eq_Some_conv split: if_splits)

section \<open>The matching loop\<close>

text \<open>
  The loop over the buffer follows \<open>yy_match\<close> over the input, up to a state without transitions or
  to a byte 0, where it stops two bytes further.
\<close>

lemma match_loop_follows:
  assumes "n + 1 < length buf" "buf ! n = 0" "input = drop t (take n buf) @ rest"
  shows "t + k \<le> n \<Longrightarrow> s \<in> live \<Longrightarrow> shifted t acc stored \<Longrightarrow> yy_rerun (take k input) 1 0 None = Some (s, acc) \<Longrightarrow>
   \<exists>s' k' acc'. k \<le> k' \<and> t + k' \<le> n
     \<and> ((\<exists>stored'. yy_match_loop buf s (t + k) stored = Some (s', t + k', stored') \<and> shifted t acc' stored'
          \<and> yy_match (drop k input) s k acc = Some (s', k', acc'))
       \<or> (yy_match_loop buf s (t + k) stored = Some (13, t + k' + 2, Some (3, t + k' + 1))
          \<and> buf ! (t + k') = 0 \<and> s' \<in> live \<and> yy_rerun (take k' input) 1 0 None = Some (s', acc')
          \<and> yy_match (drop k input) s k acc = yy_match (drop k' input) s' k' acc'))"
proof (induction "n - (t + k)" arbitrary: k s acc stored rule: less_induct)
  case less
  show ?case
  proof (cases "buf ! (t + k) = 0")
    case True
    then have "yy_match_loop buf s (t + k) stored = Some (13, t + k + 2, Some (3, t + k + 1))"
      using match_loop_zero [OF less.prems(2)] less.prems(1) assms(1) by simp
    then show ?thesis using True less.prems by blast
  next
    case False
    let ?b = "buf ! (t + k)"
    have k: "t + k < n" using False assms(2) less.prems(1) by (cases "t + k = n") auto
    have at: "k < length input" "input ! k = ?b"
      using k assms(1) by (auto simp: assms(3) nth_append add.commute)
    then have b: "drop k input = ?b # drop (k + 1) input" "take (k + 1) input = take k input @ [?b]" "k < length input"
      using Cons_nth_drop_Suc [OF at(1)] take_Suc_conv_app_nth [OF at(1)] by simp_all
    obtain c s1 where c: "aget yy_ec (unat ?b) = Some c" "yy_step s c = Some s1" "s1 \<in> live \<or> s1 = 13"
      using live_step [OF less.prems(2) False] by blast
    obtain acc1 where acc1: "remember s k acc = Some acc1" using live_remember [OF less.prems(2)] by blast
    obtain stored1 where stored1: "remember s (t + k) stored = Some stored1" "shifted t acc1 stored1"
      using remember_shifted [OF acc1 less.prems(3)] by blast
    obtain base where base: "aget yy_base s1 = Some base" using live_base [OF c(3)] by blast
    have loop: "yy_match_loop buf s (t + k) stored =
        (if base \<noteq> 14 then yy_match_loop buf s1 (t + (k + 1)) stored1 else Some (s1, t + (k + 1), stored1))"
      using c base stored1 k assms(1) by (simp add: yy_match_loop.simps [of buf s])
    have abstract: "yy_match (drop k input) s k acc =
        (if base \<noteq> 14 then yy_match (drop (k + 1) input) s1 (k + 1) acc1 else Some (s1, k + 1, acc1))"
      using c base acc1 b(1) False by simp
    show ?thesis
    proof (cases "base = 14")
      case True
      then show ?thesis using loop abstract stored1(2) k
        by (intro exI [of _ s1] exI [of _ "k + 1"] exI [of _ acc1]) auto
    next
      case more: False
      then have "s1 \<in> live" using c(3) base by (auto simp: end_state)
      moreover have "yy_rerun (take (k + 1) input) 1 0 None = Some (s1, acc1)"
        using less.prems(4) b(2,3) c acc1 False by (simp add: rerun_snoc)
      ultimately show ?thesis
        using less.hyps [of "k + 1" s1 acc1 stored1] stored1(2) k more
        unfolding loop abstract by (simp only: if_True) (metis Suc_leD Suc_eq_plus1 add_Suc_right diff_less_mono2 lessI less_eq_Suc_le)
    qed
  qed
qed

section \<open>The refill\<close>

lemma yy_move_eq:
  "dest \<le> source \<Longrightarrow> source + n \<le> length buf \<Longrightarrow>
   yy_move n dest source buf = Some (take dest buf @ take n (drop source buf) @ drop (dest + n) buf)"
proof (induction n arbitrary: dest source buf)
  case (Suc n)
  let ?buf = "buf[dest := buf ! source]"
  have "yy_move (Suc n) dest source buf = yy_move n (dest + 1) (source + 1) ?buf"
    using Suc.prems by simp
  also have "\<dots> = Some (take (dest + 1) ?buf @ take n (drop (source + 1) ?buf) @ drop (dest + 1 + n) ?buf)"
    using Suc.prems by (intro Suc.IH) auto
  also have "take (dest + 1) ?buf = take dest buf @ [buf ! source]"
    using Suc.prems by (simp add: take_Suc_conv_app_nth)
  also have "drop (source + 1) ?buf = drop (source + 1) buf"
    using Suc.prems(1) by simp
  also have "drop (dest + 1 + n) ?buf = drop (dest + Suc n) buf"
    by simp
  finally have "yy_move (Suc n) dest source buf
      = Some (take dest buf @ (buf ! source # take n (drop (source + 1) buf)) @ drop (dest + Suc n) buf)" by simp
  moreover have "buf ! source # take n (drop (source + 1) buf) = take (Suc n) (drop source buf)"
    using Suc.prems(2) by (simp add: Cons_nth_drop_Suc [symmetric])
  ultimately show ?case by simp
qed simp

lemma yy_grow_result:
  assumes "\<forall>n. allocates e n" "m + 1 < 2 ^ 30"
  shows "length (yy_ch_buf g) = yy_buf_size g + 2 \<Longrightarrow> 0 < yy_buf_size g \<Longrightarrow> m + 2 - yy_buf_size g < fuel \<Longrightarrow>
   \<exists>n buf. yy_grow e fuel g m = Some (Done (g\<lparr>yy_buf_size := n, yy_ch_buf := buf\<rparr>)) \<and> length buf = n + 2
     \<and> m + 1 < n \<and> (\<exists>fresh. buf = yy_ch_buf g @ fresh)"
proof (induction fuel arbitrary: g)
  case 0
  then show ?case by simp
next
  case (Suc fuel)
  show ?case
  proof (cases "m + 1 < yy_buf_size g")
    case True
    then show ?thesis
      using Suc.prems by (intro exI [of _ "yy_buf_size g"] exI [of _ "yy_ch_buf g"]) simp
  next
    case False
    let ?n = "yy_buf_size g * 2"
    define buf1 where "buf1 = take (?n + 2) (yy_ch_buf g @ map (indeterminate e) [0..<?n + 2])"
    let ?g = "g\<lparr>yy_buf_size := ?n, yy_ch_buf := buf1\<rparr>"
    have buf1: "length buf1 = ?n + 2" "\<exists>fresh. buf1 = yy_ch_buf g @ fresh"
      using Suc.prems(1) by (simp_all add: buf1_def)
    have "length (yy_ch_buf ?g) = yy_buf_size ?g + 2" "0 < yy_buf_size ?g" "m + 2 - yy_buf_size ?g < fuel"
      using Suc.prems False buf1(1) by auto
    from Suc.IH [OF this] obtain n buf fresh where
      "yy_grow e fuel ?g m = Some (Done (?g\<lparr>yy_buf_size := n, yy_ch_buf := buf\<rparr>))" "length buf = n + 2"
      "m + 1 < n" "buf = buf1 @ fresh" by auto
    note grown = this
    have "yy_grow e (Suc fuel) g m = yy_grow e fuel ?g m"
      using False assms Suc.prems(2) by (simp add: yyrealloc_def Let_def buf1_def)
    then have "yy_grow e (Suc fuel) g m = Some (Done (g\<lparr>yy_buf_size := n, yy_ch_buf := buf\<rparr>))"
      unfolding grown(1) by simp
    moreover obtain fresh1 where "buf = yy_ch_buf g @ (fresh1 @ fresh)"
      using grown(4) buf1(2) by auto
    ultimately show ?thesis using grown(2,3) by blast
  qed
qed

lemma yy_input_result:
  assumes "reads_stream (sys_read e) content signals" "0 < n"
  shows "signals s < fuel \<Longrightarrow> \<exists>bs s'. yy_input e fuel s n = Some (Some bs, s') \<and> length bs \<le> n
    \<and> content s = bs @ content s' \<and> (bs = [] \<longrightarrow> content s = []) \<and> signals s' \<le> signals s"
proof (induction fuel arbitrary: s)
  case 0
  then show ?case by simp
next
  case (Suc fuel)
  obtain r s1 where r: "sys_read e s n = (r, s1)" by (cases "sys_read e s n")
  have law: "read_law (content s) (signals s) n r (content s1) (signals s1)"
    using assms r unfolding reads_stream_def by (metis fst_conv snd_conv)
  show ?case
  proof (cases r)
    case (Returned bs)
    then show ?thesis using r law by auto
  next
    case (Error i)
    then show ?thesis using r law Suc.IH [of s1] Suc.prems by auto
  qed
qed

text \<open>
  The invariant: two bytes 0 end the buffer, and after the end of the file nothing is left to
  read.  \<open>input_at\<close> is the input from a position on: the bytes of the buffer, then those that are
  still to be read.
\<close>

definition wf_flex :: "('s \<Rightarrow> u8 list) \<Rightarrow> 's yyguts \<Rightarrow> bool" where
  "wf_flex content g \<longleftrightarrow> length (yy_ch_buf g) = yy_buf_size g + 2 \<and> 0 < yy_buf_size g
     \<and> yy_n_chars g \<le> yy_buf_size g \<and> yy_ch_buf g ! yy_n_chars g = 0 \<and> yy_ch_buf g ! (yy_n_chars g + 1) = 0
     \<and> (buffer_status g = Buffer_eof_pending \<longrightarrow> content (kernel g) = [])
     \<and> (buffer_status g = Buffer_new \<longrightarrow> buffer_n_chars g = yy_n_chars g) \<and> yy_fill_buffer g"

definition input_at :: "('s \<Rightarrow> u8 list) \<Rightarrow> 's yyguts \<Rightarrow> nat \<Rightarrow> u8 list" where
  "input_at content g t = drop t (take (yy_n_chars g) (yy_ch_buf g)) @ content (kernel g)"

text \<open>What the scanner needs from its environment, for an input of at most half a gigabyte.\<close>

definition good_platform :: "'s platform \<Rightarrow> ('s \<Rightarrow> u8 list) \<Rightarrow> ('s \<Rightarrow> nat) \<Rightarrow> bool" where
  "good_platform e content signals \<longleftrightarrow> reads_stream (sys_read e) content signals
     \<and> (\<forall>n. allocates e n) \<and> (\<forall>s. length (overwritten e s) = length s)"

definition enough :: "('s \<Rightarrow> u8 list) \<Rightarrow> ('s \<Rightarrow> nat) \<Rightarrow> nat \<Rightarrow> 's yyguts \<Rightarrow> nat \<Rightarrow> bool" where
  "enough content signals reads g t \<longleftrightarrow> length (input_at content g t) \<le> 2 ^ 29
     \<and> length (input_at content g t) + 2 < reads \<and> signals (kernel g) < reads"

lemma yy_fill_result:
  assumes "good_platform e content signals" "signals (kernel g) < fuel"
    and "length (yy_ch_buf g) = yy_buf_size g + 2" "0 < yy_buf_size g" "m \<le> yy_buf_size g"
    and "buffer_status g = Buffer_eof_pending \<Longrightarrow> content (kernel g) = []" "m + 1 < 2 ^ 30" "m + 2 < fuel"
  shows "\<exists>s n buf size. yy_fill e fuel g m = Some (Done (g\<lparr>kernel := s, yy_n_chars := n, buffer_n_chars := n,
      yy_buf_size := size, yy_ch_buf := buf\<rparr>)) \<and> length buf = size + 2 \<and> 0 < size \<and> m + n \<le> size
    \<and> take m buf = take m (yy_ch_buf g) \<and> content (kernel g) = take n (drop m buf) @ content s
    \<and> (n = 0 \<longrightarrow> content (kernel g) = []) \<and> signals s \<le> signals (kernel g)"
proof (cases "buffer_status g = Buffer_eof_pending")
  case True
  then have "yy_fill e fuel g m = Some (Done (g\<lparr>kernel := kernel g, yy_n_chars := 0, buffer_n_chars := 0,
      yy_buf_size := yy_buf_size g, yy_ch_buf := yy_ch_buf g\<rparr>))"
    by (simp add: yy_fill_def)
  then show ?thesis using assms(3-6) True
    by (intro exI [of _ "kernel g"] exI [of _ 0] exI [of _ "yy_ch_buf g"] exI [of _ "yy_buf_size g"]) simp
next
  case False
  obtain size buf fresh where grown: "yy_grow e fuel g m = Some (Done (g\<lparr>yy_buf_size := size, yy_ch_buf := buf\<rparr>))"
    "length buf = size + 2" "m + 1 < size" "buf = yy_ch_buf g @ fresh"
  proof -
    have "\<forall>n. allocates e n" "m + 2 - yy_buf_size g < fuel"
      using assms(1,8) by (simp_all add: good_platform_def)
    then show ?thesis using that yy_grow_result [OF _ assms(7,3,4)] by blast
  qed
  let ?n = "min (size - m - 1) 8192"
  obtain bs s where input: "yy_input e fuel (kernel g) ?n = Some (Some bs, s)" "length bs \<le> ?n"
    "content (kernel g) = bs @ content s" "bs = [] \<longrightarrow> content (kernel g) = []" "signals s \<le> signals (kernel g)"
    using yy_input_result [of e content signals ?n "kernel g" fuel] assms(1,2) grown(3)
    by (auto simp: good_platform_def)
  define buf2 where "buf2 = take m buf @ bs @ drop (m + length bs) buf"
  have room: "m + length bs \<le> size" using input(2) grown(3) by linarith
  then have "yy_fill e fuel g m = Some (Done (g\<lparr>kernel := s, yy_n_chars := length bs, buffer_n_chars := length bs,
      yy_buf_size := size, yy_ch_buf := buf2\<rparr>))"
    using False grown(1,2) input(1) by (simp add: yy_fill_def Let_def buf2_def)
  moreover have "length buf2 = size + 2" "take m buf2 = take m (yy_ch_buf g)"
    "content (kernel g) = take (length bs) (drop m buf2) @ content s"
    using room grown(2,4) assms(3,5) input(3) by (simp_all add: buf2_def)
  moreover have "0 < size" "length bs = 0 \<longrightarrow> content (kernel g) = []" using grown(3) input(4) by auto
  ultimately show ?thesis using room input(5) by blast
qed

lemma yyrestart_result:
  assumes "2 \<le> length (yy_ch_buf g)"
  shows "\<exists>g'. yyrestart g = Some g' \<and> yy_n_chars g' = 0 \<and> length (yy_ch_buf g') = length (yy_ch_buf g)"
proof -
  have "0 < length (yy_ch_buf g)" "Suc 0 < length (yy_ch_buf g)" using assms by auto
  then show ?thesis
    by (simp add: yyrestart_def yy_init_buffer_def yy_flush_buffer_def yy_load_buffer_state_def Let_def)
qed

lemma next_buffer_result:
  assumes "good_platform e content signals" "wf_flex content g" "enough content signals fuel g t"
    and "yytext_ptr g = t" "t \<le> yy_n_chars g" "yy_c_buf_p g = yy_n_chars g + 1"
    and "buffer_status g \<noteq> Buffer_new"
  shows "\<exists>act g'. yy_get_next_buffer e fuel g = Some (Done (act, g'))
    \<and> (if act = End_of_file then t = yy_n_chars g \<and> content (kernel g) = []
       else wf_flex content g' \<and> yytext_ptr g' = 0 \<and> last_accepting g' = last_accepting g
         \<and> input_at content g' 0 = input_at content g t \<and> signals (kernel g') \<le> signals (kernel g)
         \<and> (if act = Last_match then t < yy_n_chars g \<and> yy_n_chars g' = yy_n_chars g - t \<and> content (kernel g') = []
            else yy_n_chars g - t < yy_n_chars g' \<and> length (content (kernel g')) < length (content (kernel g))))"
proof -
  let ?m = "yy_n_chars g - t"
  let ?moved = "take ?m (drop t (yy_ch_buf g)) @ drop ?m (yy_ch_buf g)"
  note wf = assms(2) [unfolded wf_flex_def]
  have move: "yy_move ?m 0 (yytext_ptr g) (yy_ch_buf g) = Some ?moved"
    using yy_move_eq [of 0 t ?m "yy_ch_buf g"] wf assms(4,5) by simp
  have len: "length (input_at content g t) = ?m + length (content (kernel g))"
    using wf assms(5) by (simp add: input_at_def)
  define g0 where "g0 = g\<lparr>yy_ch_buf := ?moved\<rparr>"
  have g0: "kernel g0 = kernel g" "yy_ch_buf g0 = ?moved" "yy_buf_size g0 = yy_buf_size g"
    "buffer_status g0 = buffer_status g" "last_accepting g0 = last_accepting g" "yytext_ptr g0 = yytext_ptr g"
    "yy_fill_buffer g0"
    using wf by (simp_all add: g0_def)
  have "length ?moved = length (yy_ch_buf g)" using wf assms(5) by (auto simp: min_def)
  then have pre: "length (yy_ch_buf g0) = yy_buf_size g0 + 2" "signals (kernel g0) < fuel" "0 < yy_buf_size g0"
    "?m \<le> yy_buf_size g0" "?m + 1 < 2 ^ 30" "?m + 2 < fuel"
    "buffer_status g0 = Buffer_eof_pending \<Longrightarrow> content (kernel g0) = []"
    using assms(3) len wf by (auto simp: enough_def g0)
  obtain s n buf size where fill: "yy_fill e fuel g0 ?m = Some (Done (g0\<lparr>kernel := s, yy_n_chars := n,
      buffer_n_chars := n, yy_buf_size := size, yy_ch_buf := buf\<rparr>))" "length buf = size + 2" "0 < size" "?m + n \<le> size"
    "take ?m buf = take ?m ?moved" "content (kernel g) = take n (drop ?m buf) @ content s"
    "n = 0 \<longrightarrow> content (kernel g) = []" "signals s \<le> signals (kernel g)"
    using yy_fill_result [OF assms(1) pre(2,1,3,4,7,5,6)] unfolding g0(1,2) by blast
  have kept: "take ?m buf = drop t (take (yy_n_chars g) (yy_ch_buf g))"
    using fill(5) wf assms(5) by (auto simp: drop_take min_def)
  have input: "take (?m + n) buf @ content s = input_at content g t"
    using kept fill(6) by (simp add: input_at_def take_add)
  have c: "\<not> yy_c_buf_p g > yy_n_chars g + 1" "yy_c_buf_p g - yytext_ptr g - 1 = ?m"
    using assms(4,6) by simp_all
  let ?g1 = "g0\<lparr>kernel := s, yy_n_chars := n, buffer_n_chars := n, yy_buf_size := size, yy_ch_buf := buf\<rparr>"
  have step: "yy_get_next_buffer e fuel g = do {
      (act, g) \<leftarrow> (if n = 0 then
           if ?m = 0 then do { g \<leftarrow> yyrestart ?g1; Some (End_of_file, g) }
           else Some (Last_match, ?g1\<lparr>buffer_status := Buffer_eof_pending\<rparr>)
         else Some (Continue_scan, ?g1));
      case yy_extend e g ?m of Fatal \<Rightarrow> Some Fatal
      | Done g \<Rightarrow> do {
          buf \<leftarrow> aset (yy_ch_buf g) (yy_n_chars g + ?m) 0;
          buf \<leftarrow> aset buf (yy_n_chars g + ?m + 1) 0;
          Some (Done (act, g\<lparr>yy_n_chars := yy_n_chars g + ?m, yy_ch_buf := buf, yytext_ptr := 0\<rparr>))
        }
    }"
    unfolding yy_get_next_buffer_def Let_def c(2) move bind.bind_lunit g0_def [symmetric] fill(1) lexed.case
    using c(1) wf by simp
  show ?thesis
  proof (cases "n = 0 \<and> ?m = 0")
    case True
    obtain g2 where g2: "yyrestart ?g1 = Some g2" "yy_n_chars g2 = 0" "length (yy_ch_buf g2) = size + 2"
      using yyrestart_result [of ?g1] fill(2) by auto
    then have "\<exists>g'. yy_get_next_buffer e fuel g = Some (Done (End_of_file, g'))"
      unfolding step using True by (simp add: yy_extend_def)
    then show ?thesis using True fill(7) assms(5) by auto
  next
    case False
    let ?act = "if n = 0 then Last_match else Continue_scan"
    let ?buf = "(buf[n + ?m := 0])[n + ?m + 1 := 0]"
    let ?status = "if n = 0 then Buffer_eof_pending else buffer_status g"
    let ?g' = "g0\<lparr>kernel := s, yy_n_chars := n + ?m, buffer_n_chars := n, yy_buf_size := size,
      yy_ch_buf := ?buf, buffer_status := ?status, yytext_ptr := 0\<rparr>"
    have size: "\<not> n + ?m > size" using fill(4) by simp
    have "yy_get_next_buffer e fuel g = Some (Done (?act, ?g'))"
      unfolding step using fill(2) size False by (auto simp: yy_extend_def g0(4) [symmetric] intro!: yyguts.equality)
    moreover have "wf_flex content ?g'"
      using fill(2-4,6,7) assms(7) g0(4,7) wf by (auto simp: wf_flex_def nth_list_update)
    moreover have "input_at content ?g' 0 = input_at content g t"
      using input by (simp add: input_at_def add.commute)
    moreover have "n = 0 \<Longrightarrow> t < yy_n_chars g" using False by simp
    moreover have "n \<noteq> 0 \<Longrightarrow> length (content s) < length (content (kernel g))"
      using fill(2,4,6) by simp
    moreover have "n = 0 \<Longrightarrow> content s = []" using fill(6,7) by simp
    ultimately show ?thesis using fill(8) g0(5)
      by (intro exI [of _ ?act] exI [of _ ?g']) (simp split: if_split)
  qed
qed

end
