(* ===== verification/FlexScan.thy ===== *)
theory FlexScan
  imports FlexRefill
begin

text \<open>
  The buffered scanner implements the scanner over the whole input: each token, and the session.
\<close>

section \<open>The end of the buffer\<close>

text \<open>
  The scan of a token that starts at \<open>t\<close>, in the state \<open>s\<close> after \<open>k\<close> bytes; \<open>acc\<close> is the last
  accepting state that the bytes give.
\<close>

definition scanning :: "('s \<Rightarrow> u8 list) \<Rightarrow> u8 list \<Rightarrow> 's yyguts \<Rightarrow> nat \<Rightarrow> nat \<Rightarrow> nat \<Rightarrow> accepting \<Rightarrow> bool" where
  "scanning content input g t k s acc \<longleftrightarrow> wf_flex content g \<and> input_at content g t = input
     \<and> t + k \<le> yy_n_chars g \<and> s \<in> live
     \<and> yy_rerun (take k input) 1 0 None = Some (s, acc)"

lemma take_input_at:
  assumes "wf_flex content g" "t + k \<le> yy_n_chars g"
  shows "take k (input_at content g t) = drop t (take (t + k) (yy_ch_buf g))"
  using assms by (auto simp: input_at_def wf_flex_def drop_take min_def)

lemma previous_state:
  assumes "wf_flex content g" "yytext_ptr g = t" "yy_c_buf_p g = t + k" "t + k \<le> yy_n_chars g"
    and "yy_rerun (take k (input_at content g t)) 1 0 None = Some (s, acc)"
  shows "\<exists>stored. yy_get_previous_state g = Some (s, g\<lparr>last_accepting := stored\<rparr>) \<and> shifted t acc stored"
proof -
  obtain stored where "yy_rerun (take k (input_at content g t)) 1 (t + 0) (last_accepting g) = Some (s, stored)"
    "shifted t acc stored"
    using rerun_shifted [OF assms(5), of t "last_accepting g"] by auto
  then show ?thesis
    using assms(1-4) take_input_at [OF assms(1,4)]
    by (auto simp: yy_get_previous_state_def wf_flex_def)
qed

lemma try_NUL_shifted:
  assumes "s \<in> live" "shifted t acc stored"
  shows "\<exists>next acc' stored'. yy_try_NUL_trans s k acc = Some (next, acc')
    \<and> yy_try_NUL_trans s (t + k) stored = Some (next, stored') \<and> shifted t acc' stored'
    \<and> remember s k acc = Some acc' \<and> (next \<noteq> 0 \<longrightarrow> next \<in> live \<and> yy_step s 1 = Some next)"
proof -
  obtain s' where s': "yy_step s 1 = Some s'" "s' \<in> live \<or> s' = 13" using live_NUL(2) [OF assms(1)] by blast
  obtain acc' where acc': "remember s k acc = Some acc'" using live_remember [OF assms(1)] by blast
  obtain stored' where "remember s (t + k) stored = Some stored'" "shifted t acc' stored'"
    using remember_shifted [OF acc' assms(2)] by blast
  then show ?thesis using s' acc' by (auto simp: yy_try_NUL_trans_def)
qed

text \<open>The state of the scanner when the byte that was held back has been put back.\<close>

definition at_end :: "'s yyguts \<Rightarrow> nat \<Rightarrow> nat \<Rightarrow> 's yyguts" where
  "at_end g t k = g\<lparr>yytext_ptr := t, yyleng := k + 1, yy_hold_char := yy_ch_buf g ! (t + k + 1),
     yy_c_buf_p := t + k + 1,
     yy_n_chars := (if buffer_status g = Buffer_new then buffer_n_chars g else yy_n_chars g),
     buffer_status := (if buffer_status g = Buffer_new then Buffer_normal else buffer_status g)\<rparr>"

lemma at_end_fields:
  assumes "wf_flex content g"
  shows "wf_flex content (at_end g t k)" "yytext_ptr (at_end g t k) = t" "yy_c_buf_p (at_end g t k) = t + k + 1"
    "yy_n_chars (at_end g t k) = yy_n_chars g" "kernel (at_end g t k) = kernel g"
    "input_at content (at_end g t k) = input_at content g" "last_accepting (at_end g t k) = last_accepting g"
    "buffer_status (at_end g t k) \<noteq> Buffer_new"
  using assms by (auto simp: at_end_def wf_flex_def input_at_def fun_eq_iff)

lemma end_of_buffer_restored:
  assumes "wf_flex content g" "t + k \<le> yy_n_chars g" "yy_do_before_action g t (t + k + 1) = Some g'"
  shows "yy_end_of_buffer e fuel g' (t + k + 1) = yy_NUL_or_refill e fuel k (at_end g t k)"
proof -
  have "t + k + 1 < length (yy_ch_buf g)" using assms(1,2) by (simp add: wf_flex_def)
  then have "g' = g\<lparr>yytext_ptr := t, yyleng := k + 1, yy_hold_char := yy_ch_buf g ! (t + k + 1),
      yy_ch_buf := (yy_ch_buf g)[t + k + 1 := 0], yy_c_buf_p := t + k + 1\<rparr>"
    using assms(3) by (simp add: yy_do_before_action_def)
  then show ?thesis
    using \<open>t + k + 1 < length (yy_ch_buf g)\<close>
    by (auto simp: yy_end_of_buffer_def at_end_def Let_def intro!: arg_cong [of _ _ "yy_NUL_or_refill e fuel k"] yyguts.equality)
qed

text \<open>A byte 0 of the input.\<close>

lemma NUL_in_text:
  assumes "scanning content input g t k s acc" "t + k < yy_n_chars g" "yy_ch_buf g ! (t + k) = 0"
    and "yytext_ptr g = t" "yy_c_buf_p g = t + k + 1"
  shows "\<exists>l g' acc'. yy_NUL_or_refill e fuel k g = Some (Done (Some l, g')) \<and> yytext_ptr g' = t \<and> kernel g' = kernel g
    \<and> k < length input
    \<and> ((\<exists>nx. l = Match nx (t + (k + 1)) \<and> scanning content input g' t (k + 1) nx acc'
          \<and> shifted t acc' (last_accepting g')
          \<and> yy_match (drop k input) s k acc = yy_match (drop (k + 1) input) nx (k + 1) acc')
      \<or> l = Find_action s (t + k) \<and> wf_flex content g' \<and> input_at content g' t = input \<and> t + k \<le> yy_n_chars g'
          \<and> shifted t acc' (last_accepting g') \<and> yy_match (drop k input) s k acc = Some (s, k, acc'))"
proof -
  let ?g = "g\<lparr>yy_c_buf_p := t + k\<rparr>"
  have sc: "wf_flex content g" "input_at content g t = input" "s \<in> live" "yy_rerun (take k input) 1 0 None = Some (s, acc)"
    using assms(1) by (simp_all add: scanning_def)
  have upd: "wf_flex content (g\<lparr>yy_c_buf_p := a, last_accepting := b\<rparr>) = wf_flex content g"
    "wf_flex content (g\<lparr>yy_c_buf_p := a\<rparr>) = wf_flex content g"
    "input_at content (g\<lparr>yy_c_buf_p := a, last_accepting := b\<rparr>) t = input_at content g t"
    "input_at content (g\<lparr>yy_c_buf_p := a\<rparr>) t = input_at content g t" for a b
    by (simp_all add: wf_flex_def input_at_def)
  obtain stored where previous: "yy_get_previous_state ?g = Some (s, ?g\<lparr>last_accepting := stored\<rparr>)" "shifted t acc stored"
    using previous_state [of content ?g t k s acc] sc assms(2,4) upd by auto
  obtain nx acc' stored' where nul: "yy_try_NUL_trans s k acc = Some (nx, acc')"
    "yy_try_NUL_trans s (t + k) stored = Some (nx, stored')" "shifted t acc' stored'"
    "remember s k acc = Some acc'" "nx \<noteq> 0 \<longrightarrow> nx \<in> live \<and> yy_step s 1 = Some nx"
    using try_NUL_shifted [OF sc(3) previous(2)] by blast
  have at: "k < length input" "input ! k = 0"
    using assms(2,3) sc(1,2) by (auto simp: input_at_def wf_flex_def nth_append add.commute)
  then have drop: "drop k input = 0 # drop (k + 1) input" "take (k + 1) input = take k input @ [0]"
    using Cons_nth_drop_Suc [OF at(1)] take_Suc_conv_app_nth [OF at(1)] by simp_all
  show ?thesis
  proof (cases "nx = 0")
    case True
    let ?g' = "?g\<lparr>last_accepting := stored'\<rparr>"
    have "yy_NUL_or_refill e fuel k g = Some (Done (Some (Find_action s (t + k)), ?g'))"
      using assms(2,4,5) previous(1) nul(2) True by (simp add: yy_NUL_or_refill_def)
    then show ?thesis
      using at(1) drop(1) nul(1,3) True sc(1,2) assms(2,4) upd
      by (intro exI [of _ "Find_action s (t + k)"] exI [of _ ?g'] exI [of _ acc']) simp
  next
    case False
    let ?g' = "g\<lparr>yy_c_buf_p := t + k + 1, last_accepting := stored'\<rparr>"
    have "yy_NUL_or_refill e fuel k g = Some (Done (Some (Match nx (t + (k + 1))), ?g'))"
      using assms(2,4,5) previous(1) nul(2) False by (simp add: yy_NUL_or_refill_def)
    moreover have "scanning content input ?g' t (k + 1) nx acc'"
      using sc nul(3-5) False assms(2) at(1) drop(2) upd by (simp add: scanning_def rerun_snoc)
    ultimately show ?thesis
      using at(1) drop(1) nul(1,3) False assms(4) by fastforce
  qed
qed

text \<open>The end of what has been read.\<close>

lemma refill_in_text:
  assumes "good_platform e content signals" "scanning content input g t k s acc" "enough content signals fuel g t"
    and "t + k = yy_n_chars g" "yytext_ptr g = t" "yy_c_buf_p g = t + k + 1" "buffer_status g \<noteq> Buffer_new"
  shows "\<exists>l g'. yy_NUL_or_refill e fuel k g = Some (Done (l, g'))
    \<and> (l = None \<and> input = []
      \<or> yytext_ptr g' = 0 \<and> signals (kernel g') \<le> signals (kernel g)
        \<and> (l = Some (Match s k) \<and> scanning content input g' 0 k s acc \<and> shifted 0 acc (last_accepting g')
            \<and> length (content (kernel g')) < length (content (kernel g))
          \<or> l = Some (Find_action s k) \<and> wf_flex content g' \<and> input_at content g' 0 = input \<and> k \<le> yy_n_chars g'
            \<and> shifted 0 acc (last_accepting g') \<and> yy_match (drop k input) s k acc = Some (s, k, acc) \<and> 0 < k
            \<and> k = length input))"
proof -
  have sc: "wf_flex content g" "input_at content g t = input" "s \<in> live" "yy_rerun (take k input) 1 0 None = Some (s, acc)"
    using assms(2) by (simp_all add: scanning_def)
  have m: "yy_n_chars g - t = k" "t \<le> yy_n_chars g" "yy_c_buf_p g = yy_n_chars g + 1" using assms(4,6) by auto
  obtain act g1 where refill: "yy_get_next_buffer e fuel g = Some (Done (act, g1))"
    "if act = End_of_file then t = yy_n_chars g \<and> content (kernel g) = []
     else wf_flex content g1 \<and> yytext_ptr g1 = 0 \<and> last_accepting g1 = last_accepting g
       \<and> input_at content g1 0 = input_at content g t \<and> signals (kernel g1) \<le> signals (kernel g)
       \<and> (if act = Last_match then t < yy_n_chars g \<and> yy_n_chars g1 = yy_n_chars g - t \<and> content (kernel g1) = []
          else yy_n_chars g - t < yy_n_chars g1 \<and> length (content (kernel g1)) < length (content (kernel g)))"
    using next_buffer_result [OF assms(1) sc(1) assms(3,5) m(2,3) assms(7)] by blast
  have start: "yy_NUL_or_refill e fuel k g = (case act of
        End_of_file \<Rightarrow> Some (Done (None, g1\<lparr>yy_c_buf_p := yytext_ptr g1\<rparr>))
      | Continue_scan \<Rightarrow> do {
          (state, g) \<leftarrow> yy_get_previous_state (g1\<lparr>yy_c_buf_p := yytext_ptr g1 + k\<rparr>);
          Some (Done (Some (Match state (yy_c_buf_p g)), g))
        }
      | Last_match \<Rightarrow> do {
          (state, g) \<leftarrow> yy_get_previous_state (g1\<lparr>yy_c_buf_p := yy_n_chars g1\<rparr>);
          Some (Done (Some (Find_action state (yy_c_buf_p g)), g))
        })"
    using m(3) refill(1) by (simp add: yy_NUL_or_refill_def split: eob_act.split)
  show ?thesis
  proof (cases "act = End_of_file")
    case True
    then have "t = yy_n_chars g" "content (kernel g) = []" using refill(2) by simp_all
    then have "input = []" using sc(2) by (simp add: input_at_def)
    then show ?thesis unfolding start using True by simp
  next
    case False
    let ?g = "g1\<lparr>yy_c_buf_p := k\<rparr>"
    have g1: "wf_flex content g1" "yytext_ptr g1 = 0" "input_at content g1 0 = input" "signals (kernel g1) \<le> signals (kernel g)"
      using refill(2) False sc(2) by simp_all
    have k: "k \<le> yy_n_chars g1" using refill(2) False m(1) by (auto split: if_splits)
    have upd: "wf_flex content (?g\<lparr>last_accepting := b\<rparr>) = wf_flex content g1"
      "wf_flex content ?g = wf_flex content g1"
      "input_at content (?g\<lparr>last_accepting := b\<rparr>) 0 = input_at content g1 0"
      "input_at content ?g 0 = input_at content g1 0" for b
      by (simp_all add: wf_flex_def input_at_def)
    obtain stored where previous: "yy_get_previous_state ?g = Some (s, ?g\<lparr>last_accepting := stored\<rparr>)"
      "shifted 0 acc stored"
      using previous_state [of content ?g 0 k s acc] g1 k sc(4) upd by auto
    show ?thesis
    proof (cases "act = Last_match")
      case True
      then have n: "yy_n_chars g1 = k" "0 < k" "content (kernel g1) = []" using refill(2) m(1) by auto
      have "length input = k"
        using g1(1,3) n by (auto simp: input_at_def wf_flex_def)
      then show ?thesis
        unfolding start using True previous n g1 upd
        by (intro exI [of _ "Some (Find_action s k)"] exI [of _ "?g\<lparr>last_accepting := stored\<rparr>"]) simp
    next
      case more: False
      then have act: "act = Continue_scan" using False by (cases act) auto
      have "scanning content input (?g\<lparr>last_accepting := stored\<rparr>) 0 k s acc"
        using g1 k sc previous(2) upd by (simp add: scanning_def)
      moreover have "length (content (kernel g1)) < length (content (kernel g))"
        using refill(2) act by simp
      ultimately show ?thesis
        unfolding start using act previous g1
        by (intro exI [of _ "Some (Match s k)"] exI [of _ "?g\<lparr>last_accepting := stored\<rparr>"]) simp
    qed
  qed
qed

section \<open>A token\<close>

text \<open>
  After a token the text is in the buffer, ended by a byte 0 in the place of the byte that is held
  back, and the rest of the input follows it.
\<close>

definition between :: "('s \<Rightarrow> u8 list) \<Rightarrow> u8 list \<Rightarrow> 's yyguts \<Rightarrow> bool" where
  "between content rest g \<longleftrightarrow> yy_c_buf_p g \<le> yy_n_chars g
     \<and> wf_flex content (g\<lparr>yy_ch_buf := (yy_ch_buf g)[yy_c_buf_p g := yy_hold_char g]\<rparr>)
     \<and> input_at content (g\<lparr>yy_ch_buf := (yy_ch_buf g)[yy_c_buf_p g := yy_hold_char g]\<rparr>) (yy_c_buf_p g) = rest"

lemma found_action:
  assumes "wf_flex content g" "input_at content g t = input" "t + n \<le> yy_n_chars g"
    and "yy_find_action (s, k, acc) = Some (act, n)" "shifted t acc (last_accepting g)" "1 \<le> act" "act \<le> 5"
  shows "\<exists>g'. yy_scan e reads (Suc fuel) g t (Find_action s (t + k)) = Some (Done (Rule act, g'))
    \<and> between content (drop n input) g' \<and> yytext g' = take n input \<and> yytext_ptr g' + yyleng g' = yy_c_buf_p g'
    \<and> kernel g' = kernel g"
proof -
  let ?buf = "yy_ch_buf g"
  have cell: "t + n < length ?buf" using assms(1,3) by (simp add: wf_flex_def)
  let ?g' = "g\<lparr>yytext_ptr := t, yyleng := n, yy_hold_char := ?buf ! (t + n), yy_ch_buf := ?buf[t + n := 0],
    yy_c_buf_p := t + n\<rparr>"
  have "yy_do_before_action g t (t + n) = Some ?g'"
    using cell by (simp add: yy_do_before_action_def)
  then have "yy_scan e reads (Suc fuel) g t (Find_action s (t + k)) = Some (Done (Rule act, ?g'))"
    using find_action_shifted [OF assms(4,5)] assms(6,7) by simp
  moreover have "between content (drop n input) ?g'"
  proof -
    have "drop n input = drop (t + n) (take (yy_n_chars g) ?buf) @ content (kernel g)"
      using assms(1-3) by (auto simp: input_at_def wf_flex_def add.commute)
    then show ?thesis using assms(1,3) by (simp add: between_def wf_flex_def input_at_def)
  qed
  moreover have "yytext ?g' = take n input"
    using take_input_at [OF assms(1,3)] assms(2) cell by (simp add: yytext_def drop_take drop_update_swap)
  ultimately show ?thesis by (intro exI [of _ ?g']) simp
qed

text \<open>The accepting position lies in the text that has been read.\<close>

lemma rerun_position:
  "yy_rerun bs s k acc = Some (s', acc') \<Longrightarrow> (\<forall>q j. acc = Some (q, j) \<longrightarrow> j \<le> k)
    \<Longrightarrow> (\<forall>q j. acc' = Some (q, j) \<longrightarrow> j \<le> k + length bs)"
proof (induction bs arbitrary: s k acc)
  case (Cons b bs)
  then obtain s1 acc1 where one: "remember s k acc = Some acc1" "yy_rerun bs s1 (k + 1) acc1 = Some (s', acc')"
    by (auto simp only: yy_rerun.simps Option.bind_eq_Some_conv)
  have "\<forall>q j. acc1 = Some (q, j) \<longrightarrow> j \<le> k + 1"
    using one(1) Cons.prems(2) by (auto simp: remember_def Option.bind_eq_Some_conv split: if_splits)
  from Cons.IH [OF one(2) this] show ?case by simp
qed simp

lemma match_position:
  "yy_match bs s k acc = Some (s', k', acc') \<Longrightarrow> (\<forall>q j. acc = Some (q, j) \<longrightarrow> j \<le> k)
    \<Longrightarrow> (\<forall>q j. acc' = Some (q, j) \<longrightarrow> j \<le> k')"
proof (induction bs arbitrary: s k acc)
  case (Cons b bs)
  have remembered: "\<forall>q j. acc1 = Some (q, j) \<longrightarrow> j \<le> k" if "remember s k acc = Some acc1" for acc1
    using that Cons.prems(2) by (auto simp: remember_def Option.bind_eq_Some_conv split: if_splits)
  consider (more) s1 acc1 where "remember s k acc = Some acc1" "yy_match bs s1 (k + 1) acc1 = Some (s', k', acc')"
    | (stop) "remember s k acc = Some acc'" "k \<le> k'"
    using Cons.prems(1)
    by (auto simp: yy_try_NUL_trans_def Option.bind_eq_Some_conv simp del: yy_transition.simps split: if_splits)
  then show ?case
  proof cases
    case more
    have "\<forall>q j. acc1 = Some (q, j) \<longrightarrow> j \<le> k + 1"
      using remembered [OF more(1)] le_SucI by auto
    from Cons.IH [OF more(2) this] show ?thesis .
  next
    case stop
    then show ?thesis using remembered [OF stop(1)] le_trans by blast
  qed
qed auto

lemma find_position:
  "yy_find_action (s, k, acc) = Some (act, n) \<Longrightarrow> (\<forall>q j. acc = Some (q, j) \<longrightarrow> j \<le> k) \<Longrightarrow> n \<le> k"
  by (auto simp: yy_find_action_def Option.bind_eq_Some_conv split: if_splits)

text \<open>The loop has read the byte 0 at \<open>k\<close> and the one after it.\<close>

definition after_zero :: "'s platform \<Rightarrow> nat \<Rightarrow> nat \<Rightarrow> (label option \<times> 's yyguts) lexed option
    \<Rightarrow> (token \<times> 's yyguts) lexed option" where
  "after_zero e reads fuel result = do {
     result \<leftarrow> result;
     case result of Fatal \<Rightarrow> Some Fatal
     | Done (None, g) \<Rightarrow> Some (Done (Eof, g))
     | Done (Some l, g) \<Rightarrow> yy_scan e reads fuel g (yytext_ptr g) l
   }"

definition at_zero :: "'s yyguts \<Rightarrow> nat \<Rightarrow> nat \<Rightarrow> 's yyguts" where
  "at_zero g t k = at_end (g\<lparr>last_accepting := Some (3, t + k + 1)\<rparr>) t k"

lemma at_zero_fields:
  assumes "wf_flex content g"
  shows "wf_flex content (at_zero g t k)" "yytext_ptr (at_zero g t k) = t" "yy_c_buf_p (at_zero g t k) = t + k + 1"
    "yy_n_chars (at_zero g t k) = yy_n_chars g" "kernel (at_zero g t k) = kernel g"
    "input_at content (at_zero g t k) = input_at content g" "yy_ch_buf (at_zero g t k) = yy_ch_buf g"
    "buffer_status (at_zero g t k) \<noteq> Buffer_new"
  using assms by (auto simp: at_zero_def at_end_def wf_flex_def input_at_def fun_eq_iff)

lemma scan_zero:
  assumes "wf_flex content g" "t + k \<le> yy_n_chars g"
    and "yy_match_loop (yy_ch_buf g) s cp (last_accepting g) = Some (13, t + k + 2, Some (3, t + k + 1))"
  shows "yy_scan e reads (Suc (Suc fuel)) g t (Match s cp)
    = after_zero e reads fuel (yy_NUL_or_refill e reads k (at_zero g t k))"
proof -
  define ga where "ga = g\<lparr>last_accepting := Some (3, t + k + 1)\<rparr>"
  have ga: "wf_flex content ga" "t + k \<le> yy_n_chars ga" "last_accepting ga = Some (3, t + k + 1)"
    using assms(1,2) by (simp_all add: wf_flex_def ga_def)
  have "t + k + 1 < length (yy_ch_buf ga)" using ga(1,2) by (simp add: wf_flex_def)
  then obtain g' where g': "yy_do_before_action ga t (t + k + 1) = Some g'"
    by (simp add: yy_do_before_action_def)
  have "yy_find_action (13, t + k + 2, last_accepting ga) = Some (6, t + k + 1)"
    using ga(3) by (simp add: yy_find_action_def end_state)
  then have "yy_scan e reads (Suc fuel) ga t (Find_action 13 (t + k + 2))
      = after_zero e reads fuel (yy_end_of_buffer e reads g' (t + k + 1))"
    using g' by (simp add: after_zero_def)
  moreover have "yy_scan e reads (Suc (Suc fuel)) g t (Match s cp)
      = yy_scan e reads (Suc fuel) ga t (Find_action 13 (t + k + 2))"
    using assms(3) by (simp add: ga_def)
  ultimately show ?thesis
    using end_of_buffer_restored [OF ga(1,2) g'] by (simp add: at_zero_def ga_def)
qed

lemma scan_token:
  assumes "good_platform e content signals" "1 \<le> act" "act \<le> 5"
  shows "scanning content input g t k s acc \<Longrightarrow> shifted t acc (last_accepting g) \<Longrightarrow> enough content signals reads g t \<Longrightarrow>
    input \<noteq> [] \<Longrightarrow> yy_match (drop k input) s k acc \<bind> yy_find_action = Some (act, n) \<Longrightarrow>
    2 * (length input - k) + 2 * length (content (kernel g)) + 4 < fuel \<Longrightarrow>
    \<exists>g'. yy_scan e reads fuel g t (Match s (t + k)) = Some (Done (Rule act, g'))
      \<and> between content (drop n input) g' \<and> yytext g' = take n input \<and> yytext_ptr g' + yyleng g' = yy_c_buf_p g'
      \<and> signals (kernel g') \<le> signals (kernel g)"
proof (induction fuel arbitrary: g t k s acc rule: less_induct)
  case (less fuel)
  note sc = less.prems(1) [unfolded scanning_def]
  obtain fuel' where fuel: "fuel = Suc (Suc (Suc fuel'))"
    using less.prems(6) le_Suc_ex [of 3 fuel] by (auto simp: numeral_3_eq_3)
  let ?buf = "yy_ch_buf g"
  have "yy_n_chars g + 1 < length ?buf" "?buf ! yy_n_chars g = 0" "input = drop t (take (yy_n_chars g) ?buf) @ content (kernel g)"
    using sc by (auto simp: wf_flex_def input_at_def)
  from match_loop_follows [OF this, of k s acc "last_accepting g"] sc less.prems(2) obtain s' k' acc' where
    k': "k \<le> k'" "t + k' \<le> yy_n_chars g" and cases:
    "(\<exists>stored'. yy_match_loop ?buf s (t + k) (last_accepting g) = Some (s', t + k', stored') \<and> shifted t acc' stored'
          \<and> yy_match (drop k input) s k acc = Some (s', k', acc'))
       \<or> (yy_match_loop ?buf s (t + k) (last_accepting g) = Some (13, t + k' + 2, Some (3, t + k' + 1))
          \<and> ?buf ! (t + k') = 0 \<and> s' \<in> live \<and> yy_rerun (take k' input) 1 0 None = Some (s', acc')
          \<and> yy_match (drop k input) s k acc = yy_match (drop k' input) s' k' acc')"
    by blast
  from cases show ?case
  proof
    assume "\<exists>stored'. yy_match_loop ?buf s (t + k) (last_accepting g) = Some (s', t + k', stored') \<and> shifted t acc' stored'
          \<and> yy_match (drop k input) s k acc = Some (s', k', acc')"
    then obtain stored' where loop: "yy_match_loop ?buf s (t + k) (last_accepting g) = Some (s', t + k', stored')"
      "shifted t acc' stored'" "yy_match (drop k input) s k acc = Some (s', k', acc')" by blast
    have find: "yy_find_action (s', k', acc') = Some (act, n)" using less.prems(5) loop(3) by simp
    have "\<forall>q j. acc = Some (q, j) \<longrightarrow> j \<le> k"
      using rerun_position [of "take k input" 1 0 None s acc] sc by fastforce
    then have "n \<le> k'" using find_position [OF find match_position [OF loop(3)]] by blast
    then have "t + n \<le> yy_n_chars (g\<lparr>last_accepting := stored'\<rparr>)" using k'(2) by simp
    moreover have "wf_flex content (g\<lparr>last_accepting := stored'\<rparr>)" "input_at content (g\<lparr>last_accepting := stored'\<rparr>) t = input"
      using sc by (simp_all add: wf_flex_def input_at_def)
    ultimately show ?thesis
      using found_action [of content "g\<lparr>last_accepting := stored'\<rparr>" t input n s' k' acc' act e reads "Suc fuel'"]
        find loop(1,2) assms(2,3) by (auto simp: fuel)
  next
    assume "yy_match_loop ?buf s (t + k) (last_accepting g) = Some (13, t + k' + 2, Some (3, t + k' + 1))
          \<and> ?buf ! (t + k') = 0 \<and> s' \<in> live \<and> yy_rerun (take k' input) 1 0 None = Some (s', acc')
          \<and> yy_match (drop k input) s k acc = yy_match (drop k' input) s' k' acc'"
    then have loop: "yy_match_loop ?buf s (t + k) (last_accepting g) = Some (13, t + k' + 2, Some (3, t + k' + 1))"
      "?buf ! (t + k') = 0" "s' \<in> live" "yy_rerun (take k' input) 1 0 None = Some (s', acc')"
      "yy_match (drop k' input) s' k' acc' \<bind> yy_find_action = Some (act, n)"
      using less.prems(5) by simp_all
    define gz where "gz = at_zero g t k'"
    note z = at_zero_fields [of content g t k', folded gz_def, OF conjunct1 [OF sc]]
    have scan: "yy_scan e reads fuel g t (Match s (t + k)) = after_zero e reads (Suc fuel') (yy_NUL_or_refill e reads k' gz)"
      using scan_zero [OF conjunct1 [OF sc] k'(2) loop(1)] by (simp add: fuel gz_def)
    have scz: "scanning content input gz t k' s' acc'"
      using sc loop k'(2) z by (simp add: scanning_def)
    have carried: "enough content signals reads g' t'"
      if "input_at content g' t' = input" "signals (kernel g') \<le> signals (kernel g)" for g' t'
      using less.prems(3) that sc by (auto simp: enough_def)
    have found: ?thesis
      if "yy_NUL_or_refill e reads k' gz = Some (Done (Some (Find_action s' (t' + k')), g'))" "yytext_ptr g' = t'"
        "wf_flex content g'" "input_at content g' t' = input" "t' + k' \<le> yy_n_chars g'" "shifted t' acc'' (last_accepting g')"
        "yy_match (drop k' input) s' k' acc' = Some (s', k', acc'')" "signals (kernel g') \<le> signals (kernel g)" for g' t' acc''
    proof -
      have find: "yy_find_action (s', k', acc'') = Some (act, n)" using loop(5) that(7) by simp
      have "\<forall>q j. acc' = Some (q, j) \<longrightarrow> j \<le> k'"
        using rerun_position [OF loop(4)] by fastforce
      then have "n \<le> k'" using find_position [OF find match_position [OF that(7)]] by blast
      then have "t' + n \<le> yy_n_chars g'" using that(5) by simp
      then show ?thesis
        using found_action [OF that(3,4) _ find that(6) assms(2,3), of e reads fuel'] that(1,2,8) scan
        by (auto simp: after_zero_def)
    qed
    show ?thesis
    proof (cases "t + k' < yy_n_chars g")
      case True
      obtain l g' acc'' where nul: "yy_NUL_or_refill e reads k' gz = Some (Done (Some l, g'))" "yytext_ptr g' = t"
        "kernel g' = kernel gz" "k' < length input"
        "(\<exists>nx. l = Match nx (t + (k' + 1)) \<and> scanning content input g' t (k' + 1) nx acc''
          \<and> shifted t acc'' (last_accepting g')
          \<and> yy_match (drop k' input) s' k' acc' = yy_match (drop (k' + 1) input) nx (k' + 1) acc'')
        \<or> l = Find_action s' (t + k') \<and> wf_flex content g' \<and> input_at content g' t = input \<and> t + k' \<le> yy_n_chars g'
          \<and> shifted t acc'' (last_accepting g') \<and> yy_match (drop k' input) s' k' acc' = Some (s', k', acc'')"
        using NUL_in_text [OF scz, of e reads] True z loop(2) by auto
      from nul(5) show ?thesis
      proof
        assume "\<exists>nx. l = Match nx (t + (k' + 1)) \<and> scanning content input g' t (k' + 1) nx acc''
          \<and> shifted t acc'' (last_accepting g')
          \<and> yy_match (drop k' input) s' k' acc' = yy_match (drop (k' + 1) input) nx (k' + 1) acc''"
        then obtain nx where nx: "l = Match nx (t + (k' + 1))" "scanning content input g' t (k' + 1) nx acc''"
          "shifted t acc'' (last_accepting g')"
          "yy_match (drop (k' + 1) input) nx (k' + 1) acc'' \<bind> yy_find_action = Some (act, n)"
          using loop(5) by auto
        have "2 * (length input - (k' + 1)) + 2 * length (content (kernel g')) + 4 < Suc fuel'"
          using less.prems(6) nul(3,4) z k'(1) by (simp add: fuel)
        moreover have "enough content signals reads g' t"
          using carried nul(3) z nx(2) by (simp add: scanning_def)
        ultimately obtain g2 where "yy_scan e reads (Suc fuel') g' t (Match nx (t + (k' + 1))) = Some (Done (Rule act, g2))"
          "between content (drop n input) g2 \<and> yytext g2 = take n input \<and> yytext_ptr g2 + yyleng g2 = yy_c_buf_p g2
            \<and> signals (kernel g2) \<le> signals (kernel g')"
          using less.IH [of "Suc fuel'" g' t "k' + 1" nx acc''] nx less.prems(4) by (auto simp: fuel)
        then show ?thesis using scan nul(1-3) nx(1) z by (auto simp: after_zero_def)
      next
        assume "l = Find_action s' (t + k') \<and> wf_flex content g' \<and> input_at content g' t = input \<and> t + k' \<le> yy_n_chars g'
          \<and> shifted t acc'' (last_accepting g') \<and> yy_match (drop k' input) s' k' acc' = Some (s', k', acc'')"
        then show ?thesis using found [of t g' acc''] nul(1-3) z by simp
      qed
    next
      case False
      then have n: "t + k' = yy_n_chars gz" using k'(2) z by simp
      have "enough content signals reads gz t" using less.prems(3) z by (simp add: enough_def)
      from refill_in_text [OF assms(1) scz this n z(2,3,8)] less.prems(4) obtain l g' where
        refill: "yy_NUL_or_refill e reads k' gz = Some (Done (l, g'))" "yytext_ptr g' = 0"
        "signals (kernel g') \<le> signals (kernel g)"
        "l = Some (Match s' k') \<and> scanning content input g' 0 k' s' acc' \<and> shifted 0 acc' (last_accepting g')
            \<and> length (content (kernel g')) < length (content (kernel g))
          \<or> l = Some (Find_action s' k') \<and> wf_flex content g' \<and> input_at content g' 0 = input \<and> k' \<le> yy_n_chars g'
            \<and> shifted 0 acc' (last_accepting g') \<and> yy_match (drop k' input) s' k' acc' = Some (s', k', acc')"
        unfolding z(5) by blast
      from refill(4) show ?thesis
      proof
        assume more: "l = Some (Match s' k') \<and> scanning content input g' 0 k' s' acc' \<and> shifted 0 acc' (last_accepting g')
            \<and> length (content (kernel g')) < length (content (kernel g))"
        then have "2 * (length input - k') + 2 * length (content (kernel g')) + 4 < Suc fuel'"
          using less.prems(6) diff_le_mono2 [OF k'(1), of "length input"] unfolding fuel by linarith
        moreover have "enough content signals reads g' 0"
          using carried refill(3) more by (simp add: scanning_def)
        ultimately obtain g2 where "yy_scan e reads (Suc fuel') g' 0 (Match s' (0 + k')) = Some (Done (Rule act, g2))"
          "between content (drop n input) g2 \<and> yytext g2 = take n input \<and> yytext_ptr g2 + yyleng g2 = yy_c_buf_p g2
            \<and> signals (kernel g2) \<le> signals (kernel g')"
          using less.IH [of "Suc fuel'" g' 0 k' s' acc'] more loop(5) less.prems(4) by (auto simp: fuel)
        then show ?thesis using scan refill(1-3) more by (auto simp: after_zero_def)
      next
        assume "l = Some (Find_action s' k') \<and> wf_flex content g' \<and> input_at content g' 0 = input \<and> k' \<le> yy_n_chars g'
            \<and> shifted 0 acc' (last_accepting g') \<and> yy_match (drop k' input) s' k' acc' = Some (s', k', acc')"
        then show ?thesis using found [of 0 g' acc'] refill(1-3) by simp
      qed
    qed
  qed
qed

text \<open>The end of the file.\<close>

lemma scan_end:
  assumes "good_platform e content signals" "wf_flex content g" "input_at content g t = []" "t \<le> yy_n_chars g"
    and "enough content signals reads g t"
  shows "\<exists>g'. yy_scan e reads (Suc (Suc fuel)) g t (Match 1 t) = Some (Done (Eof, g'))"
proof -
  have t: "t = yy_n_chars g" "content (kernel g) = []"
    using assms(2-4) by (auto simp: input_at_def wf_flex_def)
  have live: "1 \<in> live" by (simp add: live_def)
  have zero: "yy_ch_buf g ! t = 0" "t + 1 < length (yy_ch_buf g)" using assms(2) t by (auto simp: wf_flex_def)
  define gz where "gz = at_zero g t 0"
  note z = at_zero_fields [OF assms(2), of t 0, folded gz_def]
  have scan: "yy_scan e reads (Suc (Suc fuel)) g t (Match 1 t) = after_zero e reads fuel (yy_NUL_or_refill e reads 0 gz)"
    using scan_zero [OF assms(2), of t 0 1 t e reads fuel] match_loop_zero [OF live zero] assms(4) by (simp add: gz_def)
  have "scanning content [] gz t 0 1 None" "enough content signals reads gz t" "t + 0 = yy_n_chars gz"
    using assms(3,5) z t live by (simp_all add: scanning_def enough_def)
  from refill_in_text [OF assms(1) this z(2,3,8)] t(2) z(5) obtain g' where
    "yy_NUL_or_refill e reads 0 gz = Some (Done (None, g'))" by auto
  then show ?thesis unfolding scan by (simp add: after_zero_def)
qed

text \<open>One turn of the loop of \<open>yylex\<close>: the byte that was held back is put back, and a token follows.\<close>

lemma between_restored:
  assumes "between content input g"
  shows "\<exists>g0. aset (yy_ch_buf g) (yy_c_buf_p g) (yy_hold_char g) = Some (yy_ch_buf g0)
    \<and> g0 = g\<lparr>yy_ch_buf := (yy_ch_buf g)[yy_c_buf_p g := yy_hold_char g]\<rparr>
    \<and> scanning content input g0 (yy_c_buf_p g) 0 1 None \<and> length (content (kernel g)) \<le> length input"
proof -
  have "yy_c_buf_p g < length (yy_ch_buf g)" using assms by (auto simp: between_def wf_flex_def)
  then show ?thesis using assms by (auto simp: between_def scanning_def live_def input_at_def)
qed

lemma next_token_end:
  assumes "good_platform e content signals" "between content [] g" "2 < reads" "signals (kernel g) < reads"
  shows "\<exists>g'. yy_next_token e reads (Suc (Suc fuel)) g = Some (Done (Eof, g'))"
proof -
  obtain g0 where g0: "aset (yy_ch_buf g) (yy_c_buf_p g) (yy_hold_char g) = Some (yy_ch_buf g0)"
    "g0 = g\<lparr>yy_ch_buf := (yy_ch_buf g)[yy_c_buf_p g := yy_hold_char g]\<rparr>"
    "scanning content [] g0 (yy_c_buf_p g) 0 1 None"
    using between_restored [OF assms(2)] by blast
  have "yy_next_token e reads (Suc (Suc fuel)) g = yy_scan e reads (Suc (Suc fuel)) g0 (yy_c_buf_p g) (Match 1 (yy_c_buf_p g))"
    using g0(1,2) by (simp add: yy_next_token_def Let_def del: yy_scan.simps)
  moreover have "wf_flex content g0" "input_at content g0 (yy_c_buf_p g) = []" "yy_c_buf_p g \<le> yy_n_chars g0"
    "enough content signals reads g0 (yy_c_buf_p g)"
    using g0(2,3) assms(3,4) by (auto simp: scanning_def enough_def)
  ultimately show ?thesis using scan_end [OF assms(1)] by simp
qed

lemma next_token_rule:
  assumes "good_platform e content signals" "between content input g" "input \<noteq> []" "token_spec input = (act, n)"
    and "length input \<le> 2 ^ 29" "length input + 2 < reads" "signals (kernel g) < reads" "4 * length input + 4 < gotos"
  shows "\<exists>g'. yy_next_token e reads gotos g = Some (Done (Rule act, g')) \<and> between content (drop n input) g'
    \<and> yytext g' = take n input \<and> yytext_ptr g' + yyleng g' = yy_c_buf_p g' \<and> signals (kernel g') \<le> signals (kernel g)"
proof -
  obtain g0 where g0: "aset (yy_ch_buf g) (yy_c_buf_p g) (yy_hold_char g) = Some (yy_ch_buf g0)"
    "g0 = g\<lparr>yy_ch_buf := (yy_ch_buf g)[yy_c_buf_p g := yy_hold_char g]\<rparr>"
    "scanning content input g0 (yy_c_buf_p g) 0 1 None" "length (content (kernel g)) \<le> length input"
    using between_restored [OF assms(2)] by blast
  have "yy_next_token e reads gotos g = yy_scan e reads gotos g0 (yy_c_buf_p g) (Match 1 (yy_c_buf_p g + 0))"
    using g0(1,2) by (simp add: yy_next_token_def Let_def del: yy_scan.simps)
  moreover have "enough content signals reads g0 (yy_c_buf_p g)"
    using g0(2,3) assms(5-7) by (auto simp: scanning_def enough_def)
  moreover have "1 \<le> act" "act \<le> 5" using assms(4) by (auto simp: token_spec_def split: option.splits if_splits)
  moreover have "yy_match (drop 0 input) 1 0 None \<bind> yy_find_action = Some (act, n)"
    using yy_token_eq [OF assms(3)] assms(4) by (simp add: yy_token_def)
  moreover have "2 * (length input - 0) + 2 * length (content (kernel g0)) + 4 < gotos"
    using g0(2,4) assms(8) by simp
  moreover have "kernel g0 = kernel g" using g0(2) by simp
  ultimately show ?thesis using scan_token [OF assms(1) _ _ g0(3)] assms(3) by simp
qed

text \<open>A command may overwrite the text of its token, but nothing of what follows it.\<close>

lemma between_overwritten:
  assumes "between content input g" "length buf = length (yy_ch_buf g)"
    and "drop (yy_c_buf_p g) buf = drop (yy_c_buf_p g) (yy_ch_buf g)"
  shows "between content input (g\<lparr>yy_ch_buf := buf\<rparr>)"
proof -
  let ?p = "yy_c_buf_p g"
  have p: "?p \<le> yy_n_chars g" "yy_n_chars g + 1 < length (yy_ch_buf g)" using assms(1) by (auto simp: between_def wf_flex_def)
  have cell: "buf ! i = yy_ch_buf g ! i" if "?p \<le> i" "i < length (yy_ch_buf g)" for i
  proof -
    have "drop ?p buf ! (i - ?p) = drop ?p (yy_ch_buf g) ! (i - ?p)" using assms(3) by simp
    then show ?thesis using that assms(2) by simp
  qed
  have "drop ?p (take n (buf[?p := c])) = drop ?p (take n ((yy_ch_buf g)[?p := c]))" for n c
  proof -
    have "drop ?p (buf[?p := c]) = (drop ?p buf)[0 := c]" for buf by (simp add: drop_update_swap)
    then show ?thesis using assms(3) by (simp add: drop_take)
  qed
  moreover have "buf ! (yy_n_chars g) = yy_ch_buf g ! (yy_n_chars g)" "buf ! Suc (yy_n_chars g) = yy_ch_buf g ! Suc (yy_n_chars g)"
    using cell p by simp_all
  ultimately show ?thesis
    using assms(1,2) p by (simp add: between_def wf_flex_def input_at_def nth_list_update split: if_splits)
qed

lemma overwrite_text_between:
  assumes "good_platform e content signals" "between content input g" "yytext_ptr g + yyleng g = yy_c_buf_p g"
  shows "between content input (overwrite_text e g)" "kernel (overwrite_text e g) = kernel g"
proof -
  let ?buf = "yy_ch_buf g" and ?left = "take (yytext_ptr g) (yy_ch_buf g)" and ?text = "take (yyleng g) (overwritten e (yytext g))"
  have p: "yy_c_buf_p g \<le> length ?buf" using assms(2) by (auto simp: between_def wf_flex_def)
  have len: "length (overwritten e (yytext g)) = yyleng g"
    using assms(1,3) p by (simp add: yytext_def good_platform_def)
  then have "length (?left @ ?text) = yy_c_buf_p g" using p assms(3) by simp
  then have "drop (yy_c_buf_p g) ((?left @ ?text) @ drop (yy_c_buf_p g) ?buf) = drop (yy_c_buf_p g) ?buf"
    "length ((?left @ ?text) @ drop (yy_c_buf_p g) ?buf) = length ?buf"
    using p by (simp_all only: append_eq_conv_conj length_append length_drop drop_append) simp_all
  then show "between content input (overwrite_text e g)"
    using between_overwritten [OF assms(2)] assms(3) by (simp add: overwrite_text_def)
  show "kernel (overwrite_text e g) = kernel g" by (simp add: overwrite_text_def)
qed

section \<open>The session\<close>

text \<open>The input that is left after a token.\<close>

definition unscanned :: "('s \<Rightarrow> u8 list) \<Rightarrow> 's yyguts \<Rightarrow> u8 list" where
  "unscanned content g = input_at content (g\<lparr>yy_ch_buf := (yy_ch_buf g)[yy_c_buf_p g := yy_hold_char g]\<rparr>) (yy_c_buf_p g)"

lemma unscanned_between: "between content input g \<Longrightarrow> unscanned content g = input"
  by (simp add: between_def unscanned_def)

lemma buffered_yylex_refines:
  assumes "good_platform e content signals"
  shows "between content input g \<Longrightarrow> length input \<le> 2 ^ 29 \<Longrightarrow> length input + 2 < reads \<Longrightarrow> signals (kernel g) < reads \<Longrightarrow>
    4 * length input + 4 < gotos \<Longrightarrow> length input < tokens \<Longrightarrow>
    buffered_yylex e reads gotos tokens h (\<lambda>g. junk (unscanned content g)) fuel d g
      = map_option Done (yylex h junk fuel d input)"
proof (induction tokens arbitrary: input g d)
  case 0
  then show ?case by simp
next
  case (Suc tokens)
  show ?case
  proof (cases "input = []")
    case True
    obtain gotos' where "gotos = Suc (Suc gotos')"
      using Suc.prems(5) le_Suc_ex [of 2 gotos] by (auto simp: numeral_2_eq_2)
    then obtain g' where "yy_next_token e reads gotos g = Some (Done (Eof, g'))"
      using next_token_end [OF assms, of g reads gotos'] Suc.prems True by auto
    then show ?thesis using True by (auto simp: yylex_end split: bind_splits)
  next
    case False
    obtain act n where t: "token_spec input = (act, n)" by (cases "token_spec input")
    note n = token_spec_length [OF False t]
    obtain g' where g': "yy_next_token e reads gotos g = Some (Done (Rule act, g'))" "between content (drop n input) g'"
      "yytext g' = take n input" "yytext_ptr g' + yyleng g' = yy_c_buf_p g'" "signals (kernel g') \<le> signals (kernel g)"
      using next_token_rule [OF assms Suc.prems(1) False t Suc.prems(2-5)] by blast
    note after = overwrite_text_between [OF assms g'(2,4)]
    have "length (drop n input) \<le> length input" "length (drop n input) < tokens" using n Suc.prems(6) by auto
    then have IH: "buffered_yylex e reads gotos tokens h (\<lambda>g. junk (unscanned content g)) fuel d1 (overwrite_text e g')
        = map_option Done (yylex h junk fuel d1 (drop n input))" for d1
      using Suc.prems(2-5) g'(5) after by (intro Suc.IH) auto
    have "unscanned content g' = drop n input" using unscanned_between [OF g'(2)] .
    then show ?thesis
      unfolding yylex_step [OF False t] using g'(1,3) IH
      by (simp split: option.split session.split)
  qed
qed

text \<open>The scanner that has been started.\<close>

lemma yylex_start_result:
  assumes "good_platform e content signals"
  shows "\<exists>g g'. yylex_init_extra True s = Some g \<and> yylex_start e g = Some (Done g') \<and> kernel g' = s
    \<and> between content (content s) g'"
proof -
  have "\<forall>n. allocates e n" using assms by (simp add: good_platform_def)
  then show ?thesis
    by (simp add: yylex_init_extra_def yylex_start_def yy_create_buffer_def yyalloc_def yy_init_buffer_def
        yy_flush_buffer_def yy_load_buffer_state_def between_def wf_flex_def input_at_def del: upt_Suc)
qed

lemma buffered_gdb_scanner_refines:
  assumes "good_platform e content signals" "length (content s) \<le> 2 ^ 29"
    and "4 * length (content s) + 4 < steps" "signals s < steps"
  shows "buffered_gdb_scanner e steps created opened True writes packet_junk err_junk h
      (\<lambda>y. junk (unscanned content y)) fuel p s
    = map_option Done (gdb_scanner created opened writes packet_junk err_junk h junk fuel p (content s))"
proof -
  obtain y y' where y: "yylex_init_extra True s = Some y" "yylex_start e y = Some (Done y')" "kernel y' = s"
    "between content (content s) y'"
    using yylex_start_result [OF assms(1)] by blast
  have "buffered_yylex e steps steps steps h (\<lambda>y. junk (unscanned content y)) fuel d y'
      = map_option Done (yylex h junk fuel d (content s))" for d
    using buffered_yylex_refines [OF assms(1) y(4)] assms(2-4) y(3) by simp
  then show ?thesis
    using y(1,2) by (auto simp: buffered_gdb_scanner_def gdb_scanner_def Let_def split: option.split bind_splits)
qed

end
