(* ===== verification/FlexProperties.thy ===== *)
theory FlexProperties
  imports FlexScan ScannerProperties HostProperties
begin

text \<open>
  The properties of the scanner as it reads: it does what the scanner over the whole input does, and
  it is undefined only where the handling of a packet is.
\<close>

text \<open>C28: Whatever the sizes of the blocks in which the bytes of the client arrive, the signals that
  interrupt the calls, the content of new memory, and what the commands write over the text of
  their packet, the scanner with its buffer, which it refills, moves and enlarges, does what the scanner over the
  whole input does, and comes to its end; the input has at most half a gigabyte.\<close>

theorem buffered_scanner_refines:
  assumes "good_platform e content signals" "length (content s) \<le> 2 ^ 29"
    and "4 * length (content s) + 4 < steps" "signals s < steps"
  shows "buffered_gdb_scanner e steps created opened True writes packet_junk err_junk h
      (\<lambda>y. junk (unscanned content y)) fuel p s
    = map_option Done (gdb_scanner created opened writes packet_junk err_junk h junk fuel p (content s))"
  using assms by (rule buffered_gdb_scanner_refines)

definition slow_platform :: "(u8 list \<times> bool) platform" where
  "slow_platform = \<lparr>sys_read = slow_read, allocates = (\<lambda>_. True), indeterminate = of_nat, overwritten = map (\<lambda>_. 0)\<rparr>"

lemma slow_platform_good: "good_platform slow_platform fst slow_signals"
  using slow_read_stream by (simp add: good_platform_def slow_platform_def)

lemma demo_scanner:
  "\<exists>d. gdb_scanner True True 9 (replicate 1024 0) (replicate 1024 0) demo_host (\<lambda>_ _. 0) 0 (arm demo_gdb) [0x41, 0x2b]
      = Some (Going d) \<and> sent (gdb d) = [ascii ''-'']"
proof -
  have "token_spec [0x41, 0x2b] = (4, 1)" "token_spec [0x2b] = (1, 1)"
    by (simp_all add: token_spec_def packet_length_def)
  from yylex_step [OF _ this(1)] yylex_step [OF _ this(2)] show ?thesis
    by (simp add: gdb_scanner_def gdb_init_data_def yylex_end yy_action_def add_character_to_error_def handle_error_def
        gdb_require_retransmission_def rio_writen_def ascii_def)
qed


theorem buffered_scanner_refines_witness:
  "\<exists>d. buffered_gdb_scanner slow_platform 20 True True True 9 (replicate 1024 0) (replicate 1024 0) demo_host
      (\<lambda>_ _. 0) 0 (arm demo_gdb) ([0x41, 0x2b], False) = Some (Done (Going d))
    \<and> sent (gdb d) = [ascii ''-'']"
  using buffered_scanner_refines [OF slow_platform_good, where s = "([0x41, 0x2b], False)" and steps = 20
      and created = True and opened = True and writes = 9 and packet_junk = "replicate 1024 0" and err_junk = "replicate 1024 0"
      and h = demo_host and junk = "\<lambda>_ _. 0" and fuel = 0 and p = "arm demo_gdb"] demo_scanner
  by (auto simp: slow_signals_def)




end
