(* ===== verification/Buffers.thy ===== *)
theory Buffers
  imports Flex
begin

text \<open>
  The buffers of the scanner of \<open>scanner.c\<close> as objects of the heap: the stack of buffers, which is an
  array that grows, the functions that create, switch, push, pop, flush and delete buffers, those that
  scan a string, the accessors, the creation of the scanner and its destruction.  The theory \<open>Flex\<close> has the
  content of the one buffer that this program uses; here the question is what is allocated, and
  that no access is outside a block that is.

  A pointer is the number of a block, 0 for the null pointer, and a pointer into a block has an offset as
  well.  A new block has a number that no block had before.  \<open>None\<close> is undefined behaviour: an access through
  the null pointer, outside a block, or to a block that was freed.
\<close>

section \<open>The heap and the scanner\<close>

record yy_buffer_state =
  bs_input_file :: nat
  bs_ch_buf :: nat
  bs_buf_pos :: "nat \<times> nat"
  bs_buf_size :: int
  bs_n_chars :: int
  bs_is_our_buffer :: bool
  bs_is_interactive :: bool
  bs_at_bol :: bool
  bs_lineno :: int
  bs_column :: int
  bs_fill_buffer :: bool
  bs_status :: buffer_status

datatype yyblock = Chars "u8 list" | Slots "nat list" | Buffer yy_buffer_state

record yyscan =
  yyextra :: nat
  yyin :: nat
  yyout :: nat
  yy_buffer_stack_top :: nat
  yy_buffer_stack_max :: nat
  yy_buffer_stack :: nat
  sg_hold_char :: u8
  sg_n_chars :: int
  sg_leng :: int
  sg_c_buf_p :: "nat \<times> nat"
  yy_init :: bool
  yy_start :: int
  yy_did_buffer_switch_on_eof :: bool
  yy_start_stack_ptr :: int
  yy_start_stack_depth :: int
  yy_start_stack :: nat
  sg_text :: "nat \<times> nat"
  yy_flex_debug :: int
  blocks :: "nat \<rightharpoonup> yyblock"
  brk :: nat

text \<open>Sequencing of calls that may end the process.\<close>

definition proceed :: "'a lexed option \<Rightarrow> ('a \<Rightarrow> 'b lexed option) \<Rightarrow> 'b lexed option" where
  "proceed m f = do { r \<leftarrow> m; (case r of Fatal \<Rightarrow> Some Fatal | Done x \<Rightarrow> f x) }"

abbreviation finished :: "yyscan option \<Rightarrow> yyscan lexed option" where
  "finished \<equiv> map_option Done"

definition new_block :: "yyblock \<Rightarrow> yyscan \<Rightarrow> nat \<times> yyscan" where
  "new_block c g = (brk g, g\<lparr>blocks := (blocks g)(brk g \<mapsto> c), brk := brk g + 1\<rparr>)"

definition yyfree :: "nat \<Rightarrow> yyscan \<Rightarrow> yyscan option" where
  "yyfree p g = (if p = 0 then Some g
     else case blocks g p of None \<Rightarrow> None | Some c \<Rightarrow> Some (g\<lparr>blocks := (blocks g)(p := None)\<rparr>))"

definition char_at :: "yyscan \<Rightarrow> nat \<times> nat \<Rightarrow> u8 option" where
  "char_at g p = (case blocks g (fst p) of Some (Chars cs) \<Rightarrow> aget cs (snd p) | _ \<Rightarrow> None)"

definition put_char :: "nat \<times> nat \<Rightarrow> u8 \<Rightarrow> yyscan \<Rightarrow> yyscan option" where
  "put_char p c g = (case blocks g (fst p) of
       Some (Chars cs) \<Rightarrow> do { cs \<leftarrow> aset cs (snd p) c; Some (g\<lparr>blocks := (blocks g)(fst p \<mapsto> Chars cs)\<rparr>) }
     | _ \<Rightarrow> None)"

definition buffer_at :: "yyscan \<Rightarrow> nat \<Rightarrow> yy_buffer_state option" where
  "buffer_at g b = (case blocks g b of Some (Buffer s) \<Rightarrow> Some s | _ \<Rightarrow> None)"

definition put_buffer :: "nat \<Rightarrow> (yy_buffer_state \<Rightarrow> yy_buffer_state) \<Rightarrow> yyscan \<Rightarrow> yyscan option" where
  "put_buffer b f g = do {
     s \<leftarrow> buffer_at g b;
     Some (g\<lparr>blocks := (blocks g)(b \<mapsto> Buffer (f s))\<rparr>)
   }"

definition stack_slots :: "yyscan \<Rightarrow> nat list option" where
  "stack_slots g = (case blocks g (yy_buffer_stack g) of Some (Slots xs) \<Rightarrow> Some xs | _ \<Rightarrow> None)"

text \<open>\<open>YY_CURRENT_BUFFER\<close>, and an assignment to \<open>YY_CURRENT_BUFFER_LVALUE\<close>.\<close>

definition current_buffer :: "yyscan \<Rightarrow> nat option" where
  "current_buffer g = (if yy_buffer_stack g = 0 then Some 0
     else do { xs \<leftarrow> stack_slots g; aget xs (yy_buffer_stack_top g) })"

definition set_current_buffer :: "nat \<Rightarrow> yyscan \<Rightarrow> yyscan option" where
  "set_current_buffer b g = do {
     xs \<leftarrow> stack_slots g;
     xs \<leftarrow> aset xs (yy_buffer_stack_top g) b;
     Some (g\<lparr>blocks := (blocks g)(yy_buffer_stack g \<mapsto> Slots xs)\<rparr>)
   }"

section \<open>The functions on buffers\<close>

text \<open>
  \<open>yy_buffer_stack_max - 1\<close> is unsigned, so that a maximum of 0 would make the second test false.  The new
  slots hold null pointers after \<open>memset\<close>; a pointer has 8 bytes.
\<close>

definition yyensure_buffer_stack :: "'s platform \<Rightarrow> yyscan \<Rightarrow> yyscan lexed option" where
  "yyensure_buffer_stack e g =
     (if yy_buffer_stack g = 0 then
        if allocates e 8 then
          (let (p, g) = new_block (Slots [0]) g in
           Some (Done (g\<lparr>yy_buffer_stack := p, yy_buffer_stack_max := 1, yy_buffer_stack_top := 0\<rparr>)))
        else Some Fatal
      else if yy_buffer_stack_max g \<noteq> 0 \<and> yy_buffer_stack_max g - 1 \<le> yy_buffer_stack_top g then
        if allocates e (8 * (yy_buffer_stack_max g + 8)) then do {
          xs \<leftarrow> stack_slots g;
          g \<leftarrow> yyfree (yy_buffer_stack g) g;
          let (p, g) = new_block (Slots (take (yy_buffer_stack_max g) xs @ replicate 8 0)) g;
          Some (Done (g\<lparr>yy_buffer_stack := p, yy_buffer_stack_max := yy_buffer_stack_max g + 8\<rparr>))
        }
        else Some Fatal
      else Some (Done g))"

definition yy_load_state :: "yyscan \<Rightarrow> yyscan option" where
  "yy_load_state g = do {
     b \<leftarrow> current_buffer g;
     s \<leftarrow> buffer_at g b;
     c \<leftarrow> char_at g (bs_buf_pos s);
     Some (g\<lparr>sg_n_chars := bs_n_chars s, sg_text := bs_buf_pos s, sg_c_buf_p := bs_buf_pos s,
       yyin := bs_input_file s, sg_hold_char := c\<rparr>)
   }"

definition yy_flush_state :: "nat \<Rightarrow> yyscan \<Rightarrow> yyscan option" where
  "yy_flush_state b g =
     (if b = 0 then Some g
      else do {
        s \<leftarrow> buffer_at g b;
        g \<leftarrow> put_buffer b (\<lambda>s. s\<lparr>bs_n_chars := 0\<rparr>) g;
        g \<leftarrow> put_char (bs_ch_buf s, 0) 0 g;
        g \<leftarrow> put_char (bs_ch_buf s, 1) 0 g;
        g \<leftarrow> put_buffer b (\<lambda>s. s\<lparr>bs_buf_pos := (bs_ch_buf s, 0), bs_at_bol := True, bs_status := Buffer_new\<rparr>) g;
        current \<leftarrow> current_buffer g;
        if b = current then yy_load_state g else Some g
      })"

definition yy_init_state :: "nat \<Rightarrow> nat \<Rightarrow> yyscan \<Rightarrow> yyscan option" where
  "yy_init_state b file g = do {
     g \<leftarrow> yy_flush_state b g;
     g \<leftarrow> put_buffer b (\<lambda>s. s\<lparr>bs_input_file := file, bs_fill_buffer := True\<rparr>) g;
     current \<leftarrow> current_buffer g;
     g \<leftarrow> (if b \<noteq> current then put_buffer b (\<lambda>s. s\<lparr>bs_lineno := 1, bs_column := 0\<rparr>) g else Some g);
     put_buffer b (\<lambda>s. s\<lparr>bs_is_interactive := True\<rparr>) g
   }"

text \<open>
  The size is a C integer, whose sum with 2 must not overflow.  \<open>junk\<close> is the indeterminate content of
  a new structure.
\<close>

definition yy_create_state ::
  "'s platform \<Rightarrow> yy_buffer_state \<Rightarrow> nat \<Rightarrow> int \<Rightarrow> yyscan \<Rightarrow> (nat \<times> yyscan) lexed option" where
  "yy_create_state e junk file n g =
     (if \<not> allocates e 64 then Some Fatal
      else let (b, g) = new_block (Buffer (junk\<lparr>bs_buf_size := n\<rparr>)) g in
        if 2147483645 < n then None
        else case yyalloc e (nat ((n + 2) mod 2 ^ 64)) of None \<Rightarrow> Some Fatal
        | Some cs \<Rightarrow> do {
            let (p, g) = new_block (Chars cs) g;
            g \<leftarrow> put_buffer b (\<lambda>s. s\<lparr>bs_ch_buf := p, bs_is_our_buffer := True\<rparr>) g;
            g \<leftarrow> yy_init_state b file g;
            Some (Done (b, g))
          })"

definition yy_delete_buffer :: "nat \<Rightarrow> yyscan \<Rightarrow> yyscan option" where
  "yy_delete_buffer b g =
     (if b = 0 then Some g
      else do {
        current \<leftarrow> current_buffer g;
        g \<leftarrow> (if b = current then set_current_buffer 0 g else Some g);
        s \<leftarrow> buffer_at g b;
        g \<leftarrow> (if bs_is_our_buffer s then yyfree (bs_ch_buf s) g else Some g);
        yyfree b g
      })"

text \<open>The block that \<open>yy_switch_to_buffer\<close> and \<open>yypush_buffer_state\<close> share.\<close>

definition save_current_buffer :: "yyscan \<Rightarrow> yyscan option" where
  "save_current_buffer g = do {
     current \<leftarrow> current_buffer g;
     if current = 0 then Some g
     else do {
       g \<leftarrow> put_char (sg_c_buf_p g) (sg_hold_char g) g;
       put_buffer current (\<lambda>s. s\<lparr>bs_buf_pos := sg_c_buf_p g, bs_n_chars := sg_n_chars g\<rparr>) g
     }
   }"

text \<open>The first statement of three functions: a buffer when there is none.\<close>

definition yy_provide_buffer :: "'s platform \<Rightarrow> yy_buffer_state \<Rightarrow> yyscan \<Rightarrow> yyscan lexed option" where
  "yy_provide_buffer e junk g = do {
     current \<leftarrow> current_buffer g;
     if current \<noteq> 0 then Some (Done g)
     else proceed (yyensure_buffer_stack e g) (\<lambda>g.
       proceed (yy_create_state e junk (yyin g) 16384 g) (\<lambda>(b, g). finished (set_current_buffer b g)))
   }"

definition yy_restart :: "'s platform \<Rightarrow> yy_buffer_state \<Rightarrow> nat \<Rightarrow> yyscan \<Rightarrow> yyscan lexed option" where
  "yy_restart e junk file g = proceed (yy_provide_buffer e junk g) (\<lambda>g. do {
     b \<leftarrow> current_buffer g;
     g \<leftarrow> yy_init_state b file g;
     finished (yy_load_state g)
   })"

definition yy_switch_to_buffer :: "'s platform \<Rightarrow> nat \<Rightarrow> yyscan \<Rightarrow> yyscan lexed option" where
  "yy_switch_to_buffer e b g = proceed (yyensure_buffer_stack e g) (\<lambda>g. do {
     current \<leftarrow> current_buffer g;
     if current = b then Some (Done g)
     else do {
       g \<leftarrow> save_current_buffer g;
       g \<leftarrow> set_current_buffer b g;
       g \<leftarrow> yy_load_state g;
       Some (Done (g\<lparr>yy_did_buffer_switch_on_eof := True\<rparr>))
     }
   })"

definition yypush_buffer_state :: "'s platform \<Rightarrow> nat \<Rightarrow> yyscan \<Rightarrow> yyscan lexed option" where
  "yypush_buffer_state e b g =
     (if b = 0 then Some (Done g)
      else proceed (yyensure_buffer_stack e g) (\<lambda>g. do {
        g \<leftarrow> save_current_buffer g;
        current \<leftarrow> current_buffer g;
        let g = (if current \<noteq> 0 then g\<lparr>yy_buffer_stack_top := yy_buffer_stack_top g + 1\<rparr> else g);
        g \<leftarrow> set_current_buffer b g;
        g \<leftarrow> yy_load_state g;
        Some (Done (g\<lparr>yy_did_buffer_switch_on_eof := True\<rparr>))
      }))"

definition yypop_buffer_state :: "yyscan \<Rightarrow> yyscan option" where
  "yypop_buffer_state g = do {
     current \<leftarrow> current_buffer g;
     if current = 0 then Some g
     else do {
       g \<leftarrow> yy_delete_buffer current g;
       g \<leftarrow> set_current_buffer 0 g;
       let g = (if 0 < yy_buffer_stack_top g then g\<lparr>yy_buffer_stack_top := yy_buffer_stack_top g - 1\<rparr> else g);
       current \<leftarrow> current_buffer g;
       if current \<noteq> 0 then do {
         g \<leftarrow> yy_load_state g;
         Some (g\<lparr>yy_did_buffer_switch_on_eof := True\<rparr>)
       }
       else Some g
     }
   }"

text \<open>
  \<open>yy_scan_buffer\<close> takes the block of the caller; it gives the null pointer when the block does not end
  with two bytes 0.  The line and the column of the new structure stay indeterminate.
\<close>

definition yy_scan_buffer ::
  "'s platform \<Rightarrow> yy_buffer_state \<Rightarrow> nat \<Rightarrow> nat \<Rightarrow> yyscan \<Rightarrow> (nat \<times> yyscan) lexed option" where
  "yy_scan_buffer e junk base n g =
     (if n < 2 then Some (Done (0, g))
      else do {
        c \<leftarrow> char_at g (base, n - 2);
        last \<leftarrow> (if c = 0 then char_at g (base, n - 1) else Some c);
        if last \<noteq> 0 then Some (Done (0, g))
        else if \<not> allocates e 64 then Some Fatal
        else
          (let size = int n - 2;
             (b, g) = new_block (Buffer (junk\<lparr>bs_buf_size := size, bs_ch_buf := base, bs_buf_pos := (base, 0),
               bs_is_our_buffer := False, bs_input_file := 0, bs_n_chars := size, bs_is_interactive := False,
               bs_at_bol := True, bs_fill_buffer := False, bs_status := Buffer_new\<rparr>)) g
           in proceed (yy_switch_to_buffer e b g) (\<lambda>g. Some (Done (b, g))))
      })"

fun copy_bytes :: "u8 list \<Rightarrow> nat \<Rightarrow> nat \<Rightarrow> yyscan \<Rightarrow> yyscan option" where
  "copy_bytes [] p i g = Some g"
| "copy_bytes (c # cs) p i g = do { g \<leftarrow> put_char (p, i) c g; copy_bytes cs p (i + 1) g }"

text \<open>The bytes are as many as the argument \<open>_yybytes_len\<close> says.\<close>

definition yy_scan_bytes ::
  "'s platform \<Rightarrow> yy_buffer_state \<Rightarrow> u8 list \<Rightarrow> yyscan \<Rightarrow> (nat \<times> yyscan) lexed option" where
  "yy_scan_bytes e junk bytes g =
     (if 2147483645 < length bytes then None
      else case yyalloc e (length bytes + 2) of None \<Rightarrow> Some Fatal
      | Some cs \<Rightarrow> do {
          let (p, g) = new_block (Chars cs) g;
          g \<leftarrow> copy_bytes bytes p 0 g;
          g \<leftarrow> put_char (p, length bytes + 1) 0 g;
          g \<leftarrow> put_char (p, length bytes) 0 g;
          proceed (yy_scan_buffer e junk p (length bytes + 2) g) (\<lambda>(b, g).
            if b = 0 then Some Fatal
            else do { g \<leftarrow> put_buffer b (\<lambda>s. s\<lparr>bs_is_our_buffer := True\<rparr>) g; Some (Done (b, g)) })
        })"

text \<open>A C string is given with its final byte 0.\<close>

definition yy_scan_string ::
  "'s platform \<Rightarrow> yy_buffer_state \<Rightarrow> u8 list \<Rightarrow> yyscan \<Rightarrow> (nat \<times> yyscan) lexed option" where
  "yy_scan_string e junk s g =
     (if 0 \<in> set s then yy_scan_bytes e junk (takeWhile (\<lambda>c. c \<noteq> 0) s) g else None)"

definition yy_set_interactive ::
  "'s platform \<Rightarrow> yy_buffer_state \<Rightarrow> bool \<Rightarrow> yyscan \<Rightarrow> yyscan lexed option" where
  "yy_set_interactive e junk v g = proceed (yy_provide_buffer e junk g) (\<lambda>g. do {
     b \<leftarrow> current_buffer g; finished (put_buffer b (\<lambda>s. s\<lparr>bs_is_interactive := v\<rparr>) g) })"

definition yy_set_bol :: "'s platform \<Rightarrow> yy_buffer_state \<Rightarrow> bool \<Rightarrow> yyscan \<Rightarrow> yyscan lexed option" where
  "yy_set_bol e junk v g = proceed (yy_provide_buffer e junk g) (\<lambda>g. do {
     b \<leftarrow> current_buffer g; finished (put_buffer b (\<lambda>s. s\<lparr>bs_at_bol := v\<rparr>) g) })"

definition yy_at_bol :: "yyscan \<Rightarrow> bool option" where
  "yy_at_bol g = do { b \<leftarrow> current_buffer g; s \<leftarrow> buffer_at g b; Some (bs_at_bol s) }"

section \<open>The life of the scanner\<close>

definition yy_init_globals :: "yyscan \<Rightarrow> yyscan" where
  "yy_init_globals g = g\<lparr>yy_buffer_stack := 0, yy_buffer_stack_top := 0, yy_buffer_stack_max := 0,
     sg_c_buf_p := (0, 0), yy_init := False, yy_start := 0, yy_start_stack_ptr := 0, yy_start_stack_depth := 0,
     yy_start_stack := 0, yyin := 0, yyout := 0\<rparr>"

text \<open>What \<open>memset\<close> makes of the structure, with an empty heap.\<close>

definition cleared :: yyscan where
  "cleared = \<lparr>yyextra = 0, yyin = 0, yyout = 0, yy_buffer_stack_top = 0, yy_buffer_stack_max = 0,
     yy_buffer_stack = 0, sg_hold_char = 0, sg_n_chars = 0, sg_leng = 0, sg_c_buf_p = (0, 0), yy_init = False,
     yy_start = 0, yy_did_buffer_switch_on_eof = False, yy_start_stack_ptr = 0, yy_start_stack_depth = 0,
     yy_start_stack = 0, sg_text = (0, 0), yy_flex_debug = 0, blocks = (\<lambda>_. None), brk = 1\<rparr>"

text \<open>
  The structure of the scanner is the state itself; whether it is allocated is the argument \<open>ok\<close>, and
  \<open>named\<close> says that the place for the pointer to it is not null.  The result 1 is a failure.
\<close>

definition yylex_init :: "bool \<Rightarrow> bool \<Rightarrow> int \<times> yyscan option" where
  "yylex_init named ok =
     (if \<not> named then (1, None) else if \<not> ok then (1, None) else (0, Some (yy_init_globals cleared)))"

definition yyset_extra :: "nat \<Rightarrow> yyscan \<Rightarrow> yyscan" where
  "yyset_extra v g = g\<lparr>yyextra := v\<rparr>"

definition yylex_init_with :: "nat \<Rightarrow> bool \<Rightarrow> bool \<Rightarrow> int \<times> yyscan option" where
  "yylex_init_with v named ok =
     (if \<not> named then (1, None) else if \<not> ok then (1, None)
      else (0, Some (yy_init_globals (yyset_extra v cleared))))"

text \<open>The first part of \<open>yylex\<close>, with the standard streams as arguments.\<close>

definition yylex_begin ::
  "'s platform \<Rightarrow> yy_buffer_state \<Rightarrow> nat \<Rightarrow> nat \<Rightarrow> yyscan \<Rightarrow> yyscan lexed option" where
  "yylex_begin e junk std_in std_out g =
     (if yy_init g then Some (Done g)
      else
        let g = g\<lparr>yy_init := True, yy_start := if yy_start g = 0 then 1 else yy_start g,
          yyin := if yyin g = 0 then std_in else yyin g, yyout := if yyout g = 0 then std_out else yyout g\<rparr>
        in proceed (yy_provide_buffer e junk g) (\<lambda>g. finished (yy_load_state g)))"

text \<open>
  The loop of \<open>yylex_destroy\<close>, with one unit of fuel for each slot up to the top and one more.
\<close>

fun pop_loop :: "nat \<Rightarrow> yyscan \<Rightarrow> yyscan option" where
  "pop_loop 0 g = None"
| "pop_loop (Suc fuel) g = do {
     current \<leftarrow> current_buffer g;
     if current = 0 then Some g
     else do {
       g \<leftarrow> yy_delete_buffer current g;
       g \<leftarrow> set_current_buffer 0 g;
       g \<leftarrow> yypop_buffer_state g;
       pop_loop fuel g
     }
   }"

text \<open>The structure of the scanner is freed at the end: the result is what is left of the heap.\<close>

definition yylex_destroy :: "yyscan \<Rightarrow> (nat \<rightharpoonup> yyblock) option" where
  "yylex_destroy g = do {
     g \<leftarrow> pop_loop (yy_buffer_stack_top g + 2) g;
     g \<leftarrow> yyfree (yy_buffer_stack g) g;
     let g = g\<lparr>yy_buffer_stack := 0\<rparr>;
     g \<leftarrow> yyfree (yy_start_stack g) g;
     let g = yy_init_globals (g\<lparr>yy_start_stack := 0\<rparr>);
     Some (blocks g)
   }"

section \<open>The accessors\<close>

definition yyget_extra :: "yyscan \<Rightarrow> nat" where
  "yyget_extra g = yyextra g"

definition yyget_lineno :: "yyscan \<Rightarrow> int option" where
  "yyget_lineno g = do {
     b \<leftarrow> current_buffer g;
     if b = 0 then Some 0 else do { s \<leftarrow> buffer_at g b; Some (bs_lineno s) }
   }"

definition yyget_column :: "yyscan \<Rightarrow> int option" where
  "yyget_column g = do {
     b \<leftarrow> current_buffer g;
     if b = 0 then Some 0 else do { s \<leftarrow> buffer_at g b; Some (bs_column s) }
   }"

definition yyget_in :: "yyscan \<Rightarrow> nat" where
  "yyget_in g = yyin g"

definition yyget_out :: "yyscan \<Rightarrow> nat" where
  "yyget_out g = yyout g"

definition yyget_leng :: "yyscan \<Rightarrow> int" where
  "yyget_leng g = sg_leng g"

definition yyget_text :: "yyscan \<Rightarrow> nat \<times> nat" where
  "yyget_text g = sg_text g"

definition yyset_lineno :: "int \<Rightarrow> yyscan \<Rightarrow> yyscan lexed option" where
  "yyset_lineno n g = do {
     b \<leftarrow> current_buffer g;
     if b = 0 then Some Fatal else finished (put_buffer b (\<lambda>s. s\<lparr>bs_lineno := n\<rparr>) g)
   }"

definition yyset_column :: "int \<Rightarrow> yyscan \<Rightarrow> yyscan lexed option" where
  "yyset_column n g = do {
     b \<leftarrow> current_buffer g;
     if b = 0 then Some Fatal else finished (put_buffer b (\<lambda>s. s\<lparr>bs_column := n\<rparr>) g)
   }"

definition yyset_in :: "nat \<Rightarrow> yyscan \<Rightarrow> yyscan" where
  "yyset_in file g = g\<lparr>yyin := file\<rparr>"

definition yyset_out :: "nat \<Rightarrow> yyscan \<Rightarrow> yyscan" where
  "yyset_out file g = g\<lparr>yyout := file\<rparr>"

definition yyget_debug :: "yyscan \<Rightarrow> int" where
  "yyget_debug g = yy_flex_debug g"

definition yyset_debug :: "int \<Rightarrow> yyscan \<Rightarrow> yyscan" where
  "yyset_debug v g = g\<lparr>yy_flex_debug := v\<rparr>"

end
