(* ===== verification/BufferStack.thy ===== *)
theory BufferStack
  imports Buffers
begin

text \<open>
  What the functions of \<open>Buffers\<close> do to the stack of buffers.  \<open>represents g st D\<close> says that the heap of
  the scanner has the buffers of the stack \<open>st\<close>, whose first is the current one, those of the set \<open>D\<close>, which
  the client holds, the block of characters of each, the array of the stack, and nothing else.
\<close>

section \<open>The layout of the heap\<close>

text \<open>
  What the functions need of a block: the size of a block of characters, the slots of the stack, and the
  pointers of a buffer.
\<close>

datatype layout = Room nat | Stack "nat list" | Header nat bool int "nat \<times> nat"

fun layout_of :: "yyblock \<Rightarrow> layout" where
  "layout_of (Chars cs) = Room (length cs)"
| "layout_of (Slots xs) = Stack xs"
| "layout_of (Buffer s) = Header (bs_ch_buf s) (bs_is_our_buffer s) (bs_buf_size s) (bs_buf_pos s)"

definition layout :: "yyscan \<Rightarrow> nat \<Rightarrow> layout option" where
  "layout g p = map_option layout_of (blocks g p)"

definition room :: "yyscan \<Rightarrow> nat \<Rightarrow> nat" where
  "room g p = (case layout g p of Some (Room n) \<Rightarrow> n | _ \<Rightarrow> 0)"

definition chars_of :: "yyscan \<Rightarrow> nat \<Rightarrow> nat" where
  "chars_of g b = (case layout g b of Some (Header a ours n p) \<Rightarrow> a | _ \<Rightarrow> 0)"

text \<open>Two states with the same layout and the same pointers to the stack.\<close>

definition alike :: "yyscan \<Rightarrow> yyscan \<Rightarrow> bool" where
  "alike g h \<longleftrightarrow> layout h = layout g \<and> brk h = brk g \<and> yy_buffer_stack h = yy_buffer_stack g
     \<and> yy_buffer_stack_top h = yy_buffer_stack_top g \<and> yy_buffer_stack_max h = yy_buffer_stack_max g
     \<and> yy_start_stack h = yy_start_stack g"

lemma layout_cases:
  "layout g p = Some (Room n) \<longleftrightarrow> (\<exists>cs. blocks g p = Some (Chars cs) \<and> length cs = n)"
  "layout g p = Some (Stack xs) \<longleftrightarrow> blocks g p = Some (Slots xs)"
  "layout g p = Some (Header a ours k q) \<longleftrightarrow> (\<exists>s. blocks g p = Some (Buffer s) \<and> bs_ch_buf s = a
     \<and> bs_is_our_buffer s = ours \<and> bs_buf_size s = k \<and> bs_buf_pos s = q)"
  "layout g p = None \<longleftrightarrow> blocks g p = None"
proof -
  have "layout_of c = Room n \<longleftrightarrow> (\<exists>cs. c = Chars cs \<and> length cs = n)" for c by (cases c) auto
  moreover have "layout_of c = Stack xs \<longleftrightarrow> c = Slots xs" for c by (cases c) auto
  moreover have "layout_of c = Header a ours k q \<longleftrightarrow> (\<exists>s. c = Buffer s \<and> bs_ch_buf s = a
     \<and> bs_is_our_buffer s = ours \<and> bs_buf_size s = k \<and> bs_buf_pos s = q)" for c by (cases c) auto
  ultimately show "layout g p = Some (Room n) \<longleftrightarrow> (\<exists>cs. blocks g p = Some (Chars cs) \<and> length cs = n)"
    "layout g p = Some (Stack xs) \<longleftrightarrow> blocks g p = Some (Slots xs)"
    "layout g p = Some (Header a ours k q) \<longleftrightarrow> (\<exists>s. blocks g p = Some (Buffer s) \<and> bs_ch_buf s = a
     \<and> bs_is_our_buffer s = ours \<and> bs_buf_size s = k \<and> bs_buf_pos s = q)"
    "layout g p = None \<longleftrightarrow> blocks g p = None"
    by (auto simp: layout_def)
qed

lemma layout_blocks: "layout (g\<lparr>blocks := m\<rparr>) p = map_option layout_of (m p)"
  by (simp add: layout_def)

lemma room_pos: "0 < room g p \<Longrightarrow> layout g p = Some (Room (room g p))"
  by (auto simp: room_def split: option.splits layout.splits)

section \<open>The elementary operations\<close>

lemma char_at_room:
  assumes "i < room g a" shows "\<exists>c. char_at g (a, i) = Some c"
proof -
  have "layout g a = Some (Room (room g a))" using assms by (intro room_pos) simp
  then show ?thesis using assms by (auto simp: layout_cases char_at_def)
qed

lemma put_char_room:
  assumes "i < room g a"
  shows "\<exists>m. put_char (a, i) c g = Some (g\<lparr>blocks := m\<rparr>) \<and> layout (g\<lparr>blocks := m\<rparr>) = layout g"
proof -
  have "layout g a = Some (Room (room g a))" using assms by (intro room_pos) simp
  then obtain cs where cs: "blocks g a = Some (Chars cs)" "length cs = room g a" by (auto simp: layout_cases)
  then have "layout (g\<lparr>blocks := (blocks g)(a \<mapsto> Chars (cs[i := c]))\<rparr>) = layout g"
    by (auto simp: layout_def fun_eq_iff)
  then show ?thesis using cs assms by (auto simp: put_char_def)
qed

lemma put_buffer_layout:
  assumes "layout g b = Some (Header a ours n q)"
    "\<And>s. bs_ch_buf (f s) = bs_ch_buf s \<and> bs_is_our_buffer (f s) = bs_is_our_buffer s
      \<and> bs_buf_size (f s) = bs_buf_size s \<and> bs_buf_pos (f s) = pos (bs_ch_buf s) (bs_buf_pos s)"
  shows "\<exists>m. put_buffer b f g = Some (g\<lparr>blocks := m\<rparr>)
    \<and> layout (g\<lparr>blocks := m\<rparr>) = (layout g)(b \<mapsto> Header a ours n (pos a q))"
proof -
  obtain s where s: "blocks g b = Some (Buffer s)" "bs_ch_buf s = a" "bs_is_our_buffer s = ours" "bs_buf_size s = n"
    "bs_buf_pos s = q"
    using assms(1) by (auto simp: layout_cases)
  then have "layout (g\<lparr>blocks := (blocks g)(b \<mapsto> Buffer (f s))\<rparr>) = (layout g)(b \<mapsto> Header a ours n (pos a q))"
    using assms(2) by (auto simp: layout_def fun_eq_iff)
  then show ?thesis using s(1) by (auto simp: put_buffer_def buffer_at_def)
qed

lemma set_current_layout:
  assumes "layout g (yy_buffer_stack g) = Some (Stack xs)" "yy_buffer_stack_top g < length xs"
  shows "\<exists>m. set_current_buffer b g = Some (g\<lparr>blocks := m\<rparr>)
    \<and> layout (g\<lparr>blocks := m\<rparr>) = (layout g)(yy_buffer_stack g \<mapsto> Stack (xs[yy_buffer_stack_top g := b]))"
proof -
  have "blocks g (yy_buffer_stack g) = Some (Slots xs)" using assms(1) by (simp add: layout_cases)
  moreover have "layout (g\<lparr>blocks := (blocks g)(yy_buffer_stack g \<mapsto> Slots (xs[yy_buffer_stack_top g := b]))\<rparr>)
    = (layout g)(yy_buffer_stack g \<mapsto> Stack (xs[yy_buffer_stack_top g := b]))"
    by (auto simp: layout_def fun_eq_iff)
  ultimately show ?thesis using assms(2) by (auto simp: set_current_buffer_def stack_slots_def)
qed

lemma yyfree_layout:
  assumes "layout g p \<noteq> None" "p \<noteq> 0"
  shows "\<exists>m. yyfree p g = Some (g\<lparr>blocks := m\<rparr>) \<and> layout (g\<lparr>blocks := m\<rparr>) = (layout g)(p := None)"
  using assms by (auto simp: yyfree_def layout_def fun_eq_iff)

lemma new_block_layout:
  "\<exists>m. new_block c g = (brk g, g\<lparr>blocks := m, brk := brk g + 1\<rparr>)
    \<and> layout (g\<lparr>blocks := m\<rparr>) = (layout g)(brk g \<mapsto> layout_of c)"
  by (auto simp: new_block_def layout_def fun_eq_iff)

lemma layout_fields [simp]:
  "layout (g\<lparr>blocks := m, brk := k\<rparr>) = layout (g\<lparr>blocks := m\<rparr>)"
  "layout (g\<lparr>brk := k, blocks := m\<rparr>) = layout (g\<lparr>blocks := m\<rparr>)"
  by (simp_all add: layout_def fun_eq_iff)

section \<open>The invariant\<close>

text \<open>The buffers of \<open>U\<close> have a block of characters that the scanner does not own.\<close>

definition owned :: "yyscan \<Rightarrow> nat set \<Rightarrow> nat \<Rightarrow> bool" where
  "owned g U b \<longleftrightarrow> (\<exists>a n i. layout g b = Some (Header a (b \<notin> U) n (a, i)) \<and> i < room g a
     \<and> int (room g a) = n + 2 \<and> 2 \<le> room g a)"

definition holds_buffers :: "yyscan \<Rightarrow> nat set \<Rightarrow> nat set \<Rightarrow> bool" where
  "holds_buffers g U B \<longleftrightarrow> layout g 0 = None \<and> 0 < brk g \<and> (\<forall>p. layout g p \<noteq> None \<longrightarrow> p < brk g) \<and> (\<forall>b \<in> B. owned g U b)
     \<and> inj_on (chars_of g) B
     \<and> (\<forall>p. layout g p \<noteq> None \<longrightarrow> p \<in> B \<union> chars_of g ` B \<or> p = yy_buffer_stack g)"

definition holds_stack :: "yyscan \<Rightarrow> nat list \<Rightarrow> bool" where
  "holds_stack g st \<longleftrightarrow> yy_buffer_stack g = 0 \<and> st = [] \<or>
     (\<exists>xs. layout g (yy_buffer_stack g) = Some (Stack xs) \<and> length xs = yy_buffer_stack_max g
       \<and> yy_buffer_stack_top g < yy_buffer_stack_max g
       \<and> (if st = [] then yy_buffer_stack_top g = 0 \<and> xs ! 0 = 0 else take (Suc (yy_buffer_stack_top g)) xs = rev st))"

definition held :: "yyscan \<Rightarrow> nat set \<Rightarrow> nat list \<Rightarrow> nat set \<Rightarrow> bool" where
  "held g U st D \<longleftrightarrow> holds_buffers g U (set st \<union> D) \<and> holds_stack g st \<and> distinct st \<and> set st \<inter> D = {}
     \<and> yy_start_stack g = 0"

definition cursor_in :: "yyscan \<Rightarrow> nat list \<Rightarrow> bool" where
  "cursor_in g st \<longleftrightarrow> (st \<noteq> [] \<longrightarrow>
     (\<exists>i. sg_c_buf_p g = (chars_of g (hd st), i) \<and> i < room g (chars_of g (hd st))))"

definition represents :: "yyscan \<Rightarrow> nat list \<Rightarrow> nat set \<Rightarrow> bool" where
  "represents g st D \<longleftrightarrow> held g {} st D \<and> cursor_in g st"

lemma alike_parts:
  assumes "alike g h"
  shows "chars_of h = chars_of g" "room h = room g" "owned h = owned g" "holds_buffers h = holds_buffers g"
    "holds_stack h = holds_stack g" "held h = held g"
proof -
  show chars: "chars_of h = chars_of g" and "room h = room g"
    using assms by (simp_all add: alike_def chars_of_def room_def fun_eq_iff)
  then show "owned h = owned g" using assms by (intro ext) (simp add: alike_def owned_def)
  then show "holds_buffers h = holds_buffers g"
    using assms chars by (intro ext) (simp add: alike_def holds_buffers_def)
  moreover show "holds_stack h = holds_stack g" using assms by (intro ext) (simp add: alike_def holds_stack_def)
  ultimately show "held h = held g" using assms by (intro ext) (simp add: alike_def held_def)
qed

lemma current_of_stack:
  assumes "holds_stack g st" "layout g 0 = None"
  shows "current_buffer g = Some (case st of [] \<Rightarrow> 0 | b # _ \<Rightarrow> b)"
proof (cases "yy_buffer_stack g = 0")
  case True
  then show ?thesis using assms by (auto simp: current_buffer_def holds_stack_def)
next
  case False
  then obtain xs where xs: "layout g (yy_buffer_stack g) = Some (Stack xs)" "length xs = yy_buffer_stack_max g"
    "yy_buffer_stack_top g < yy_buffer_stack_max g"
    "if st = [] then yy_buffer_stack_top g = 0 \<and> xs ! 0 = 0 else take (Suc (yy_buffer_stack_top g)) xs = rev st"
    using assms(1) by (auto simp: holds_stack_def)
  have "xs ! yy_buffer_stack_top g = hd st" if "st \<noteq> []"
  proof -
    have "last (take (Suc (yy_buffer_stack_top g)) xs) = xs ! yy_buffer_stack_top g"
      using xs(2,3) by (simp add: take_Suc_conv_app_nth)
    then show ?thesis using that xs(4) by (simp add: last_rev)
  qed
  then show ?thesis
    using False xs by (cases st) (auto simp: current_buffer_def stack_slots_def layout_cases)
qed

text \<open>A change of the pointer into one buffer.\<close>

lemma chars_of_header:
  assumes "layout g b = Some (Header a u n q)"
    and "layout h = (layout g)(b \<mapsto> Header a u' n' q')"
  shows "chars_of h = chars_of g" "room h = room g"
  using assms by (auto simp: chars_of_def room_def fun_eq_iff)

lemma holds_stack_header:
  assumes "holds_stack g st" "layout g 0 = None" "layout g b = Some (Header a u n q)"
    "layout (g\<lparr>blocks := m\<rparr>) = (layout g)(b \<mapsto> Header a u' n' q')"
  shows "holds_stack (g\<lparr>blocks := m\<rparr>) st"
  using assms by (auto simp: holds_stack_def)

lemma held_position:
  assumes "held g U st D" "b \<in> set st \<union> D" "layout g b = Some (Header a u n q)" "i < room g a"
    "layout (g\<lparr>blocks := m\<rparr>) = (layout g)(b \<mapsto> Header a u n (a, i))"
  shows "held (g\<lparr>blocks := m\<rparr>) U st D"
proof -
  note same = chars_of_header [OF assms(3,5)]
  have own: "owned g U c" if "c \<in> set st \<union> D" for c
    using assms(1) that by (auto simp: held_def holds_buffers_def)
  have "owned (g\<lparr>blocks := m\<rparr>) U c" if "c \<in> set st \<union> D" for c
    using own [OF that] assms(3,4,5) same by (auto simp: owned_def)
  then have "holds_buffers (g\<lparr>blocks := m\<rparr>) U (set st \<union> D)"
    using assms(1,3,5) same by (auto simp: held_def holds_buffers_def)
  moreover have "holds_stack (g\<lparr>blocks := m\<rparr>) st"
    using holds_stack_header [OF _ _ assms(3,5)] assms(1) by (simp add: held_def holds_buffers_def)
  ultimately show ?thesis using assms(1) by (simp add: held_def)
qed

lemma held_header:
  assumes "held g U st D" "b \<in> set st \<union> D"
  obtains n i where "layout g b = Some (Header (chars_of g b) (b \<notin> U) n (chars_of g b, i))"
    "i < room g (chars_of g b)" "2 \<le> room g (chars_of g b)" "b \<noteq> 0" "layout g 0 = None" "b \<noteq> yy_buffer_stack g"
proof -
  have "owned g U b" "layout g 0 = None" using assms by (auto simp: held_def holds_buffers_def)
  then obtain a n i where "layout g b = Some (Header a (b \<notin> U) n (a, i))" "i < room g a" "2 \<le> room g a"
    by (auto simp: owned_def)
  moreover from this have "chars_of g b = a" by (simp add: chars_of_def)
  moreover have "b \<noteq> yy_buffer_stack g"
    using assms(1) calculation(1) \<open>layout g 0 = None\<close> by (auto simp: held_def holds_stack_def)
  ultimately show thesis using that \<open>layout g 0 = None\<close> by fastforce
qed

lemma held_current:
  assumes "held g U st D" shows "current_buffer g = Some (case st of [] \<Rightarrow> 0 | b # _ \<Rightarrow> b)"
  using assms by (intro current_of_stack) (auto simp: held_def holds_buffers_def)

section \<open>Loading, flushing and saving\<close>

lemma load_result:
  assumes "held g U (b # st) D"
  shows "\<exists>h. yy_load_state g = Some h \<and> alike g h \<and> blocks h = blocks g \<and> cursor_in h (b # st)
    \<and> held h U (b # st) D"
proof -
  obtain n i where b: "layout g b = Some (Header (chars_of g b) (b \<notin> U) n (chars_of g b, i))"
    "i < room g (chars_of g b)"
    using held_header [OF assms, of b] by (metis UnI1 list.set_intros(1))
  then obtain s where s: "blocks g b = Some (Buffer s)" "bs_buf_pos s = (chars_of g b, i)"
    by (auto simp: layout_cases)
  obtain c where c: "char_at g (chars_of g b, i) = Some c" using char_at_room [OF b(2)] by blast
  let ?h = "g\<lparr>sg_n_chars := bs_n_chars s, sg_text := bs_buf_pos s, sg_c_buf_p := bs_buf_pos s,
       yyin := bs_input_file s, sg_hold_char := c\<rparr>"
  have alike: "alike g ?h" by (simp add: alike_def layout_def fun_eq_iff)
  have "yy_load_state g = Some ?h"
    using s c by (simp add: yy_load_state_def held_current [OF assms] buffer_at_def)
  moreover have "cursor_in ?h (b # st)"
    using s b(2) alike_parts(1,2) [OF alike] by (simp add: cursor_in_def)
  moreover have "held ?h U (b # st) D" using assms alike_parts(6) [OF alike] by simp
  ultimately show ?thesis using alike by auto
qed

text \<open>A flush of a buffer, which need not be one of those that are held already.\<close>

lemma flush_layout:
  assumes "layout g b = Some (Header a u n q)" "2 \<le> room g a" "b \<noteq> 0" "holds_stack g st" "layout g 0 = None"
  shows "\<exists>m. yy_flush_state b g = (if st \<noteq> [] \<and> b = hd st then yy_load_state (g\<lparr>blocks := m\<rparr>) else Some (g\<lparr>blocks := m\<rparr>))
    \<and> layout (g\<lparr>blocks := m\<rparr>) = (layout g)(b \<mapsto> Header a u n (a, 0))"
proof -
  obtain s where s: "blocks g b = Some (Buffer s)" "bs_ch_buf s = a" using assms(1) by (auto simp: layout_cases)
  obtain m1 where m1: "put_buffer b (\<lambda>s. s\<lparr>bs_n_chars := 0\<rparr>) g = Some (g\<lparr>blocks := m1\<rparr>)"
    "layout (g\<lparr>blocks := m1\<rparr>) = (layout g)(b \<mapsto> Header a u n q)"
    using put_buffer_layout [OF assms(1), of "\<lambda>s. s\<lparr>bs_n_chars := 0\<rparr>" "\<lambda>_ q. q"] by auto
  have room1: "room (g\<lparr>blocks := m1\<rparr>) = room g" using chars_of_header [OF assms(1) m1(2)] by simp
  obtain m2 where m2: "put_char (a, 0) 0 (g\<lparr>blocks := m1\<rparr>) = Some (g\<lparr>blocks := m2\<rparr>)"
    "layout (g\<lparr>blocks := m2\<rparr>) = layout (g\<lparr>blocks := m1\<rparr>)"
    using put_char_room [of 0 "g\<lparr>blocks := m1\<rparr>" a 0] assms(2) room1 by auto
  have room2: "room (g\<lparr>blocks := m2\<rparr>) = room g" using room1 m2(2) by (simp add: room_def fun_eq_iff)
  obtain m3 where m3: "put_char (a, 1) 0 (g\<lparr>blocks := m2\<rparr>) = Some (g\<lparr>blocks := m3\<rparr>)"
    "layout (g\<lparr>blocks := m3\<rparr>) = layout (g\<lparr>blocks := m2\<rparr>)"
    using put_char_room [of 1 "g\<lparr>blocks := m2\<rparr>" a 0] assms(2) room2 by auto
  have header: "layout (g\<lparr>blocks := m3\<rparr>) b = Some (Header a u n q)" using m1(2) m2(2) m3(2) by simp
  obtain m4 where m4: "put_buffer b (\<lambda>s. s\<lparr>bs_buf_pos := (bs_ch_buf s, 0), bs_at_bol := True, bs_status := Buffer_new\<rparr>)
      (g\<lparr>blocks := m3\<rparr>) = Some (g\<lparr>blocks := m4\<rparr>)"
    "layout (g\<lparr>blocks := m4\<rparr>) = (layout (g\<lparr>blocks := m3\<rparr>))(b \<mapsto> Header a u n (a, 0))"
    using put_buffer_layout [OF header, of "\<lambda>s. s\<lparr>bs_buf_pos := (bs_ch_buf s, 0), bs_at_bol := True, bs_status := Buffer_new\<rparr>"
        "\<lambda>a _. (a, 0)"] by auto
  have layout: "layout (g\<lparr>blocks := m4\<rparr>) = (layout g)(b \<mapsto> Header a u n (a, 0))"
    using m1(2) m2(2) m3(2) m4(2) by simp
  have "current_buffer (g\<lparr>blocks := m4\<rparr>) = Some (case st of [] \<Rightarrow> 0 | b # _ \<Rightarrow> b)"
    using holds_stack_header [OF assms(4,5,1) layout] assms(3,5) layout by (intro current_of_stack) auto
  then have "yy_flush_state b g = (if st \<noteq> [] \<and> b = hd st then yy_load_state (g\<lparr>blocks := m4\<rparr>) else Some (g\<lparr>blocks := m4\<rparr>))"
    using assms(3) s m1(1) m2(1) m3(1) m4(1)
    by (cases st) (simp_all add: yy_flush_state_def buffer_at_def)
  then show ?thesis using layout by blast
qed

lemma flush_result:
  assumes "held g U st D" "b \<in> set st \<union> D"
  shows "\<exists>h. yy_flush_state b g = Some h \<and> held h U st D \<and> chars_of h = chars_of g \<and> room h = room g
    \<and> (cursor_in g st \<or> st \<noteq> [] \<and> b = hd st \<longrightarrow> cursor_in h st)"
proof -
  obtain n i where b: "layout g b = Some (Header (chars_of g b) (b \<notin> U) n (chars_of g b, i))"
    "2 \<le> room g (chars_of g b)" "b \<noteq> 0" "layout g 0 = None"
    using held_header [OF assms] by metis
  have stack: "holds_stack g st" using assms(1) by (simp add: held_def)
  obtain m where m: "yy_flush_state b g
      = (if st \<noteq> [] \<and> b = hd st then yy_load_state (g\<lparr>blocks := m\<rparr>) else Some (g\<lparr>blocks := m\<rparr>))"
    "layout (g\<lparr>blocks := m\<rparr>) = (layout g)(b \<mapsto> Header (chars_of g b) (b \<notin> U) n (chars_of g b, 0))"
    using flush_layout [OF b(1,2,3) stack b(4)] by auto
  have held: "held (g\<lparr>blocks := m\<rparr>) U st D"
    using b(2) by (intro held_position [OF assms b(1) _ m(2)]) simp
  note same = chars_of_header [OF b(1) m(2)]
  show ?thesis
  proof (cases "st \<noteq> [] \<and> b = hd st")
    case True
    then obtain rest where st: "st = b # rest" by (cases st) auto
    obtain h where "yy_load_state (g\<lparr>blocks := m\<rparr>) = Some h" "alike (g\<lparr>blocks := m\<rparr>) h" "cursor_in h st" "held h U st D"
      using load_result [OF held [unfolded st]] st by auto
    then show ?thesis using m(1) True same alike_parts(1,2) by auto
  next
    case False
    then have "yy_flush_state b g = Some (g\<lparr>blocks := m\<rparr>)"
      unfolding m(1) by (rule if_not_P)
    then show ?thesis using held same False by (auto simp: cursor_in_def)
  qed
qed

lemma put_buffer_held:
  assumes "held g U st D" "b \<in> set st \<union> D"
    "\<And>s. bs_ch_buf (f s) = bs_ch_buf s \<and> bs_is_our_buffer (f s) = bs_is_our_buffer s
      \<and> bs_buf_size (f s) = bs_buf_size s \<and> bs_buf_pos (f s) = bs_buf_pos s"
  shows "\<exists>m. put_buffer b f g = Some (g\<lparr>blocks := m\<rparr>) \<and> held (g\<lparr>blocks := m\<rparr>) U st D
    \<and> chars_of (g\<lparr>blocks := m\<rparr>) = chars_of g \<and> room (g\<lparr>blocks := m\<rparr>) = room g"
proof -
  obtain n i where b: "layout g b = Some (Header (chars_of g b) (b \<notin> U) n (chars_of g b, i))"
    "i < room g (chars_of g b)"
    using held_header [OF assms(1,2)] by metis
  obtain m where m: "put_buffer b f g = Some (g\<lparr>blocks := m\<rparr>)"
    "layout (g\<lparr>blocks := m\<rparr>) = (layout g)(b \<mapsto> Header (chars_of g b) (b \<notin> U) n (chars_of g b, i))"
    using put_buffer_layout [OF b(1), of f "\<lambda>_ q. q"] assms(3) by auto
  then show ?thesis using held_position [OF assms(1,2) b m(2)] chars_of_header [OF b(1) m(2)] by auto
qed

section \<open>Initialisation and creation\<close>

lemma init_result:
  assumes "held g U st D" "b \<in> set st \<union> D"
  shows "\<exists>h. yy_init_state b file g = Some h \<and> held h U st D \<and> chars_of h = chars_of g \<and> room h = room g
    \<and> (cursor_in g st \<or> st \<noteq> [] \<and> b = hd st \<longrightarrow> cursor_in h st)"
proof -
  obtain h1 where h1: "yy_flush_state b g = Some h1" "held h1 U st D" "chars_of h1 = chars_of g" "room h1 = room g"
    "cursor_in g st \<or> st \<noteq> [] \<and> b = hd st \<longrightarrow> cursor_in h1 st"
    using flush_result [OF assms] by auto
  obtain m2 where m2: "put_buffer b (\<lambda>s. s\<lparr>bs_input_file := file, bs_fill_buffer := True\<rparr>) h1 = Some (h1\<lparr>blocks := m2\<rparr>)"
    "held (h1\<lparr>blocks := m2\<rparr>) U st D" "chars_of (h1\<lparr>blocks := m2\<rparr>) = chars_of g" "room (h1\<lparr>blocks := m2\<rparr>) = room g"
    using put_buffer_held [OF h1(2) assms(2), of "\<lambda>s. s\<lparr>bs_input_file := file, bs_fill_buffer := True\<rparr>"] h1(3,4) by auto
  obtain m5 where m5: "put_buffer b (\<lambda>s. s\<lparr>bs_lineno := 1, bs_column := 0\<rparr>) (h1\<lparr>blocks := m2\<rparr>) = Some (h1\<lparr>blocks := m5\<rparr>)"
    "held (h1\<lparr>blocks := m5\<rparr>) U st D" "chars_of (h1\<lparr>blocks := m5\<rparr>) = chars_of g" "room (h1\<lparr>blocks := m5\<rparr>) = room g"
    using put_buffer_held [OF m2(2) assms(2), of "\<lambda>s. s\<lparr>bs_lineno := 1, bs_column := 0\<rparr>"] m2 by auto
  let ?m3 = "if b \<noteq> (case st of [] \<Rightarrow> 0 | b # _ \<Rightarrow> b) then m5 else m2"
  obtain m3 where "m3 = ?m3" by blast
  then have m3: "(if b \<noteq> (case st of [] \<Rightarrow> 0 | b # _ \<Rightarrow> b)
      then put_buffer b (\<lambda>s. s\<lparr>bs_lineno := 1, bs_column := 0\<rparr>) (h1\<lparr>blocks := m2\<rparr>) else Some (h1\<lparr>blocks := m2\<rparr>))
      = Some (h1\<lparr>blocks := m3\<rparr>)"
    "held (h1\<lparr>blocks := m3\<rparr>) U st D" "chars_of (h1\<lparr>blocks := m3\<rparr>) = chars_of g" "room (h1\<lparr>blocks := m3\<rparr>) = room g"
    using m2(2-4) m5 by (cases "b \<noteq> (case st of [] \<Rightarrow> 0 | b # _ \<Rightarrow> b)"; simp only: if_True if_False; simp)+
  obtain m4 where m4: "put_buffer b (\<lambda>s. s\<lparr>bs_is_interactive := True\<rparr>) (h1\<lparr>blocks := m3\<rparr>) = Some (h1\<lparr>blocks := m4\<rparr>)"
    "held (h1\<lparr>blocks := m4\<rparr>) U st D" "chars_of (h1\<lparr>blocks := m4\<rparr>) = chars_of g" "room (h1\<lparr>blocks := m4\<rparr>) = room g"
    using put_buffer_held [OF m3(2) assms(2), of "\<lambda>s. s\<lparr>bs_is_interactive := True\<rparr>"] m3 by auto
  have "yy_init_state b file g = Some (h1\<lparr>blocks := m4\<rparr>)"
    using h1(1) m2(1) m3(1) m4(1) by (simp add: yy_init_state_def held_current [OF m2(2)])
  moreover have "cursor_in (h1\<lparr>blocks := m4\<rparr>) st = cursor_in h1 st"
    using m4(3,4) h1(3,4) by (simp add: cursor_in_def)
  ultimately show ?thesis using m4 h1(5) by auto
qed

lemma put_buffer_same:
  assumes "layout g b = Some (Header a u n q)"
    "\<And>s. bs_ch_buf (f s) = bs_ch_buf s \<and> bs_is_our_buffer (f s) = bs_is_our_buffer s
      \<and> bs_buf_size (f s) = bs_buf_size s \<and> bs_buf_pos (f s) = bs_buf_pos s"
  shows "\<exists>m. put_buffer b f g = Some (g\<lparr>blocks := m\<rparr>) \<and> layout (g\<lparr>blocks := m\<rparr>) = layout g"
  using put_buffer_layout [OF assms(1), of f "\<lambda>_ q. q"] assms by (auto simp: fun_upd_idem)

lemma init_layout:
  assumes "layout g b = Some (Header a u n q)" "2 \<le> room g a" "b \<noteq> 0" "holds_stack g st" "layout g 0 = None"
    "b \<notin> set st"
  shows "\<exists>m. yy_init_state b file g = Some (g\<lparr>blocks := m\<rparr>)
    \<and> layout (g\<lparr>blocks := m\<rparr>) = (layout g)(b \<mapsto> Header a u n (a, 0))"
proof -
  have other: "\<not> (st \<noteq> [] \<and> b = hd st)" using assms(6) by (cases st) auto
  obtain m1 where "yy_flush_state b g = (if st \<noteq> [] \<and> b = hd st then yy_load_state (g\<lparr>blocks := m1\<rparr>)
      else Some (g\<lparr>blocks := m1\<rparr>))"
    "layout (g\<lparr>blocks := m1\<rparr>) = (layout g)(b \<mapsto> Header a u n (a, 0))"
    using flush_layout [OF assms(1-5)] by blast
  then have m1: "yy_flush_state b g = Some (g\<lparr>blocks := m1\<rparr>)"
    "layout (g\<lparr>blocks := m1\<rparr>) = (layout g)(b \<mapsto> Header a u n (a, 0))"
    using if_not_P [OF other] by metis+
  then have header: "layout (g\<lparr>blocks := m1\<rparr>) b = Some (Header a u n (a, 0))" by simp
  obtain m2 where m2: "put_buffer b (\<lambda>s. s\<lparr>bs_input_file := file, bs_fill_buffer := True\<rparr>) (g\<lparr>blocks := m1\<rparr>)
      = Some (g\<lparr>blocks := m2\<rparr>)" "layout (g\<lparr>blocks := m2\<rparr>) = layout (g\<lparr>blocks := m1\<rparr>)"
    using put_buffer_same [OF header, of "\<lambda>s. s\<lparr>bs_input_file := file, bs_fill_buffer := True\<rparr>"] by auto
  obtain m3 where m3: "put_buffer b (\<lambda>s. s\<lparr>bs_lineno := 1, bs_column := 0\<rparr>) (g\<lparr>blocks := m2\<rparr>)
      = Some (g\<lparr>blocks := m3\<rparr>)" "layout (g\<lparr>blocks := m3\<rparr>) = layout (g\<lparr>blocks := m1\<rparr>)"
    using put_buffer_same [OF header [folded m2(2)], of "\<lambda>s. s\<lparr>bs_lineno := 1, bs_column := 0\<rparr>"] m2(2) by auto
  obtain m4 where m4: "put_buffer b (\<lambda>s. s\<lparr>bs_is_interactive := True\<rparr>) (g\<lparr>blocks := m3\<rparr>)
      = Some (g\<lparr>blocks := m4\<rparr>)" "layout (g\<lparr>blocks := m4\<rparr>) = layout (g\<lparr>blocks := m1\<rparr>)"
    using put_buffer_same [OF header [folded m3(2)], of "\<lambda>s. s\<lparr>bs_is_interactive := True\<rparr>"] m3(2) by auto
  have "layout (g\<lparr>blocks := m2\<rparr>) = (layout g)(b \<mapsto> Header a u n (a, 0))" using m1(2) m2(2) by simp
  then have "current_buffer (g\<lparr>blocks := m2\<rparr>) = Some (case st of [] \<Rightarrow> 0 | b # _ \<Rightarrow> b)"
    using holds_stack_header [OF assms(4,5,1), of m2] assms(3,5) by (intro current_of_stack) auto
  moreover have "b \<noteq> (case st of [] \<Rightarrow> 0 | b # _ \<Rightarrow> b)" using assms(3,6) by (cases st) auto
  ultimately have "yy_init_state b file g = Some (g\<lparr>blocks := m4\<rparr>)"
    using m1(1) m2(1) m3(1) m4(1) by (simp add: yy_init_state_def)
  then show ?thesis using m1(2) m4(2) by auto
qed

text \<open>
  A call ends the process only when an allocation failed, and otherwise returns a result with the property
  \<open>Q\<close>.
\<close>

definition outcome :: "'s platform \<Rightarrow> 'a lexed option \<Rightarrow> ('a \<Rightarrow> bool) \<Rightarrow> bool" where
  "outcome e m Q \<longleftrightarrow> (m = Some Fatal \<and> (\<exists>n. \<not> allocates e n)) \<or> (\<exists>x. m = Some (Done x) \<and> Q x)"

lemma outcome_Done [simp]: "outcome e (Some (Done x)) Q = Q x"
  by (simp add: outcome_def)

lemma outcome_finished: "m = Some h \<Longrightarrow> Q h \<Longrightarrow> outcome e (finished m) Q"
  by (simp add: outcome_def)

lemma outcome_proceed:
  assumes "outcome e m P" "\<And>x. P x \<Longrightarrow> outcome e (f x) Q"
  shows "outcome e (proceed m f) Q"
proof -
  consider "m = Some Fatal" "\<exists>n. \<not> allocates e n" | x where "m = Some (Done x)" "P x"
    using assms(1) by (auto simp: outcome_def)
  then show ?thesis
  proof cases
    case 1
    then show ?thesis by (simp add: outcome_def proceed_def)
  next
    case 2
    then show ?thesis using assms(2) by (simp add: proceed_def)
  qed
qed

lemma outcome_pair:
  assumes "outcome e m (\<lambda>(b, h). P b h)" "\<And>b h. P b h \<Longrightarrow> outcome e (f b h) Q"
  shows "outcome e (proceed m (\<lambda>(b, h). f b h)) Q"
  using assms by (intro outcome_proceed [OF assms(1)]) auto

lemma outcome_weaken: "outcome e m P \<Longrightarrow> (\<And>x. P x \<Longrightarrow> Q x) \<Longrightarrow> outcome e m Q"
  by (auto simp: outcome_def)

lemma held_fresh:
  assumes "held g U st D" "b \<in> set st \<union> D"
  shows "b < brk g" "chars_of g b < brk g" "b \<noteq> 0" "chars_of g b \<noteq> 0"
proof -
  have fresh: "layout g p \<noteq> None \<Longrightarrow> p < brk g" "layout g 0 = None" for p
    using assms(1) by (auto simp: held_def holds_buffers_def)
  obtain n i where b: "layout g b = Some (Header (chars_of g b) (b \<notin> U) n (chars_of g b, i))"
    "i < room g (chars_of g b)"
    using held_header [OF assms] by metis
  have "layout g (chars_of g b) = Some (Room (room g (chars_of g b)))" using b(2) by (intro room_pos) simp
  then show "b < brk g" "chars_of g b < brk g" "b \<noteq> 0" "chars_of g b \<noteq> 0" using b(1) fresh by fastforce+
qed

text \<open>Two new blocks: a buffer and its characters.\<close>

lemma held_new_buffer:
  assumes "held g U st D" "2 \<le> k" "int k = n + 2" "p < k"
    "b \<noteq> a" "b \<noteq> 0" "a \<noteq> 0" "brk g \<le> a" "brk g \<le> b" "a < l" "b < l" "U' = (if u then U else insert b U)" "b \<notin> U"
    "layout (g\<lparr>blocks := m\<rparr>) = (layout g)(a \<mapsto> Room k, b \<mapsto> Header a u n (a, p))"
  shows "held (g\<lparr>blocks := m, brk := l\<rparr>) U' st (insert b D)"
    "\<And>c. c \<in> set st \<union> D \<Longrightarrow> chars_of (g\<lparr>blocks := m, brk := l\<rparr>) c = chars_of g c
      \<and> room (g\<lparr>blocks := m, brk := l\<rparr>) (chars_of g c) = room g (chars_of g c)"
proof -
  let ?h = "g\<lparr>blocks := m, brk := l\<rparr>"
  have L: "layout ?h = (layout g)(a \<mapsto> Room k, b \<mapsto> Header a u n (a, p))" using assms(14) by simp
  have bufs: "holds_buffers g U (set st \<union> D)" and stack: "holds_stack g st"
    using assms(1) by (simp_all add: held_def)
  then have new: "layout g a = None" "layout g b = None" "layout g 0 = None"
    using assms(8,9) by (auto simp: holds_buffers_def)
  have old: "c \<noteq> a" "c \<noteq> b" "chars_of g c \<noteq> a" "chars_of g c \<noteq> b" if "c \<in> set st \<union> D" for c
    using held_fresh [OF assms(1) that] assms(8,9) by auto
  show same: "chars_of ?h c = chars_of g c \<and> room ?h (chars_of g c) = room g (chars_of g c)"
    if "c \<in> set st \<union> D" for c
    using old [OF that] L by (simp add: chars_of_def room_def)
  have b: "chars_of ?h b = a" "room ?h a = k" using L assms(5) by (simp_all add: chars_of_def room_def)
  have own: "owned ?h U' c" if c: "c \<in> set st \<union> D" for c
  proof -
    obtain c' n' i where "layout g c = Some (Header c' (c \<notin> U) n' (c', i))"
      "i < room g c'" "int (room g c') = n' + 2" "2 \<le> room g c'"
      using bufs c unfolding holds_buffers_def owned_def by blast
    moreover from this have "chars_of g c = c'" by (simp add: chars_of_def)
    moreover have "c \<notin> U' \<longleftrightarrow> c \<notin> U" using assms(12) old(2) [OF c] by auto
    ultimately show ?thesis using old [OF c] same [OF c] L by (simp add: owned_def)
  qed
  have "owned ?h U' b" using L b assms(2,3,4,12,13) by (simp add: owned_def)
  moreover have "inj_on (chars_of ?h) (insert b (set st \<union> D))"
  proof -
    have "inj_on (chars_of g) (set st \<union> D)" using bufs by (simp add: holds_buffers_def)
    then have "inj_on (chars_of ?h) (set st \<union> D)" using same inj_on_cong [of "set st \<union> D" "chars_of ?h" "chars_of g"] by blast
    moreover have "chars_of ?h b \<notin> chars_of ?h ` (set st \<union> D)"
    proof
      assume "chars_of ?h b \<in> chars_of ?h ` (set st \<union> D)"
      then obtain c where c: "c \<in> set st \<union> D" "chars_of ?h b = chars_of ?h c" by blast
      then show False using same [OF c(1)] old(3) [OF c(1)] b(1) by simp
    qed
    ultimately show ?thesis by (auto simp: inj_on_insert)
  qed
  moreover have "p \<in> insert b (set st \<union> D) \<union> chars_of ?h ` insert b (set st \<union> D) \<or> p = yy_buffer_stack ?h"
    if "layout ?h p \<noteq> None" for p
  proof (cases "p = a \<or> p = b")
    case False
    then have "p \<in> set st \<union> D \<union> chars_of g ` (set st \<union> D) \<or> p = yy_buffer_stack g"
      using that L bufs by (simp add: holds_buffers_def)
    then show ?thesis using same by (auto simp: image_iff)
  qed (use b in auto)
  moreover have "p < l" if "layout ?h p \<noteq> None" for p
  proof (cases "p = a \<or> p = b")
    case False
    then have "layout g p \<noteq> None" using that L by simp
    then have "p < brk g" using bufs unfolding holds_buffers_def by blast
    then show ?thesis using assms(8,10) by simp
  qed (use assms(10,11) in auto)
  moreover have "layout ?h 0 = None" using L new assms(6,7) by simp
  moreover have "0 < brk ?h" using assms(10) by simp
  ultimately have "holds_buffers ?h U' (insert b (set st \<union> D))"
    using own by (auto simp: holds_buffers_def)
  moreover have "holds_stack ?h st" using stack new L by (auto simp: holds_stack_def)
  ultimately show "held ?h U' st (insert b D)"
    using assms(1) old by (auto simp: held_def)
qed

text \<open>The pointers to the stack stay as they are.\<close>

definition same_stack :: "yyscan \<Rightarrow> yyscan \<Rightarrow> bool" where
  "same_stack g h \<longleftrightarrow> yy_buffer_stack h = yy_buffer_stack g \<and> yy_buffer_stack_top h = yy_buffer_stack_top g
     \<and> yy_buffer_stack_max h = yy_buffer_stack_max g"

lemma create_result:
  assumes "held g {} st D" "0 \<le> n" "n \<le> 2147483645"
  shows "outcome e (yy_create_state e junk file n g) (\<lambda>(b, h). b \<notin> set st \<union> D \<and> held h {} st (insert b D)
    \<and> (cursor_in g st \<longrightarrow> cursor_in h st) \<and> same_stack g h)"
proof (cases "allocates e 64 \<and> allocates e (nat (n + 2))")
  case False
  then show ?thesis
    using assms(2,3) by (auto simp: yy_create_state_def outcome_def yyalloc_def new_block_def)
next
  case True
  let ?b = "brk g" and ?p = "brk g + 1" and ?k = "nat (n + 2)"
  have bufs: "holds_buffers g {} (set st \<union> D)" and stack: "holds_stack g st"
    using assms(1) by (simp_all add: held_def)
  have null: "layout g 0 = None" and bound: "layout g q \<noteq> None \<Longrightarrow> q < brk g" for q
    using bufs by (auto simp: holds_buffers_def)
  have fresh: "layout g ?b = None" "layout g ?p = None" using bound by (metis less_irrefl, metis less_add_one not_less_iff_gr_or_eq)
  obtain cs where cs: "yyalloc e ?k = Some cs" "length cs = ?k"
    using True by (auto simp: yyalloc_def)
  obtain s where s: "s = junk\<lparr>bs_buf_size := n\<rparr>" by blast
  let ?m2 = "(blocks g)(?b \<mapsto> Buffer s, ?p \<mapsto> Chars cs)"
  let ?g2 = "g\<lparr>blocks := ?m2, brk := ?p + 1\<rparr>"
  let ?s3 = "s\<lparr>bs_ch_buf := ?p, bs_is_our_buffer := True\<rparr>"
  let ?m3 = "?m2(?b \<mapsto> Buffer ?s3)"
  let ?g3 = "?g2\<lparr>blocks := ?m3\<rparr>"
  have L3: "layout ?g3 = (layout g)(?p \<mapsto> Room ?k, ?b \<mapsto> Header ?p True n (bs_buf_pos s))"
    using cs(2) by (auto simp: layout_def fun_eq_iff s)
  have header: "layout ?g3 ?b = Some (Header ?p True n (bs_buf_pos s))" using L3 by simp
  have room: "2 \<le> room ?g3 ?p" using L3 assms(2) by (simp add: room_def)
  have nonzero: "?b \<noteq> 0" "?p \<noteq> 0" using bufs by (auto simp: holds_buffers_def)
  have stack3: "holds_stack ?g3 st" using stack fresh L3 by (auto simp: holds_stack_def)
  have null3: "layout ?g3 0 = None" using L3 null nonzero by simp
  have new: "?b \<notin> set st \<union> D" using held_fresh(1) [OF assms(1)] by blast
  then obtain m4 where m4: "yy_init_state ?b file ?g3 = Some (?g3\<lparr>blocks := m4\<rparr>)"
    "layout (?g3\<lparr>blocks := m4\<rparr>) = (layout ?g3)(?b \<mapsto> Header ?p True n (?p, 0))"
    using init_layout [OF header room nonzero(1) stack3 null3] by auto
  have L4: "layout (g\<lparr>blocks := m4\<rparr>) = (layout g)(?p \<mapsto> Room ?k, ?b \<mapsto> Header ?p True n (?p, 0))"
    using m4(2) L3 by simp
  note made = held_new_buffer [OF assms(1) _ _ _ _ nonzero(1,2) _ _ _ _ _ _ L4, of "brk g + 2" "{}"]
  have held: "held (g\<lparr>blocks := m4, brk := brk g + 2\<rparr>) {} st (insert ?b D)"
    by (rule made(1)) (use assms(2) in auto)
  have same: "chars_of (g\<lparr>blocks := m4, brk := brk g + 2\<rparr>) c = chars_of g c
      \<and> room (g\<lparr>blocks := m4, brk := brk g + 2\<rparr>) (chars_of g c) = room g (chars_of g c)" if "c \<in> set st \<union> D" for c
    by (rule made(2)) (use assms(2) that in auto)
  have "cursor_in (g\<lparr>blocks := m4, brk := brk g + 2\<rparr>) st = cursor_in g st"
    using same [of "hd st"] by (cases st) (auto simp: cursor_in_def)
  moreover have "yy_create_state e junk file n g = Some (Done (?b, g\<lparr>blocks := m4, brk := brk g + 2\<rparr>))"
    using True assms(2,3) cs m4(1)
    by (simp add: yy_create_state_def new_block_def put_buffer_def buffer_at_def s Let_def)
  ultimately show ?thesis using held new by (simp add: same_stack_def)
qed

section \<open>The stack\<close>

lemma held_other_stack:
  assumes "held g U st D" "layout h q = Some (Stack ys)" "yy_buffer_stack h = q" "q \<noteq> 0" "brk g \<le> brk h" "q < brk h"
    "\<And>p. p \<noteq> q \<Longrightarrow> layout h p = (if p = yy_buffer_stack g then None else layout g p)"
    "q = yy_buffer_stack g \<or> brk g \<le> q" "holds_stack h st" "yy_start_stack h = yy_start_stack g"
  shows "held h U st D" "\<And>c. c \<in> set st \<union> D \<Longrightarrow> chars_of h c = chars_of g c"
    "\<And>c. c \<in> set st \<union> D \<Longrightarrow> room h (chars_of g c) = room g (chars_of g c)"
proof -
  have bufs: "holds_buffers g U (set st \<union> D)" using assms(1) by (simp add: held_def)
  have nonstack: "c \<noteq> q" "c \<noteq> yy_buffer_stack g" "chars_of g c \<noteq> q" "chars_of g c \<noteq> yy_buffer_stack g"
    if inB: "c \<in> set st \<union> D" for c
  proof -
    obtain n i where c: "layout g c = Some (Header (chars_of g c) (c \<notin> U) n (chars_of g c, i))"
      "i < room g (chars_of g c)" "c \<noteq> yy_buffer_stack g"
      using held_header [OF assms(1) inB] by metis
    have "layout g (chars_of g c) = Some (Room (room g (chars_of g c)))" using c(2) by (intro room_pos) simp
    moreover have "(\<exists>xs. layout g (yy_buffer_stack g) = Some (Stack xs)) \<or> layout g (yy_buffer_stack g) = None"
      using assms(1) by (auto simp: held_def holds_stack_def holds_buffers_def)
    ultimately show "chars_of g c \<noteq> yy_buffer_stack g" "c \<noteq> yy_buffer_stack g" using c by auto
    then show "c \<noteq> q" "chars_of g c \<noteq> q" using held_fresh(1,2) [OF assms(1) inB] assms(8) by auto
  qed
  show chars: "chars_of h c = chars_of g c" if "c \<in> set st \<union> D" for c
    using nonstack [OF that] assms(7) by (simp add: chars_of_def)
  show room: "room h (chars_of g c) = room g (chars_of g c)" if "c \<in> set st \<union> D" for c
    using nonstack [OF that] assms(7) by (simp add: room_def)
  have "owned h U c" if "c \<in> set st \<union> D" for c
  proof -
    obtain c' n' i where c: "layout g c = Some (Header c' (c \<notin> U) n' (c', i))"
      "i < room g c'" "int (room g c') = n' + 2" "2 \<le> room g c'"
      using bufs \<open>c \<in> set st \<union> D\<close> unfolding holds_buffers_def owned_def by blast
    moreover from this have "chars_of g c = c'" by (simp add: chars_of_def)
    ultimately show ?thesis using nonstack [OF that] room [OF that] assms(7) by (simp add: owned_def)
  qed
  moreover have "inj_on (chars_of h) (set st \<union> D)"
    using bufs chars inj_on_cong [of "set st \<union> D" "chars_of h" "chars_of g"] unfolding holds_buffers_def by blast
  moreover have "p \<in> set st \<union> D \<union> chars_of h ` (set st \<union> D) \<or> p = yy_buffer_stack h" if "layout h p \<noteq> None" for p
  proof (cases "p = q")
    case False
    then have "p \<noteq> yy_buffer_stack g" "layout g p \<noteq> None" using that assms(7) by (auto split: if_splits)
    then have "p \<in> set st \<union> D \<union> chars_of g ` (set st \<union> D)" using bufs unfolding holds_buffers_def by blast
    moreover have "chars_of h ` (set st \<union> D) = chars_of g ` (set st \<union> D)" using chars by (intro image_cong) auto
    ultimately show ?thesis by simp
  qed (use assms(3) in simp)
  moreover have "p < brk h" if "layout h p \<noteq> None" for p
  proof (cases "p = q")
    case False
    then have "layout g p \<noteq> None" using that assms(7) by (auto split: if_splits)
    then have "p < brk g" using bufs unfolding holds_buffers_def by blast
    then show ?thesis using assms(5) by simp
  qed (use assms(6) in simp)
  moreover have "layout h 0 = None" using assms(4,7) bufs by (simp add: holds_buffers_def)
  moreover have "0 < brk h" using assms(6) by simp
  ultimately have "holds_buffers h U (set st \<union> D)" unfolding holds_buffers_def by blast
  then show "held h U st D" using assms(1,9,10) by (simp add: held_def)
qed

lemma ensure_result:
  assumes "held g U st D"
  shows "outcome e (yyensure_buffer_stack e g) (\<lambda>h. held h U st D \<and> yy_buffer_stack h \<noteq> 0
    \<and> (st \<noteq> [] \<longrightarrow> yy_buffer_stack_top h + 1 < yy_buffer_stack_max h) \<and> (cursor_in g st \<longrightarrow> cursor_in h st))"
proof -
  have bufs: "holds_buffers g U (set st \<union> D)" and stack: "holds_stack g st"
    using assms by (simp_all add: held_def)
  have null: "layout g 0 = None" "0 < brk g" and bound: "layout g q \<noteq> None \<Longrightarrow> q < brk g" for q
    using bufs by (auto simp: holds_buffers_def)
  have moved: "held h U st D \<and> yy_buffer_stack h \<noteq> 0 \<and> (cursor_in g st \<longrightarrow> cursor_in h st)"
    if "layout h (brk g) = Some (Stack ys)" "yy_buffer_stack h = brk g" "brk h = brk g + 1"
      "\<And>p. p \<noteq> brk g \<Longrightarrow> layout h p = (if p = yy_buffer_stack g then None else layout g p)"
      "holds_stack h st" "yy_start_stack h = yy_start_stack g" "sg_c_buf_p h = sg_c_buf_p g" for h ys
  proof -
    have nonzero: "brk g \<noteq> 0" using null(2) by simp
    note other = held_other_stack [OF assms that(1,2) nonzero _ _ that(4) _ that(5,6)]
    have held: "held h U st D" by (rule other(1)) (use that in auto)
    have "chars_of h c = chars_of g c \<and> room h (chars_of g c) = room g (chars_of g c)" if "c \<in> set st \<union> D" for c
      using other(2,3) [OF _ _ _ _ that] \<open>brk h = brk g + 1\<close> by simp
    then have "cursor_in h st = cursor_in g st"
      using that(7) by (cases st) (auto simp: cursor_in_def)
    then show ?thesis using held that(2) nonzero by simp
  qed
  consider (none) "yy_buffer_stack g = 0" | (full) "yy_buffer_stack g \<noteq> 0" "yy_buffer_stack_max g \<noteq> 0 \<and> yy_buffer_stack_max g - 1 \<le> yy_buffer_stack_top g"
    | (room) "yy_buffer_stack g \<noteq> 0" "\<not> (yy_buffer_stack_max g \<noteq> 0 \<and> yy_buffer_stack_max g - 1 \<le> yy_buffer_stack_top g)"
    by blast
  then show ?thesis
  proof cases
    case none
    have st: "st = []" using stack none null(1) by (auto simp: holds_stack_def)
    let ?h = "g\<lparr>blocks := (blocks g)(brk g \<mapsto> Slots [0]), brk := brk g + 1, yy_buffer_stack := brk g,
      yy_buffer_stack_max := 1, yy_buffer_stack_top := 0\<rparr>"
    have top: "layout ?h (brk g) = Some (Stack [0])" by (simp add: layout_def)
    have "held ?h U st D \<and> yy_buffer_stack ?h \<noteq> 0 \<and> (cursor_in g st \<longrightarrow> cursor_in ?h st)"
    proof (rule moved)
      show "layout ?h p = (if p = yy_buffer_stack g then None else layout g p)" if "p \<noteq> brk g" for p
        using none null(1) that by (simp add: layout_def)
      show "holds_stack ?h st" using st top by (simp add: holds_stack_def)
    qed (use top in simp_all)
    then show ?thesis using none st
      by (auto simp: yyensure_buffer_stack_def new_block_def outcome_def)
  next
    case full
    obtain xs where xs: "layout g (yy_buffer_stack g) = Some (Stack xs)" "length xs = yy_buffer_stack_max g"
      "yy_buffer_stack_top g < yy_buffer_stack_max g"
      "if st = [] then yy_buffer_stack_top g = 0 \<and> xs ! 0 = 0 else take (Suc (yy_buffer_stack_top g)) xs = rev st"
      using stack full(1) by (auto simp: holds_stack_def)
    let ?ys = "xs @ replicate 8 0"
    have slots: "blocks g (yy_buffer_stack g) = Some (Slots xs)" using xs(1) by (simp add: layout_cases)
    let ?h = "g\<lparr>blocks := (blocks g)(yy_buffer_stack g := None, brk g \<mapsto> Slots ?ys), brk := brk g + 1,
      yy_buffer_stack := brk g, yy_buffer_stack_max := yy_buffer_stack_max g + 8\<rparr>"
    have top: "layout ?h (brk g) = Some (Stack ?ys)" by (simp add: layout_def)
    have held: "held ?h U st D \<and> yy_buffer_stack ?h \<noteq> 0 \<and> (cursor_in g st \<longrightarrow> cursor_in ?h st)"
    proof (rule moved)
      show "layout ?h p = (if p = yy_buffer_stack g then None else layout g p)" if "p \<noteq> brk g" for p
        using that by (simp add: layout_def)
      show "holds_stack ?h st" using top xs(2,3,4) by (auto simp: holds_stack_def nth_append)
    qed (use top in simp_all)
    have "yyensure_buffer_stack e g = (if allocates e (8 * (yy_buffer_stack_max g + 8)) then Some (Done ?h) else Some Fatal)"
      using full slots xs(2) by (simp add: yyensure_buffer_stack_def new_block_def stack_slots_def yyfree_def)
    then show ?thesis using held xs(3) by (auto simp: outcome_def)
  next
    case room
    then have "yyensure_buffer_stack e g = Some (Done g)" by (auto simp: yyensure_buffer_stack_def)
    moreover have "yy_buffer_stack_top g + 1 < yy_buffer_stack_max g"
      using stack room by (auto simp: holds_stack_def)
    ultimately show ?thesis using assms room by simp
  qed
qed

lemma slots_same:
  assumes "layout g (yy_buffer_stack g) = Some (Stack xs)" "layout h = (layout g)(yy_buffer_stack g \<mapsto> Stack ys)"
  shows "chars_of h = chars_of g" "room h = room g"
  using assms by (auto simp: chars_of_def room_def fun_eq_iff)

lemma slots_changed:
  assumes "held g U st D" "layout g (yy_buffer_stack g) = Some (Stack xs)"
    "layout h = (layout g)(yy_buffer_stack g \<mapsto> Stack ys)" "brk h = brk g" "yy_buffer_stack h = yy_buffer_stack g"
    "yy_start_stack h = yy_start_stack g" "set st' \<union> D' = set st \<union> D" "holds_stack h st'" "distinct st'"
    "set st' \<inter> D' = {}"
  shows "held h U st' D'"
proof -
  have bufs: "holds_buffers g U (set st \<union> D)" using assms(1) by (simp add: held_def)
  then have nonzero: "yy_buffer_stack g \<noteq> 0" using assms(2) by (metis holds_buffers_def option.distinct(1))
  note same = slots_same [OF assms(2,3)]
  have "owned h U c" if "owned g U c" for c
    using that assms(2,3) same by (auto simp: owned_def)
  then have "holds_buffers h U (set st \<union> D)"
    using bufs nonzero assms(2-5) same by (auto simp: holds_buffers_def)
  then show "held h U st' D'" using assms by (simp add: held_def)
qed

lemma stack_slots_held:
  assumes "held g U st D" "yy_buffer_stack g \<noteq> 0"
  obtains xs where "layout g (yy_buffer_stack g) = Some (Stack xs)" "length xs = yy_buffer_stack_max g"
    "yy_buffer_stack_top g < yy_buffer_stack_max g"
    "if st = [] then yy_buffer_stack_top g = 0 \<and> xs ! 0 = 0 else take (Suc (yy_buffer_stack_top g)) xs = rev st"
  using assms by (auto simp: held_def holds_stack_def)

text \<open>The current slot gets another buffer, in place of the old one or as the new top.\<close>

lemma replace_current:
  assumes "held g U st D" "yy_buffer_stack g \<noteq> 0" "b \<in> D"
  shows "\<exists>m. set_current_buffer b g = Some (g\<lparr>blocks := m\<rparr>)
      \<and> held (g\<lparr>blocks := m\<rparr>) U (b # tl st) (set (take 1 st) \<union> (D - {b}))
      \<and> chars_of (g\<lparr>blocks := m\<rparr>) = chars_of g \<and> room (g\<lparr>blocks := m\<rparr>) = room g"
proof -
  obtain xs where xs: "layout g (yy_buffer_stack g) = Some (Stack xs)" "length xs = yy_buffer_stack_max g"
    "yy_buffer_stack_top g < yy_buffer_stack_max g"
    "if st = [] then yy_buffer_stack_top g = 0 \<and> xs ! 0 = 0 else take (Suc (yy_buffer_stack_top g)) xs = rev st"
    by (rule stack_slots_held [OF assms(1,2)])
  let ?ys = "xs[yy_buffer_stack_top g := b]"
  obtain m where m: "set_current_buffer b g = Some (g\<lparr>blocks := m\<rparr>)"
    "layout (g\<lparr>blocks := m\<rparr>) = (layout g)(yy_buffer_stack g \<mapsto> Stack ?ys)"
    using set_current_layout [OF xs(1)] xs(2,3) by auto
  have take: "take (Suc (yy_buffer_stack_top g)) ?ys = take (yy_buffer_stack_top g) xs @ [b]"
    using xs(2,3) by (simp add: take_Suc_conv_app_nth)
  have "take (yy_buffer_stack_top g) xs = rev (tl st)"
  proof (cases st)
    case (Cons c rest)
    then have "take (Suc (yy_buffer_stack_top g)) xs = rev rest @ [c]" using xs(4) by simp
    then have "butlast (take (Suc (yy_buffer_stack_top g)) xs) = rev rest" by simp
    moreover have "butlast (take (Suc (yy_buffer_stack_top g)) xs) = take (yy_buffer_stack_top g) xs"
      using xs(2,3) by (simp add: butlast_take)
    ultimately show ?thesis using Cons by simp
  qed (use xs(4) in simp)
  then have "holds_stack (g\<lparr>blocks := m\<rparr>) (b # tl st)" using take xs(2,3) m(2) by (simp add: holds_stack_def)
  moreover have "set (b # tl st) \<union> (set (take 1 st) \<union> (D - {b})) = set st \<union> D"
    using assms(3) by (cases st) auto
  moreover have "distinct (b # tl st)" "set (b # tl st) \<inter> (set (take 1 st) \<union> (D - {b})) = {}"
    using assms(1,3) by (cases st; auto simp: held_def)+
  ultimately have "held (g\<lparr>blocks := m\<rparr>) U (b # tl st) (set (take 1 st) \<union> (D - {b}))"
    using slots_changed [OF assms(1) xs(1) m(2)] by simp
  then show ?thesis using m(1) slots_same [OF xs(1) m(2)] by blast
qed

lemma push_current:
  assumes "held g U st D" "yy_buffer_stack g \<noteq> 0" "b \<in> D" "st \<noteq> []"
    "yy_buffer_stack_top g + 1 < yy_buffer_stack_max g"
  shows "\<exists>m. set_current_buffer b (g\<lparr>yy_buffer_stack_top := yy_buffer_stack_top g + 1\<rparr>)
      = Some (g\<lparr>yy_buffer_stack_top := yy_buffer_stack_top g + 1, blocks := m\<rparr>)
    \<and> held (g\<lparr>yy_buffer_stack_top := yy_buffer_stack_top g + 1, blocks := m\<rparr>) U (b # st) (D - {b})"
proof -
  obtain xs where xs: "layout g (yy_buffer_stack g) = Some (Stack xs)" "length xs = yy_buffer_stack_max g"
    "yy_buffer_stack_top g < yy_buffer_stack_max g"
    "if st = [] then yy_buffer_stack_top g = 0 \<and> xs ! 0 = 0 else take (Suc (yy_buffer_stack_top g)) xs = rev st"
    by (rule stack_slots_held [OF assms(1,2)])
  let ?g = "g\<lparr>yy_buffer_stack_top := yy_buffer_stack_top g + 1\<rparr>"
  let ?ys = "xs[yy_buffer_stack_top g + 1 := b]"
  have L: "layout ?g = layout g" by (simp add: layout_def fun_eq_iff)
  obtain m where m: "set_current_buffer b ?g = Some (?g\<lparr>blocks := m\<rparr>)"
    "layout (?g\<lparr>blocks := m\<rparr>) = (layout g)(yy_buffer_stack g \<mapsto> Stack ?ys)"
    using set_current_layout [of ?g xs b] xs(1,2) assms(5) L by auto
  have "take (Suc (yy_buffer_stack_top g + 1)) ?ys = take (Suc (yy_buffer_stack_top g)) xs @ [b]"
    using xs(2) assms(5) by (simp add: take_Suc_conv_app_nth)
  then have "holds_stack (?g\<lparr>blocks := m\<rparr>) (b # st)" using xs assms(4,5) m(2) by (simp add: holds_stack_def)
  moreover have "set (b # st) \<union> (D - {b}) = set st \<union> D" using assms(3) by auto
  moreover have "distinct (b # st)" "set (b # st) \<inter> (D - {b}) = {}" using assms(1,3) by (auto simp: held_def)
  ultimately have "held (?g\<lparr>blocks := m\<rparr>) U (b # st) (D - {b})"
    using slots_changed [OF assms(1) xs(1) m(2)] by simp
  then show ?thesis using m(1) by auto
qed

lemma save_result:
  assumes "held g U st D" "cursor_in g st"
  shows "\<exists>m. save_current_buffer g = Some (g\<lparr>blocks := m\<rparr>) \<and> held (g\<lparr>blocks := m\<rparr>) U st D
    \<and> chars_of (g\<lparr>blocks := m\<rparr>) = chars_of g \<and> room (g\<lparr>blocks := m\<rparr>) = room g"
proof (cases st)
  case Nil
  have "g\<lparr>blocks := blocks g\<rparr> = g" by simp
  then show ?thesis using assms(1) Nil held_current [OF assms(1)]
    by (intro exI [of _ "blocks g"]) (simp add: save_current_buffer_def)
next
  case (Cons b rest)
  then have b: "b \<in> set st \<union> D" by simp
  obtain n i where header: "layout g b = Some (Header (chars_of g b) (b \<notin> U) n (chars_of g b, i))" "b \<noteq> 0"
    using held_header [OF assms(1) b] by metis
  obtain j where j: "sg_c_buf_p g = (chars_of g b, j)" "j < room g (chars_of g b)"
    using assms(2) Cons by (auto simp: cursor_in_def)
  obtain m1 where m1: "put_char (sg_c_buf_p g) (sg_hold_char g) g = Some (g\<lparr>blocks := m1\<rparr>)"
    "layout (g\<lparr>blocks := m1\<rparr>) = layout g"
    using put_char_room [OF j(2), of "sg_hold_char g"] j(1) by auto
  let ?f = "\<lambda>s. s\<lparr>bs_buf_pos := (chars_of g b, j), bs_n_chars := sg_n_chars g\<rparr>"
  have header1: "layout (g\<lparr>blocks := m1\<rparr>) b = Some (Header (chars_of g b) (b \<notin> U) n (chars_of g b, i))"
    using m1(2) header(1) by simp
  obtain m2 where m2: "put_buffer b ?f (g\<lparr>blocks := m1\<rparr>) = Some (g\<lparr>blocks := m2\<rparr>)"
    "layout (g\<lparr>blocks := m2\<rparr>) = (layout g)(b \<mapsto> Header (chars_of g b) (b \<notin> U) n (chars_of g b, j))"
    using put_buffer_layout [OF header1, of ?f "\<lambda>_ _. (chars_of g b, j)"] m1(2) by auto
  have "save_current_buffer g = Some (g\<lparr>blocks := m2\<rparr>)"
    using Cons header(2) held_current [OF assms(1)] m1(1) m2(1) j(1) by (simp add: save_current_buffer_def)
  then show ?thesis
    using held_position [OF assms(1) b header(1) j(2) m2(2)] chars_of_header [OF header(1) m2(2)] by blast
qed

section \<open>Deletion\<close>

lemma distinct_blocks:
  assumes "held g U st D" "b \<in> set st \<union> D"
  shows "b \<noteq> yy_buffer_stack g" "chars_of g b \<noteq> yy_buffer_stack g" "c \<in> set st \<union> D \<Longrightarrow> chars_of g b \<noteq> c"
    "layout g (chars_of g b) \<noteq> None" "c \<in> set st \<union> D \<Longrightarrow> chars_of g b = chars_of g c \<longleftrightarrow> b = c"
proof -
  have header: "\<exists>n i. layout g c = Some (Header (chars_of g c) (c \<notin> U) n (chars_of g c, i)) \<and> i < room g (chars_of g c)
      \<and> c \<noteq> yy_buffer_stack g" if "c \<in> set st \<union> D" for c
    using held_header [OF assms(1) that] by metis
  have room: "layout g (chars_of g b) = Some (Room (room g (chars_of g b)))"
    using header [OF assms(2)] by (intro room_pos) auto
  have stack: "(\<exists>xs. layout g (yy_buffer_stack g) = Some (Stack xs)) \<or> layout g (yy_buffer_stack g) = None"
    using assms(1) by (auto simp: held_def holds_stack_def holds_buffers_def)
  show "b \<noteq> yy_buffer_stack g" using header [OF assms(2)] by blast
  show "chars_of g b \<noteq> yy_buffer_stack g" using room stack by auto
  show "chars_of g b \<noteq> c" if "c \<in> set st \<union> D" using header [OF that] room by auto
  show "layout g (chars_of g b) \<noteq> None" using room by simp
  show "chars_of g b = chars_of g c \<longleftrightarrow> b = c" if "c \<in> set st \<union> D"
    using assms that by (auto simp: held_def holds_buffers_def inj_on_def)
qed

lemma removed_buffer:
  assumes "held g {} st D" "b \<in> set st \<union> D"
    "layout h = (layout g)(yy_buffer_stack g := s, chars_of g b := None, b := None)"
    "s = layout g (yy_buffer_stack g) \<or> (\<exists>xs ys. layout g (yy_buffer_stack g) = Some (Stack xs) \<and> s = Some (Stack ys))"
    "brk h = brk g" "yy_buffer_stack h = yy_buffer_stack g" "yy_start_stack h = yy_start_stack g"
    "set st' \<union> D' = set st \<union> D - {b}" "holds_stack h st'" "distinct st'" "set st' \<inter> D' = {}"
  shows "held h {} st' D'"
    "\<And>c. c \<in> set st' \<union> D' \<Longrightarrow> chars_of h c = chars_of g c \<and> room h (chars_of g c) = room g (chars_of g c)"
proof -
  have bufs: "holds_buffers g {} (set st \<union> D)" using assms(1) by (simp add: held_def)
  note ne = distinct_blocks [OF assms(1)]
  have other: "layout h c = layout g c" "layout h (chars_of g c) = layout g (chars_of g c)" if "c \<in> set st' \<union> D'" for c
  proof -
    have c: "c \<in> set st \<union> D" "c \<noteq> b" using that assms(8) by auto
    show "layout h c = layout g c" using ne(1) [OF c(1)] ne(3) [OF assms(2) c(1)] c(2) assms(3) by simp
    show "layout h (chars_of g c) = layout g (chars_of g c)"
      using ne(2) [OF c(1)] ne(3) [OF c(1) assms(2)] ne(5) [OF assms(2) c(1)] c(2) assms(3) by simp
  qed
  show same: "chars_of h c = chars_of g c \<and> room h (chars_of g c) = room g (chars_of g c)" if "c \<in> set st' \<union> D'" for c
    using other [OF that] by (simp add: chars_of_def room_def)
  have image: "chars_of h ` (set st' \<union> D') = chars_of g ` (set st' \<union> D')" using same by (intro image_cong) auto
  have "owned h {} c" if inD: "c \<in> set st' \<union> D'" for c
  proof -
    have "c \<in> set st \<union> D" using inD assms(8) by auto
    then obtain c' n' i where "layout g c = Some (Header c' (c \<notin> {}) n' (c', i))"
      "i < room g c'" "int (room g c') = n' + 2" "2 \<le> room g c'"
      using bufs unfolding holds_buffers_def owned_def by blast
    moreover from this have "chars_of g c = c'" by (simp add: chars_of_def)
    ultimately show ?thesis using other(1) [OF inD] same [OF inD] by (simp add: owned_def)
  qed
  moreover have "inj_on (chars_of h) (set st' \<union> D')"
  proof -
    have "inj_on (chars_of g) (set st' \<union> D')"
      using bufs assms(8) unfolding holds_buffers_def by (metis Diff_subset inj_on_subset)
    then show ?thesis using same inj_on_cong [of "set st' \<union> D'" "chars_of h" "chars_of g"] by blast
  qed
  moreover have "p \<in> set st' \<union> D' \<union> chars_of h ` (set st' \<union> D') \<or> p = yy_buffer_stack h" if p: "layout h p \<noteq> None" for p
  proof (cases "p = yy_buffer_stack g")
    case False
    then have "p \<noteq> b" "p \<noteq> chars_of g b" "layout g p \<noteq> None" using p assms(3) by (auto split: if_splits)
    moreover from this have "p \<in> set st \<union> D \<union> chars_of g ` (set st \<union> D)"
      using bufs False unfolding holds_buffers_def by blast
    ultimately have "p \<in> (set st \<union> D - {b}) \<union> chars_of g ` (set st \<union> D - {b})" by blast
    then show ?thesis unfolding image unfolding assms(8) by blast
  qed (use assms(6) in simp)
  moreover have "layout g p \<noteq> None" if "layout h p \<noteq> None" for p
  proof (cases "p = yy_buffer_stack g")
    case True
    then have "s \<noteq> None" using that assms(3) by (simp split: if_splits)
    then show ?thesis using assms(4) True by (metis option.distinct(1))
  next
    case False
    then show ?thesis using that assms(3) by (simp split: if_splits)
  qed
  moreover have "layout h 0 = None"
    using calculation(4) [of 0] bufs unfolding holds_buffers_def by metis
  ultimately have "holds_buffers h {} (set st' \<union> D')"
    using bufs assms(5) unfolding holds_buffers_def by metis
  then show "held h {} st' D'" using assms(1,7,9,10,11) by (simp add: held_def)
qed

text \<open>The two blocks of a buffer are freed.\<close>

lemma free_both:
  assumes "layout g b = Some (Header a True n q)" "layout g a \<noteq> None" "a \<noteq> b" "a \<noteq> 0" "b \<noteq> 0"
  shows "\<exists>m. do { s \<leftarrow> buffer_at g b; g \<leftarrow> (if bs_is_our_buffer s then yyfree (bs_ch_buf s) g else Some g); yyfree b g }
      = Some (g\<lparr>blocks := m\<rparr>)
    \<and> layout (g\<lparr>blocks := m\<rparr>) = (layout g)(a := None, b := None)"
proof -
  obtain s where s: "blocks g b = Some (Buffer s)" "bs_ch_buf s = a" "bs_is_our_buffer s"
    using assms(1) by (auto simp: layout_cases)
  obtain m1 where m1: "yyfree a g = Some (g\<lparr>blocks := m1\<rparr>)" "layout (g\<lparr>blocks := m1\<rparr>) = (layout g)(a := None)"
    using yyfree_layout [OF assms(2,4)] by auto
  have "layout (g\<lparr>blocks := m1\<rparr>) b \<noteq> None" using m1(2) assms(1,3) by simp
  then obtain m2 where "yyfree b (g\<lparr>blocks := m1\<rparr>) = Some (g\<lparr>blocks := m2\<rparr>)"
    "layout (g\<lparr>blocks := m2\<rparr>) = (layout g)(a := None, b := None)"
    using yyfree_layout [OF _ assms(5), of "g\<lparr>blocks := m1\<rparr>"] m1(2) by auto
  then show ?thesis using s m1(1) by (auto simp: buffer_at_def)
qed

lemma free_held:
  assumes "held g {} st D" "b \<in> set st \<union> D" "layout h = (layout g)(yy_buffer_stack g := s)"
  shows "\<exists>m. do { s \<leftarrow> buffer_at h b; g \<leftarrow> (if bs_is_our_buffer s then yyfree (bs_ch_buf s) h else Some h); yyfree b g }
      = Some (h\<lparr>blocks := m\<rparr>)
    \<and> layout (h\<lparr>blocks := m\<rparr>) = (layout g)(yy_buffer_stack g := s, chars_of g b := None, b := None)"
proof -
  obtain n i where b: "layout g b = Some (Header (chars_of g b) True n (chars_of g b, i))" "b \<noteq> 0"
    using held_header [OF assms(1,2)] by (metis empty_iff)
  note ne = distinct_blocks [OF assms(1,2)]
  have "layout h b = Some (Header (chars_of g b) True n (chars_of g b, i))" using b(1) ne(1) assms(3) by simp
  moreover have "layout h (chars_of g b) \<noteq> None" using ne(2,4) assms(3) by simp
  ultimately show ?thesis
    using free_both [of h b "chars_of g b" n] ne(3) [OF assms(2)] held_fresh(3,4) [OF assms(1,2)] assms(3) by simp
qed

lemma delete_result:
  assumes "represents g st D" "b \<in> D"
  shows "\<exists>h. yy_delete_buffer b g = Some h \<and> represents h st (D - {b})"
proof -
  have held: "held g {} st D" and cursor: "cursor_in g st" and b: "b \<in> set st \<union> D"
    using assms by (simp_all add: represents_def)
  have "layout g = (layout g)(yy_buffer_stack g := layout g (yy_buffer_stack g))" by simp
  then obtain m where m: "do { s \<leftarrow> buffer_at g b; g \<leftarrow> (if bs_is_our_buffer s then yyfree (bs_ch_buf s) g else Some g); yyfree b g }
      = Some (g\<lparr>blocks := m\<rparr>)"
    "layout (g\<lparr>blocks := m\<rparr>) = (layout g)(yy_buffer_stack g := layout g (yy_buffer_stack g), chars_of g b := None, b := None)"
    using free_held [OF held b] by blast
  have "b \<noteq> (case st of [] \<Rightarrow> 0 | b # _ \<Rightarrow> b)"
    using held assms(2) held_fresh(3) [OF held b] by (cases st) (auto simp: held_def)
  then have "yy_delete_buffer b g = Some (g\<lparr>blocks := m\<rparr>)"
    using m(1) held_current [OF held] held_fresh(3) [OF held b] by (simp add: yy_delete_buffer_def)
  moreover have stack: "holds_stack (g\<lparr>blocks := m\<rparr>) st"
    using held m(2) distinct_blocks(1,2) [OF held b] held_fresh(3,4) [OF held b]
    by (auto simp: held_def holds_stack_def)
  moreover have sets: "set st \<union> (D - {b}) = set st \<union> D - {b}" "distinct st" "set st \<inter> (D - {b}) = {}"
    using held assms(2) by (auto simp: held_def)
  moreover have "held (g\<lparr>blocks := m\<rparr>) {} st (D - {b})"
    "\<And>c. c \<in> set st \<union> (D - {b}) \<Longrightarrow> chars_of (g\<lparr>blocks := m\<rparr>) c = chars_of g c
      \<and> room (g\<lparr>blocks := m\<rparr>) (chars_of g c) = room g (chars_of g c)"
    using removed_buffer [OF held b m(2) _ _ _ _ sets(1) stack sets(2,3)] by simp_all
  moreover from this(2) have "cursor_in (g\<lparr>blocks := m\<rparr>) st" using cursor by (cases st) (auto simp: cursor_in_def)
  ultimately show ?thesis by (auto simp: represents_def)
qed

section \<open>The operations on the stack\<close>

lemma proceed_ensure:
  assumes "represents g st D"
    "\<And>h. represents h st D \<Longrightarrow> yy_buffer_stack h \<noteq> 0 \<Longrightarrow> (st \<noteq> [] \<longrightarrow> yy_buffer_stack_top h + 1 < yy_buffer_stack_max h)
      \<Longrightarrow> outcome e (f h) Q"
  shows "outcome e (proceed (yyensure_buffer_stack e g) f) Q"
  using assms by (intro outcome_proceed [OF ensure_result [of g "{}" st D]]) (auto simp: represents_def)

lemma loaded:
  assumes "held g U (b # st) D"
  shows "\<exists>h. yy_load_state g = Some h \<and> held (h\<lparr>yy_did_buffer_switch_on_eof := True\<rparr>) U (b # st) D
    \<and> cursor_in (h\<lparr>yy_did_buffer_switch_on_eof := True\<rparr>) (b # st)"
proof -
  obtain h where h: "yy_load_state g = Some h" "cursor_in h (b # st)" "held h U (b # st) D"
    using load_result [OF assms] by auto
  have alike: "alike h (h\<lparr>yy_did_buffer_switch_on_eof := True\<rparr>)" by (simp add: alike_def layout_def fun_eq_iff)
  have "cursor_in (h\<lparr>yy_did_buffer_switch_on_eof := True\<rparr>) (b # st)"
    using h(2) alike_parts(1,2) [OF alike] by (simp add: cursor_in_def)
  then show ?thesis using h alike_parts(6) [OF alike] by auto
qed

lemma switch_held:
  assumes "held g U st D" "cursor_in g st" "b \<in> D"
  shows "outcome e (yy_switch_to_buffer e b g) (\<lambda>h. held h U (b # tl st) (set (take 1 st) \<union> (D - {b}))
    \<and> cursor_in h (b # tl st))"
  unfolding yy_switch_to_buffer_def
proof (rule outcome_proceed [OF ensure_result [OF assms(1)]], elim conjE)
  fix h assume h: "held h U st D" "yy_buffer_stack h \<noteq> 0" "cursor_in g st \<longrightarrow> cursor_in h st"
  have other: "(case st of [] \<Rightarrow> 0 | b # _ \<Rightarrow> b) \<noteq> b"
    using assms(3) h(1) held_fresh(3) [OF h(1), of b] by (cases st) (auto simp: held_def)
  obtain m1 where m1: "save_current_buffer h = Some (h\<lparr>blocks := m1\<rparr>)" "held (h\<lparr>blocks := m1\<rparr>) U st D"
    using save_result [OF h(1)] h(3) assms(2) by auto
  obtain m2 where m2: "set_current_buffer b (h\<lparr>blocks := m1\<rparr>) = Some (h\<lparr>blocks := m2\<rparr>)"
    "held (h\<lparr>blocks := m2\<rparr>) U (b # tl st) (set (take 1 st) \<union> (D - {b}))"
    using replace_current [OF m1(2) _ assms(3)] h(2) by auto
  obtain k where "yy_load_state (h\<lparr>blocks := m2\<rparr>) = Some k"
    "held (k\<lparr>yy_did_buffer_switch_on_eof := True\<rparr>) U (b # tl st) (set (take 1 st) \<union> (D - {b}))"
    "cursor_in (k\<lparr>yy_did_buffer_switch_on_eof := True\<rparr>) (b # tl st)"
    using loaded [OF m2(2)] by auto
  then show "outcome e (do {
      current \<leftarrow> current_buffer h;
      if current = b then Some (Done h)
      else do {
        g \<leftarrow> save_current_buffer h;
        g \<leftarrow> set_current_buffer b g;
        g \<leftarrow> yy_load_state g;
        Some (Done (g\<lparr>yy_did_buffer_switch_on_eof := True\<rparr>))
      }
    }) (\<lambda>h. held h U (b # tl st) (set (take 1 st) \<union> (D - {b})) \<and> cursor_in h (b # tl st))"
    using held_current [OF h(1)] other m1(1) m2(1) by simp
qed

lemma switch_result:
  assumes "represents g st D"
  shows "b \<in> D \<Longrightarrow> outcome e (yy_switch_to_buffer e b g)
      (\<lambda>h. represents h (b # tl st) (set (take 1 st) \<union> (D - {b})))"
    "st \<noteq> [] \<Longrightarrow> outcome e (yy_switch_to_buffer e (hd st) g) (\<lambda>h. represents h st D)"
proof -
  show "outcome e (yy_switch_to_buffer e b g) (\<lambda>h. represents h (b # tl st) (set (take 1 st) \<union> (D - {b})))" if "b \<in> D"
    using switch_held [OF _ _ that, of g "{}" st e] assms by (simp add: represents_def)
  show "outcome e (yy_switch_to_buffer e (hd st) g) (\<lambda>h. represents h st D)" if "st \<noteq> []"
    unfolding yy_switch_to_buffer_def
  proof (rule proceed_ensure [OF assms])
    fix h assume h: "represents h st D"
    then have "current_buffer h = Some (case st of [] \<Rightarrow> 0 | b # _ \<Rightarrow> b)"
      by (intro held_current [of h "{}" st D]) (simp add: represents_def)
    then have "current_buffer h = Some (hd st)" using that by (cases st) simp_all
    then show "outcome e (do {
        current \<leftarrow> current_buffer h;
        if current = hd st then Some (Done h)
        else do {
          g \<leftarrow> save_current_buffer h;
          g \<leftarrow> set_current_buffer (hd st) g;
          g \<leftarrow> yy_load_state g;
          Some (Done (g\<lparr>yy_did_buffer_switch_on_eof := True\<rparr>))
        }
      }) (\<lambda>h. represents h st D)"
      using h by simp
  qed
qed

lemma push_result:
  assumes "represents g st D" "b \<in> D"
  shows "outcome e (yypush_buffer_state e b g) (\<lambda>h. represents h (b # st) (D - {b}))"
proof -
  have b: "b \<noteq> 0" using assms held_fresh(3) [of g "{}" st D b] by (simp add: represents_def)
  have pushed: "outcome e (do {
        g \<leftarrow> save_current_buffer h;
        current \<leftarrow> current_buffer g;
        let g = (if current \<noteq> 0 then g\<lparr>yy_buffer_stack_top := yy_buffer_stack_top g + 1\<rparr> else g);
        g \<leftarrow> set_current_buffer b g;
        g \<leftarrow> yy_load_state g;
        Some (Done (g\<lparr>yy_did_buffer_switch_on_eof := True\<rparr>))
      }) (\<lambda>h. represents h (b # st) (D - {b}))"
    if h: "represents h st D" "yy_buffer_stack h \<noteq> 0" "st \<noteq> [] \<longrightarrow> yy_buffer_stack_top h + 1 < yy_buffer_stack_max h" for h
  proof -
    have held: "held h {} st D" "cursor_in h st" using h(1) by (simp_all add: represents_def)
    obtain m1 where m1: "save_current_buffer h = Some (h\<lparr>blocks := m1\<rparr>)" "held (h\<lparr>blocks := m1\<rparr>) {} st D"
      using save_result [OF held] by auto
    let ?k = "if st \<noteq> [] then h\<lparr>blocks := m1, yy_buffer_stack_top := yy_buffer_stack_top h + 1\<rparr> else h\<lparr>blocks := m1\<rparr>"
    have "\<exists>k. set_current_buffer b ?k = Some k \<and> held k {} (b # st) (D - {b})"
    proof (cases "st = []")
      case True
      then show ?thesis using replace_current [OF m1(2) _ assms(2)] h(2) by auto
    next
      case False
      then show ?thesis using push_current [OF m1(2) _ assms(2) False] h(2,3) by auto
    qed
    then obtain k where k: "set_current_buffer b ?k = Some k" "held k {} (b # st) (D - {b})" by blast
    obtain l where l: "yy_load_state k = Some l" "represents (l\<lparr>yy_did_buffer_switch_on_eof := True\<rparr>) (b # st) (D - {b})"
      using loaded [OF k(2)] by (auto simp: represents_def)
    have current: "current_buffer (h\<lparr>blocks := m1\<rparr>) = Some (case st of [] \<Rightarrow> 0 | b # _ \<Rightarrow> b)"
      by (rule held_current [OF m1(2)])
    show ?thesis
    proof (cases st)
      case Nil
      then show ?thesis using m1(1) current k(1) l by simp
    next
      case (Cons c rest)
      then have "c \<noteq> 0" using held_fresh(3) [OF held(1), of c] by simp
      then show ?thesis using Cons m1(1) current k(1) l by simp
    qed
  qed
  show ?thesis
    unfolding yypush_buffer_state_def using b pushed by (simp, intro proceed_ensure [OF assms(1)]) auto
qed

lemma delete_current:
  assumes "held g {} (b # rest) D"
  shows "\<exists>m xs. yy_delete_buffer b g = Some (g\<lparr>blocks := m\<rparr>)
    \<and> layout g (yy_buffer_stack g) = Some (Stack xs) \<and> yy_buffer_stack_top g = length rest
    \<and> yy_buffer_stack_max g = length xs \<and> length rest < length xs \<and> take (length rest) xs = rev rest
    \<and> layout (g\<lparr>blocks := m\<rparr>) = (layout g)(yy_buffer_stack g := Some (Stack (xs[length rest := 0])), chars_of g b := None, b := None)
    \<and> set_current_buffer 0 (g\<lparr>blocks := m\<rparr>) = Some (g\<lparr>blocks := m\<rparr>)"
proof -
  have b: "b \<in> set (b # rest) \<union> D" by simp
  have stack: "yy_buffer_stack g \<noteq> 0" using assms by (auto simp: held_def holds_stack_def holds_buffers_def)
  obtain xs where xs: "layout g (yy_buffer_stack g) = Some (Stack xs)" "length xs = yy_buffer_stack_max g"
    "yy_buffer_stack_top g < yy_buffer_stack_max g" "take (Suc (yy_buffer_stack_top g)) xs = rev rest @ [b]"
    using stack_slots_held [OF assms stack] by auto
  have "length (take (Suc (yy_buffer_stack_top g)) xs) = length (rev rest @ [b])" using xs(4) by simp
  then have top: "yy_buffer_stack_top g = length rest" using xs(2,3) by simp
  then have take: "take (length rest) xs = rev rest"
    using xs(2-4) by (simp add: take_Suc_conv_app_nth)
  obtain m1 where m1: "set_current_buffer 0 g = Some (g\<lparr>blocks := m1\<rparr>)"
    "layout (g\<lparr>blocks := m1\<rparr>) = (layout g)(yy_buffer_stack g := Some (Stack (xs[length rest := 0])))"
    using set_current_layout [OF xs(1), of 0] xs(2,3) top by auto
  obtain m where m: "do { s \<leftarrow> buffer_at (g\<lparr>blocks := m1\<rparr>) b;
      g \<leftarrow> (if bs_is_our_buffer s then yyfree (bs_ch_buf s) (g\<lparr>blocks := m1\<rparr>) else Some (g\<lparr>blocks := m1\<rparr>)); yyfree b g }
      = Some (g\<lparr>blocks := m\<rparr>)"
    "layout (g\<lparr>blocks := m\<rparr>) = (layout g)(yy_buffer_stack g := Some (Stack (xs[length rest := 0])), chars_of g b := None, b := None)"
    using free_held [OF assms b m1(2)] by auto
  have "yy_delete_buffer b g = Some (g\<lparr>blocks := m\<rparr>)"
    using m(1) m1(1) held_current [OF assms] held_fresh(3) [OF assms b] by (simp add: yy_delete_buffer_def)
  moreover have "set_current_buffer 0 (g\<lparr>blocks := m\<rparr>) = Some (g\<lparr>blocks := m\<rparr>)"
  proof -
    have "layout (g\<lparr>blocks := m\<rparr>) (yy_buffer_stack g) = Some (Stack (xs[length rest := 0]))"
      using m(2) distinct_blocks(1,2) [OF assms b] by simp
    then have slots: "m (yy_buffer_stack g) = Some (Slots (xs[length rest := 0]))" by (simp add: layout_cases)
    then have "m(yy_buffer_stack g \<mapsto> Slots (xs[length rest := 0])) = m" by (simp add: fun_upd_idem)
    then show ?thesis using slots xs(2,3) top by (simp add: set_current_buffer_def stack_slots_def)
  qed
  ultimately show ?thesis using m(2) xs(1-3) top take by auto
qed

lemma pop_result:
  assumes "represents g st D"
  shows "\<exists>h. yypop_buffer_state g = Some h \<and> represents h (tl st) D"
proof (cases st)
  case Nil
  then show ?thesis
    using assms held_current [of g "{}" st D] by (simp add: represents_def yypop_buffer_state_def)
next
  case (Cons b rest)
  have held: "held g {} (b # rest) D" using assms Cons by (simp add: represents_def)
  have b: "b \<in> set (b # rest) \<union> D" by simp
  obtain m xs where m: "yy_delete_buffer b g = Some (g\<lparr>blocks := m\<rparr>)"
    "layout g (yy_buffer_stack g) = Some (Stack xs)" "yy_buffer_stack_top g = length rest"
    "yy_buffer_stack_max g = length xs" "length rest < length xs" "take (length rest) xs = rev rest"
    "layout (g\<lparr>blocks := m\<rparr>) = (layout g)(yy_buffer_stack g := Some (Stack (xs[length rest := 0])), chars_of g b := None, b := None)"
    "set_current_buffer 0 (g\<lparr>blocks := m\<rparr>) = Some (g\<lparr>blocks := m\<rparr>)"
    using delete_current [OF held] by blast
  let ?h = "g\<lparr>blocks := m, yy_buffer_stack_top := length rest - 1\<rparr>"
  have L: "layout ?h = (layout g)(yy_buffer_stack g := Some (Stack (xs[length rest := 0])), chars_of g b := None, b := None)"
    using m(7) by (simp add: layout_def fun_eq_iff)
  have top: "layout ?h (yy_buffer_stack g) = Some (Stack (xs[length rest := 0]))"
    using L distinct_blocks(1,2) [OF held b] by simp
  have stack: "holds_stack ?h rest"
    using top m(4-6) by (cases rest) (auto simp: holds_stack_def)
  have sets: "set rest \<union> D = set (b # rest) \<union> D - {b}" "distinct rest" "set rest \<inter> D = {}"
    using held by (auto simp: held_def)
  have held': "held ?h {} rest D"
    by (rule removed_buffer(1) [OF held b L _ _ _ _ sets(1) stack sets(2,3)]) (use m(2) in auto)
  have same: "(if 0 < yy_buffer_stack_top (g\<lparr>blocks := m\<rparr>)
      then g\<lparr>blocks := m, yy_buffer_stack_top := yy_buffer_stack_top (g\<lparr>blocks := m\<rparr>) - 1\<rparr> else g\<lparr>blocks := m\<rparr>) = ?h"
    using m(3) by auto
  have current: "current_buffer g = Some b" "b \<noteq> 0"
    using held_current [OF held] held_fresh(3) [OF held b] by simp_all
  have "yypop_buffer_state g = (let g = (if 0 < yy_buffer_stack_top (g\<lparr>blocks := m\<rparr>)
      then g\<lparr>blocks := m, yy_buffer_stack_top := yy_buffer_stack_top (g\<lparr>blocks := m\<rparr>) - 1\<rparr> else g\<lparr>blocks := m\<rparr>)
    in do {
      current \<leftarrow> current_buffer g;
      if current \<noteq> 0 then do { g \<leftarrow> yy_load_state g; Some (g\<lparr>yy_did_buffer_switch_on_eof := True\<rparr>) } else Some g })"
    using current m(1,8) by (simp add: yypop_buffer_state_def)
  then have pop: "yypop_buffer_state g = do {
      current \<leftarrow> current_buffer ?h;
      if current \<noteq> 0 then do { g \<leftarrow> yy_load_state ?h; Some (g\<lparr>yy_did_buffer_switch_on_eof := True\<rparr>) } else Some ?h }"
    unfolding same Let_def .
  have now: "current_buffer ?h = Some (case rest of [] \<Rightarrow> 0 | b # _ \<Rightarrow> b)" by (rule held_current [OF held'])
  show ?thesis
  proof (cases rest)
    case Nil
    then show ?thesis using pop now held' Cons
      by (simp add: represents_def cursor_in_def)
  next
    case (Cons c cs)
    then have "c \<noteq> 0" using held_fresh(3) [OF held', of c] by simp
    moreover obtain k where "yy_load_state ?h = Some k" "held (k\<lparr>yy_did_buffer_switch_on_eof := True\<rparr>) {} rest D"
      "cursor_in (k\<lparr>yy_did_buffer_switch_on_eof := True\<rparr>) rest"
      using loaded [of ?h "{}" c cs D] held' Cons by auto
    ultimately show ?thesis using pop now \<open>st = b # rest\<close> Cons
      by (simp add: represents_def)
  qed
qed

lemma provide_result:
  assumes "represents g st D"
  shows "outcome e (yy_provide_buffer e junk g) (\<lambda>h. if st = [] then \<exists>b. b \<notin> D \<and> held h {} [b] D else h = g)"
proof (cases st)
  case Nil
  then have current: "current_buffer g = Some 0"
    using assms held_current [of g "{}" st D] by (simp add: represents_def)
  have "outcome e (proceed (yyensure_buffer_stack e g) (\<lambda>g.
       proceed (yy_create_state e junk (yyin g) 16384 g) (\<lambda>(b, g). finished (set_current_buffer b g))))
    (\<lambda>h. \<exists>b. b \<notin> D \<and> held h {} [b] D)"
  proof (rule proceed_ensure [OF assms])
    fix h assume h: "represents h st D" "yy_buffer_stack h \<noteq> 0"
    have held: "held h {} [] D" using h(1) Nil by (simp add: represents_def)
    show "outcome e (proceed (yy_create_state e junk (yyin h) 16384 h) (\<lambda>(b, g). finished (set_current_buffer b g)))
      (\<lambda>h. \<exists>b. b \<notin> D \<and> held h {} [b] D)"
    proof (rule outcome_pair [OF create_result [OF held, of 16384 e junk "yyin h"]], simp, simp, elim conjE)
      fix b k assume k: "b \<notin> set [] \<union> D" "held k {} [] (insert b D)" "same_stack h k"
      have stack: "yy_buffer_stack k \<noteq> 0" using k(3) h(2) by (simp add: same_stack_def)
      obtain m where "set_current_buffer b k = Some (k\<lparr>blocks := m\<rparr>)"
        "held (k\<lparr>blocks := m\<rparr>) {} [b] (insert b D - {b})"
        using replace_current [OF k(2) stack, of b] by auto
      moreover have "insert b D - {b} = D" using k(1) by auto
      ultimately show "outcome e (finished (set_current_buffer b k)) (\<lambda>h. \<exists>b. b \<notin> D \<and> held h {} [b] D)"
        using k(1) by (intro outcome_finished [of _ "k\<lparr>blocks := m\<rparr>"]) auto
    qed
  qed
  then show ?thesis using Nil current by (simp add: yy_provide_buffer_def)
next
  case (Cons b rest)
  have held: "held g {} (b # rest) D" using assms Cons by (simp add: represents_def)
  have "current_buffer g = Some b" "b \<noteq> 0" using held_current [OF held] held_fresh(3) [OF held, of b] by simp_all
  then show ?thesis using Cons by (simp add: yy_provide_buffer_def)
qed

lemma restart_result:
  assumes "represents g st D"
  shows "outcome e (yy_restart e junk file g) (\<lambda>h. \<exists>b. b \<notin> D \<and> represents h (if st = [] then [b] else st) D)"
  unfolding yy_restart_def
proof (rule outcome_proceed [OF provide_result [OF assms]])
  fix g1 assume g1: "if st = [] then \<exists>b. b \<notin> D \<and> held g1 {} [b] D else g1 = g"
  have "\<exists>b rest. held g1 {} (b # rest) D \<and> b # rest = (if st = [] then [b] else st)"
    using g1 assms by (cases st) (auto simp: represents_def)
  then obtain b rest where b: "held g1 {} (b # rest) D" "b # rest = (if st = [] then [b] else st)" by blast
  obtain h where h: "yy_init_state b file g1 = Some h" "held h {} (b # rest) D"
    using init_result [OF b(1), of b "file"] by auto
  obtain k where k: "yy_load_state h = Some k" "cursor_in k (b # rest)" "held k {} (b # rest) D"
    using load_result [OF h(2)] by auto
  have "b \<notin> D" using b(1) by (auto simp: held_def)
  then have "\<exists>c. c \<notin> D \<and> represents k (if st = [] then [c] else st) D"
    using k(2,3) b(2) by (intro exI [of _ b]) (simp add: represents_def)
  then show "outcome e (do { b \<leftarrow> current_buffer g1; g \<leftarrow> yy_init_state b file g1; finished (yy_load_state g) })
      (\<lambda>h. \<exists>b. b \<notin> D \<and> represents h (if st = [] then [b] else st) D)"
    using held_current [OF b(1)] h(1) k(1) by simp
qed

lemma represents_alike: "alike g h \<Longrightarrow> sg_c_buf_p h = sg_c_buf_p g \<Longrightarrow> represents g st D \<Longrightarrow> represents h st D"
  using alike_parts [of g h] by (simp add: represents_def cursor_in_def)

lemma begin_result:
  assumes "represents g st D" "\<not> yy_init g"
  shows "outcome e (yylex_begin e junk std_in std_out g) (\<lambda>h. \<exists>b. b \<notin> D \<and> represents h (if st = [] then [b] else st) D)"
proof -
  let ?g = "g\<lparr>yy_init := True, yy_start := if yy_start g = 0 then 1 else yy_start g,
    yyin := if yyin g = 0 then std_in else yyin g, yyout := if yyout g = 0 then std_out else yyout g\<rparr>"
  have "alike g ?g" by (simp add: alike_def layout_def fun_eq_iff)
  then have rep: "represents ?g st D" using represents_alike [of g ?g st D] assms(1) by simp
  have "outcome e (proceed (yy_provide_buffer e junk ?g) (\<lambda>g. finished (yy_load_state g)))
    (\<lambda>h. \<exists>b. b \<notin> D \<and> represents h (if st = [] then [b] else st) D)"
  proof (rule outcome_proceed [OF provide_result [OF rep]])
    fix g1 assume g1: "if st = [] then \<exists>b. b \<notin> D \<and> held g1 {} [b] D else g1 = ?g"
    have "\<exists>b rest. held g1 {} (b # rest) D \<and> b # rest = (if st = [] then [b] else st)"
      using g1 rep by (cases st) (auto simp: represents_def)
    then obtain b rest where b: "held g1 {} (b # rest) D" "b # rest = (if st = [] then [b] else st)" by blast
    obtain k where k: "yy_load_state g1 = Some k" "cursor_in k (b # rest)" "held k {} (b # rest) D"
      using load_result [OF b(1)] by auto
    have "b \<notin> D" using b(1) by (auto simp: held_def)
    then have "\<exists>c. c \<notin> D \<and> represents k (if st = [] then [c] else st) D"
      using k(2,3) b(2) by (intro exI [of _ b]) (simp add: represents_def)
    then show "outcome e (finished (yy_load_state g1)) (\<lambda>h. \<exists>b. b \<notin> D \<and> represents h (if st = [] then [b] else st) D)"
      using k(1) by (intro outcome_finished)
  qed
  then show ?thesis using assms(2) by (simp add: yylex_begin_def)
qed

section \<open>Scanning bytes\<close>

lemma copy_bytes_eq:
  assumes "blocks g p = Some (Chars cs)" "i + length bs \<le> length cs"
  shows "copy_bytes bs p i g = Some (g\<lparr>blocks := (blocks g)(p \<mapsto> Chars (take i cs @ bs @ drop (i + length bs) cs))\<rparr>)"
  using assms
proof (induction bs arbitrary: i g cs)
  case Nil
  then have "(blocks g)(p \<mapsto> Chars cs) = blocks g" by (simp add: fun_upd_idem)
  then show ?case by simp
next
  case (Cons c bs)
  let ?g = "g\<lparr>blocks := (blocks g)(p \<mapsto> Chars (cs[i := c]))\<rparr>"
  have "copy_bytes bs p (i + 1) ?g
      = Some (?g\<lparr>blocks := (blocks ?g)(p \<mapsto> Chars (take (i + 1) (cs[i := c]) @ bs @ drop (i + 1 + length bs) (cs[i := c])))\<rparr>)"
    using Cons.prems by (intro Cons.IH) simp_all
  moreover have "put_char (p, i) c g = Some ?g" using Cons.prems by (simp add: put_char_def)
  then have "copy_bytes (c # bs) p i g = copy_bytes bs p (i + 1) ?g" by simp
  moreover have "take (i + 1) (cs[i := c]) @ bs @ drop (i + 1 + length bs) (cs[i := c])
      = take i cs @ (c # bs) @ drop (i + length (c # bs)) cs"
    using Cons.prems(2) by (simp add: take_Suc_conv_app_nth)
  moreover have "?g\<lparr>blocks := (blocks ?g)(p \<mapsto> x)\<rparr> = g\<lparr>blocks := (blocks g)(p \<mapsto> x)\<rparr>" for x by simp
  ultimately show ?case by presburger
qed

text \<open>The block of a buffer becomes one that the scanner owns.\<close>

lemma take_over:
  assumes "held g {b} st D" "b \<in> set st \<union> D"
  shows "\<exists>m. put_buffer b (\<lambda>s. s\<lparr>bs_is_our_buffer := True\<rparr>) g = Some (g\<lparr>blocks := m\<rparr>)
    \<and> held (g\<lparr>blocks := m\<rparr>) {} st D \<and> (cursor_in g st \<longrightarrow> cursor_in (g\<lparr>blocks := m\<rparr>) st)"
proof -
  obtain n i where b: "layout g b = Some (Header (chars_of g b) (b \<notin> {b}) n (chars_of g b, i))" "layout g 0 = None"
    using held_header [OF assms] by metis
  then obtain s where s: "blocks g b = Some (Buffer s)" "bs_ch_buf s = chars_of g b" "bs_buf_size s = n"
    "bs_buf_pos s = (chars_of g b, i)"
    by (auto simp: layout_cases)
  let ?m = "(blocks g)(b \<mapsto> Buffer (s\<lparr>bs_is_our_buffer := True\<rparr>))"
  have L: "layout (g\<lparr>blocks := ?m\<rparr>) = (layout g)(b \<mapsto> Header (chars_of g b) True n (chars_of g b, i))"
    using s by (auto simp: layout_def fun_eq_iff)
  note same = chars_of_header [OF b(1) L]
  have own: "owned (g\<lparr>blocks := ?m\<rparr>) {} c" if "owned g {b} c" for c
    using that L b(1) same by (auto simp: owned_def split: if_splits)
  then have "holds_buffers (g\<lparr>blocks := ?m\<rparr>) {} (set st \<union> D)"
    using assms b L same by (auto simp: held_def holds_buffers_def)
  moreover have "holds_stack (g\<lparr>blocks := ?m\<rparr>) st"
    using holds_stack_header [OF _ b(2,1) L] assms(1) by (simp add: held_def)
  ultimately have "held (g\<lparr>blocks := ?m\<rparr>) {} st D" using assms(1) by (simp add: held_def)
  moreover have "cursor_in g st \<longrightarrow> cursor_in (g\<lparr>blocks := ?m\<rparr>) st" using same by (simp add: cursor_in_def)
  moreover have "put_buffer b (\<lambda>s. s\<lparr>bs_is_our_buffer := True\<rparr>) g = Some (g\<lparr>blocks := ?m\<rparr>)"
    using s(1) by (simp add: put_buffer_def buffer_at_def)
  ultimately show ?thesis by blast
qed

lemma scan_bytes_filled:
  assumes "length bytes \<le> 2147483645" "allocates e (length bytes + 2)"
  shows "yy_scan_bytes e junk bytes g = proceed (yy_scan_buffer e junk (brk g) (length bytes + 2)
    (g\<lparr>blocks := (blocks g)(brk g \<mapsto> Chars (bytes @ [0, 0])), brk := brk g + 1\<rparr>)) (\<lambda>(b, g).
      if b = 0 then Some Fatal
      else do { g \<leftarrow> put_buffer b (\<lambda>s. s\<lparr>bs_is_our_buffer := True\<rparr>) g; Some (Done (b, g)) })"
proof -
  let ?p = "brk g" and ?n = "length bytes"
  obtain cs where cs: "yyalloc e (?n + 2) = Some cs" "length cs = ?n + 2"
    using assms(2) by (simp add: yyalloc_def)
  obtain g1 where g1: "g1 = g\<lparr>blocks := (blocks g)(?p \<mapsto> Chars cs), brk := ?p + 1\<rparr>" by blast
  obtain ds where ds: "ds = bytes @ drop ?n cs" "length ds = ?n + 2" using cs(2) by simp
  have copy: "copy_bytes bytes ?p 0 g1 = Some (g1\<lparr>blocks := (blocks g1)(?p \<mapsto> Chars ds)\<rparr>)"
    using copy_bytes_eq [of g1 ?p cs 0 bytes] cs(2) ds(1) by (simp add: g1)
  obtain g2 where g2: "g2 = g1\<lparr>blocks := (blocks g1)(?p \<mapsto> Chars ds)\<rparr>" by blast
  have put1: "put_char (?p, ?n + 1) 0 g2 = Some (g2\<lparr>blocks := (blocks g2)(?p \<mapsto> Chars (ds[?n + 1 := 0]))\<rparr>)"
    using ds(2) by (simp add: put_char_def g2)
  obtain g3 where g3: "g3 = g2\<lparr>blocks := (blocks g2)(?p \<mapsto> Chars (ds[?n + 1 := 0]))\<rparr>" by blast
  have put2: "put_char (?p, ?n) 0 g3 = Some (g3\<lparr>blocks := (blocks g3)(?p \<mapsto> Chars (ds[?n + 1 := 0, ?n := 0]))\<rparr>)"
    using ds(2) by (simp add: put_char_def g3)
  have "drop ?n cs = [cs ! ?n, cs ! (?n + 1)]" using cs(2) by (simp add: Cons_nth_drop_Suc [symmetric])
  then have final: "ds[?n + 1 := 0, ?n := 0] = bytes @ [0, 0]" by (simp add: ds(1) list_update_append)
  have "g3\<lparr>blocks := (blocks g3)(?p \<mapsto> Chars (bytes @ [0, 0]))\<rparr>
      = g\<lparr>blocks := (blocks g)(?p \<mapsto> Chars (bytes @ [0, 0])), brk := ?p + 1\<rparr>"
    by (simp add: g1 g2 g3)
  with put2 final have put3: "put_char (?p, ?n) 0 g3
      = Some (g\<lparr>blocks := (blocks g)(?p \<mapsto> Chars (bytes @ [0, 0])), brk := ?p + 1\<rparr>)" by simp
  have "new_block (Chars cs) g = (?p, g1)" by (simp add: new_block_def g1)
  then show ?thesis using assms(1) cs(1) copy put1 put3 g2 g3
    by (simp add: yy_scan_bytes_def Let_def)
qed

lemma scan_bytes_result:
  assumes "represents g st D" "length bytes \<le> 2147483645"
  shows "outcome e (yy_scan_bytes e junk bytes g) (\<lambda>(b, h). b \<notin> set st \<union> D
    \<and> represents h (b # tl st) (set (take 1 st) \<union> D))"
proof (cases "allocates e (length bytes + 2)")
  case False
  then show ?thesis using assms(2) by (auto simp: yy_scan_bytes_def yyalloc_def outcome_def)
next
  case True
  let ?p = "brk g" and ?n = "length bytes"
  have held: "held g {} st D" and cursor: "cursor_in g st" using assms(1) by (simp_all add: represents_def)
  obtain g4 where g4: "g4 = g\<lparr>blocks := (blocks g)(?p \<mapsto> Chars (bytes @ [0, 0])), brk := ?p + 1\<rparr>" by blast
  obtain s where s: "s = junk\<lparr>bs_buf_size := int (?n + 2) - 2, bs_ch_buf := ?p, bs_buf_pos := (?p, 0),
    bs_is_our_buffer := False, bs_input_file := 0, bs_n_chars := int (?n + 2) - 2, bs_is_interactive := False,
    bs_at_bol := True, bs_fill_buffer := False, bs_status := Buffer_new\<rparr>" by blast
  let ?b = "?p + 1"
  let ?m5 = "(blocks g)(?p \<mapsto> Chars (bytes @ [0, 0]), ?b \<mapsto> Buffer s)"
  let ?g5 = "g\<lparr>blocks := ?m5, brk := ?p + 2\<rparr>"
  have zeros: "char_at g4 (?p, ?n) = Some 0" "char_at g4 (?p, ?n + 1) = Some 0"
    by (simp_all add: char_at_def g4 nth_append)
  have "new_block (Buffer s) g4 = (?b, ?g5)" by (simp add: new_block_def g4)
  then have scan: "yy_scan_buffer e junk ?p (?n + 2) g4
      = (if allocates e 64 then proceed (yy_switch_to_buffer e ?b ?g5) (\<lambda>g. Some (Done (?b, g))) else Some Fatal)"
    using zeros s by (simp add: yy_scan_buffer_def Let_def)
  have L: "layout (g\<lparr>blocks := ?m5\<rparr>) = (layout g)(?p \<mapsto> Room (?n + 2), ?b \<mapsto> Header ?p False (int ?n) (?p, 0))"
    by (auto simp: layout_def fun_eq_iff s)
  have new: "?b \<notin> set st \<union> D" "0 < ?p"
    using held_fresh(1) [OF held, of ?b] held by (auto simp: held_def holds_buffers_def)
  note made = held_new_buffer [OF held _ _ _ _ _ _ _ _ _ _ _ _ L, of "?p + 2" "{?b}"]
  have held5: "held ?g5 {?b} st (insert ?b D)" by (rule made(1)) (use new(2) in auto)
  have same: "chars_of ?g5 c = chars_of g c \<and> room ?g5 (chars_of g c) = room g (chars_of g c)" if "c \<in> set st \<union> D" for c
    by (rule made(2)) (use new(2) that in auto)
  have cursor5: "cursor_in ?g5 st" using cursor same [of "hd st"] by (cases st) (auto simp: cursor_in_def)
  have D: "set (take 1 st) \<union> (insert ?b D - {?b}) = set (take 1 st) \<union> D" using new(1) by auto
  have "outcome e (yy_scan_buffer e junk ?p (?n + 2) g4) (\<lambda>(b, h). b = ?b \<and> held h {?b} (?b # tl st) (set (take 1 st) \<union> D)
      \<and> cursor_in h (?b # tl st))"
    unfolding scan using switch_held [OF held5 cursor5, of ?b e] D
    by (auto simp: outcome_def proceed_def)
  then show ?thesis
    unfolding scan_bytes_filled [OF assms(2) True] g4 [symmetric]
  proof (rule outcome_pair, elim conjE)
    fix b h assume b: "b = ?b" and h: "held h {?b} (?b # tl st) (set (take 1 st) \<union> D)" "cursor_in h (?b # tl st)"
    obtain m where "put_buffer ?b (\<lambda>s. s\<lparr>bs_is_our_buffer := True\<rparr>) h = Some (h\<lparr>blocks := m\<rparr>)"
      "represents (h\<lparr>blocks := m\<rparr>) (?b # tl st) (set (take 1 st) \<union> D)"
      using take_over [OF h(1)] h(2) by (auto simp: represents_def)
    then show "outcome e (if b = 0 then Some Fatal
        else do { g \<leftarrow> put_buffer b (\<lambda>s. s\<lparr>bs_is_our_buffer := True\<rparr>) h; Some (Done (b, g)) })
      (\<lambda>(b, h). b \<notin> set st \<union> D \<and> represents h (b # tl st) (set (take 1 st) \<union> D))"
      using b new(1) by simp
  qed
qed

end
