(* ===== verification/BufferProperties.thy ===== *)
theory BufferProperties
  imports BufferStack
begin

text \<open>
  The properties of the buffers of the scanner: the calls of a client against a stack and a set of buffers, and
  what the destruction of the scanner leaves allocated.
\<close>

section \<open>The calls of a client\<close>

datatype buffer_call = Create nat int | Push nat | Pop | Delete nat | Switch nat | Flush nat | Restart nat
  | Scan "u8 list"

fun call_buffers :: "'s platform \<Rightarrow> yy_buffer_state \<Rightarrow> buffer_call \<Rightarrow> yyscan \<Rightarrow> yyscan lexed option" where
  "call_buffers e junk (Create file n) g = proceed (yy_create_state e junk file n g) (\<lambda>(b, g). Some (Done g))"
| "call_buffers e junk (Push b) g = yypush_buffer_state e b g"
| "call_buffers e junk Pop g = finished (yypop_buffer_state g)"
| "call_buffers e junk (Delete b) g = finished (yy_delete_buffer b g)"
| "call_buffers e junk (Switch b) g = yy_switch_to_buffer e b g"
| "call_buffers e junk (Flush b) g = finished (yy_flush_state b g)"
| "call_buffers e junk (Restart file) g = yy_restart e junk file g"
| "call_buffers e junk (Scan bytes) g = proceed (yy_scan_bytes e junk bytes g) (\<lambda>(b, g). Some (Done g))"

text \<open>
  A client pushes, deletes and switches to buffers that it holds, or switches to the current one; a size and
  the room for the two last bytes fit in an integer.
\<close>

fun permitted :: "buffer_call \<Rightarrow> nat list \<Rightarrow> nat set \<Rightarrow> bool" where
  "permitted (Create file n) st D \<longleftrightarrow> 0 \<le> n \<and> n \<le> 2147483645"
| "permitted (Push b) st D \<longleftrightarrow> b \<in> D"
| "permitted Pop st D \<longleftrightarrow> True"
| "permitted (Delete b) st D \<longleftrightarrow> b \<in> D"
| "permitted (Switch b) st D \<longleftrightarrow> b \<in> D \<or> b \<in> set (take 1 st)"
| "permitted (Flush b) st D \<longleftrightarrow> b \<in> set st \<union> D"
| "permitted (Restart file) st D \<longleftrightarrow> True"
| "permitted (Scan bytes) st D \<longleftrightarrow> length bytes \<le> 2147483645"

text \<open>What a call does to the stack and the set; \<open>a\<close> is the buffer it creates, if any.\<close>

fun effect :: "nat \<Rightarrow> buffer_call \<Rightarrow> nat list \<Rightarrow> nat set \<Rightarrow> nat list \<times> nat set" where
  "effect a (Create file n) st D = (st, insert a D)"
| "effect a (Push b) st D = (b # st, D - {b})"
| "effect a Pop st D = (tl st, D)"
| "effect a (Delete b) st D = (st, D - {b})"
| "effect a (Switch b) st D = (if b \<in> D then (b # tl st, set (take 1 st) \<union> (D - {b})) else (st, D))"
| "effect a (Flush b) st D = (st, D)"
| "effect a (Restart file) st D = (if st = [] then [a] else st, D)"
| "effect a (Scan bytes) st D = (a # tl st, set (take 1 st) \<union> D)"

lemma represents_finite:
  assumes "represents g st D" shows "\<exists>a. a \<notin> set st \<union> D"
proof -
  have "brk g \<notin> set st \<union> D" using assms held_fresh(1) [of g "{}" st D "brk g"] by (auto simp: represents_def)
  then show ?thesis by blast
qed

lemma call_effect:
  assumes "represents g st D" "permitted c st D"
  shows "outcome e (call_buffers e junk c g)
    (\<lambda>h. \<exists>a. a \<notin> set st \<union> D \<and> (case effect a c st D of (st', D') \<Rightarrow> represents h st' D'))"
proof -
  have held: "held g {} st D" and cursor: "cursor_in g st" using assms(1) by (simp_all add: represents_def)
  obtain a where a: "a \<notin> set st \<union> D" using represents_finite [OF assms(1)] by blast
  show ?thesis
  proof (cases c)
    case (Create f n)
    have "outcome e (yy_create_state e junk f n g) (\<lambda>(b, h). b \<notin> set st \<union> D \<and> held h {} st (insert b D)
      \<and> (cursor_in g st \<longrightarrow> cursor_in h st) \<and> same_stack g h)"
      using assms(2) Create by (intro create_result [OF held]) simp_all
    then show ?thesis unfolding Create call_buffers.simps
      by (rule outcome_pair) (use cursor in \<open>auto simp: represents_def\<close>)
  next
    case (Push b)
    show ?thesis unfolding Push call_buffers.simps
      by (rule outcome_weaken [OF push_result [OF assms(1)]]) (use assms(2) Push a in auto)
  next
    case Pop
    then obtain h where "yypop_buffer_state g = Some h" "represents h (tl st) D"
      using pop_result [OF assms(1)] by auto
    then show ?thesis using Pop a by auto
  next
    case (Delete b)
    then obtain h where "yy_delete_buffer b g = Some h" "represents h st (D - {b})"
      using delete_result [OF assms(1), of b] assms(2) by auto
    then show ?thesis using Delete a by auto
  next
    case (Switch b)
    show ?thesis
    proof (cases "b \<in> D")
      case True
      show ?thesis unfolding Switch call_buffers.simps
        by (rule outcome_weaken [OF switch_result(1) [OF assms(1) True]]) (use True a in auto)
    next
      case False
      then have st: "st \<noteq> []" "b = hd st" using assms(2) Switch by (cases st; simp)+
      show ?thesis unfolding Switch call_buffers.simps st(2)
        by (rule outcome_weaken [OF switch_result(2) [OF assms(1) st(1)]]) (use False st(2) a in auto)
    qed
  next
    case (Flush b)
    then obtain h where "yy_flush_state b g = Some h" "represents h st D"
      using flush_result [OF held, of b] assms(2) cursor by (auto simp: represents_def)
    then show ?thesis using Flush a by auto
  next
    case (Restart f)
    show ?thesis unfolding Restart call_buffers.simps
      by (rule outcome_weaken [OF restart_result [OF assms(1)]]) (use a in \<open>auto split: if_splits\<close>)
  next
    case (Scan bytes)
    then have "length bytes \<le> 2147483645" using assms(2) by simp
    note scan_bytes_result [OF assms(1) this, of e junk]
    then show ?thesis unfolding Scan call_buffers.simps by (rule outcome_pair) auto
  qed
qed

section \<open>Destruction\<close>

lemma pop_loop_result:
  assumes "represents g st D"
  shows "\<exists>m. pop_loop (yy_buffer_stack_top g + 2) g = Some (g\<lparr>blocks := m\<rparr>)
    \<and> (yy_buffer_stack g \<noteq> 0 \<longrightarrow> layout (g\<lparr>blocks := m\<rparr>) (yy_buffer_stack g) \<noteq> None)
    \<and> (\<forall>p. p \<noteq> yy_buffer_stack g \<longrightarrow> layout (g\<lparr>blocks := m\<rparr>) p
      = (if st \<noteq> [] \<and> (p = hd st \<or> p = chars_of g (hd st)) then None else layout g p))"
proof (cases st)
  case Nil
  have held: "held g {} st D" using assms by (simp add: represents_def)
  then have "yy_buffer_stack g \<noteq> 0 \<longrightarrow> layout g (yy_buffer_stack g) \<noteq> None"
    by (auto simp: held_def holds_stack_def)
  then show ?thesis using Nil held_current [OF held] by (intro exI [of _ "blocks g"]) simp
next
  case (Cons b rest)
  have held: "held g {} (b # rest) D" using assms Cons by (simp add: represents_def)
  have b: "b \<in> set (b # rest) \<union> D" by simp
  obtain m xs where m: "yy_delete_buffer b g = Some (g\<lparr>blocks := m\<rparr>)" "yy_buffer_stack_top g = length rest"
    "length rest < length xs"
    "layout (g\<lparr>blocks := m\<rparr>) = (layout g)(yy_buffer_stack g := Some (Stack (xs[length rest := 0])), chars_of g b := None, b := None)"
    "set_current_buffer 0 (g\<lparr>blocks := m\<rparr>) = Some (g\<lparr>blocks := m\<rparr>)"
    using delete_current [OF held] by blast
  have top: "layout (g\<lparr>blocks := m\<rparr>) (yy_buffer_stack g) = Some (Stack (xs[length rest := 0]))"
    using m(4) distinct_blocks(1,2) [OF held b] by simp
  then have none: "current_buffer (g\<lparr>blocks := m\<rparr>) = Some 0"
    using m(2,3) by (auto simp: current_buffer_def stack_slots_def layout_cases)
  have current: "current_buffer g = Some b" "b \<noteq> 0"
    using held_current [OF held] held_fresh(3) [OF held b] by simp_all
  have "pop_loop (Suc (Suc (yy_buffer_stack_top g))) g = Some (g\<lparr>blocks := m\<rparr>)"
    using current m(1,5) none by (simp add: yypop_buffer_state_def)
  then show ?thesis using top m(4) Cons by (intro exI [of _ m]) (simp add: numeral_2_eq_2)
qed

lemma yyfree_null: "yyfree 0 g = Some g"
  by (simp add: yyfree_def)

lemma destroy_result:
  assumes "represents g st D"
  shows "\<exists>heap. yylex_destroy g = Some heap
    \<and> dom heap = (set (tl st) \<union> D) \<union> chars_of g ` (set (tl st) \<union> D)"
proof -
  let ?B = "set (tl st) \<union> D"
  have held: "held g {} st D" using assms by (simp add: represents_def)
  then have bufs: "holds_buffers g {} (set st \<union> D)" by (simp add: held_def)
  note ne = distinct_blocks [OF held]
  obtain m where m: "pop_loop (yy_buffer_stack_top g + 2) g = Some (g\<lparr>blocks := m\<rparr>)"
    "yy_buffer_stack g \<noteq> 0 \<Longrightarrow> layout (g\<lparr>blocks := m\<rparr>) (yy_buffer_stack g) \<noteq> None"
    "\<And>p. p \<noteq> yy_buffer_stack g \<Longrightarrow> layout (g\<lparr>blocks := m\<rparr>) p
      = (if st \<noteq> [] \<and> (p = hd st \<or> p = chars_of g (hd st)) then None else layout g p)"
    using pop_loop_result [OF assms] by blast
  have "\<exists>m'. yyfree (yy_buffer_stack g) (g\<lparr>blocks := m\<rparr>) = Some (g\<lparr>blocks := m'\<rparr>)
    \<and> (\<forall>p. layout (g\<lparr>blocks := m'\<rparr>) p = (if p = yy_buffer_stack g then None else layout (g\<lparr>blocks := m\<rparr>) p))"
  proof (cases "yy_buffer_stack g = 0")
    case True
    then have st: "st = []" using held bufs by (auto simp: held_def holds_stack_def holds_buffers_def)
    have "layout g 0 = None" using bufs by (simp add: holds_buffers_def)
    then have "layout (g\<lparr>blocks := m\<rparr>) 0 = None"
      using st m(1) held_current [OF held] by auto
    then show ?thesis using True by (intro exI [of _ m]) (auto simp: yyfree_def)
  next
    case False
    then show ?thesis using yyfree_layout [OF _ False, of "g\<lparr>blocks := m\<rparr>"] m(2) by auto
  qed
  then obtain m' where m': "yyfree (yy_buffer_stack g) (g\<lparr>blocks := m\<rparr>) = Some (g\<lparr>blocks := m'\<rparr>)"
    "\<And>p. layout (g\<lparr>blocks := m'\<rparr>) p = (if p = yy_buffer_stack g then None else layout (g\<lparr>blocks := m\<rparr>) p)"
    by blast
  have "yylex_destroy g = Some m'"
    using m(1) m'(1) held by (simp add: yylex_destroy_def yyfree_null yy_init_globals_def held_def del: pop_loop.simps)
  moreover have "dom m' = ?B \<union> chars_of g ` ?B"
  proof (intro set_eqI iffI)
    fix p assume "p \<in> dom m'"
    then have "layout (g\<lparr>blocks := m'\<rparr>) p \<noteq> None" by (auto simp: layout_blocks)
    then have p: "p \<noteq> yy_buffer_stack g" "layout g p \<noteq> None"
      "\<not> (st \<noteq> [] \<and> (p = hd st \<or> p = chars_of g (hd st)))"
      using m'(2) m(3) by (auto split: if_splits)
    then have "p \<in> (set st \<union> D) \<union> chars_of g ` (set st \<union> D)" using bufs unfolding holds_buffers_def by blast
    then show "p \<in> ?B \<union> chars_of g ` ?B" using p(3) by (cases st) auto
  next
    fix p assume p: "p \<in> ?B \<union> chars_of g ` ?B"
    then obtain c where c: "c \<in> ?B" "p = c \<or> p = chars_of g c" by blast
    have inB: "c \<in> set st \<union> D" using c(1) by (cases st) auto
    have hd: "c \<noteq> hd st" "hd st \<in> set st \<union> D" if "st \<noteq> []"
      using that c(1) held by (cases st; auto simp: held_def)+
    have "layout g c \<noteq> None" using held_header [OF held inB] by (metis option.distinct(1))
    then have "layout g p \<noteq> None" "p \<noteq> yy_buffer_stack g"
      using c(2) ne(1,2,4) [OF inB] by auto
    moreover have "\<not> (st \<noteq> [] \<and> (p = hd st \<or> p = chars_of g (hd st)))"
    proof
      assume st: "st \<noteq> [] \<and> (p = hd st \<or> p = chars_of g (hd st))"
      then have top: "c \<noteq> hd st" "hd st \<in> set st \<union> D" using hd by auto
      then have "chars_of g c \<noteq> hd st" "chars_of g (hd st) \<noteq> c" "chars_of g c \<noteq> chars_of g (hd st)"
        using ne(3) [OF inB] ne(3) [OF top(2) inB] ne(5) [OF inB] by auto
      then show False using st c(2) top(1) by auto
    qed
    ultimately have "layout (g\<lparr>blocks := m'\<rparr>) p \<noteq> None" using m'(2) m(3) by simp
    then show "p \<in> dom m'" by (auto simp: layout_blocks)
  qed
  ultimately show ?thesis by blast
qed

text \<open>A buffer under the top of the stack, and one that the client holds, stay allocated.\<close>

lemma pushed_buffer_stays:
  assumes "represents g st D" "b \<in> set (tl st) \<union> D" "yylex_destroy g = Some heap"
  shows "heap b \<noteq> None" "heap (chars_of g b) \<noteq> None"
proof -
  have "dom heap = (set (tl st) \<union> D) \<union> chars_of g ` (set (tl st) \<union> D)"
    using destroy_result [OF assms(1)] assms(3) by auto
  then have "b \<in> dom heap" "chars_of g b \<in> dom heap" using assms(2) by blast+
  then show "heap b \<noteq> None" "heap (chars_of g b) \<noteq> None" by auto
qed

section \<open>The properties\<close>

lemma initial_represents:
  "yylex_init_with v True True = (0, Some (yy_init_globals (yyset_extra v cleared)))"
  "represents (yyset_in f (yy_init_globals (yyset_extra v cleared))) [] {}"
  by (simp_all add: yylex_init_with_def represents_def held_def holds_buffers_def holds_stack_def cursor_in_def
      yyset_in_def yy_init_globals_def yyset_extra_def cleared_def layout_def)

definition demo_platform :: "u8 platform" where
  "demo_platform = \<lparr>sys_read = (\<lambda>s n. (Returned [], s)), allocates = (\<lambda>n. True), indeterminate = (\<lambda>i. 170),
     overwritten = id\<rparr>"

definition demo_junk :: yy_buffer_state where
  "demo_junk = \<lparr>bs_input_file = 9, bs_ch_buf = 9, bs_buf_pos = (9, 9), bs_buf_size = 9, bs_n_chars = 9,
     bs_is_our_buffer = False, bs_is_interactive = False, bs_at_bol = False, bs_lineno = 9, bs_column = 9,
     bs_fill_buffer = False, bs_status = Buffer_normal\<rparr>"

text \<open>C36: Every call of a client that respects the ownership of the buffers touches no block that is not allocated, ends
  the process only when an allocation fails, and otherwise does to the heap what the abstract operation does
  to a stack and a set of buffers; the current buffer is the top of that stack.\<close>

theorem buffer_calls_refine_stack:
  assumes "represents g st D" "permitted c st D"
  shows "call_buffers e junk c g = Some Fatal \<and> (\<exists>n. \<not> allocates e n)
    \<or> (\<exists>h a st' D'. call_buffers e junk c g = Some (Done h) \<and> a \<notin> set st \<union> D
      \<and> effect a c st D = (st', D') \<and> represents h st' D'
      \<and> current_buffer h = Some (case st' of [] \<Rightarrow> 0 | b # _ \<Rightarrow> b))"
proof -
  have "current_buffer h = Some (case st' of [] \<Rightarrow> 0 | b # _ \<Rightarrow> b)" if "represents h st' D'" for h st' D'
    using that held_current [of h "{}" st' D'] by (simp add: represents_def)
  then show ?thesis using call_effect [OF assms, of e junk] by (fastforce simp: outcome_def)
qed

theorem buffer_calls_refine_stack_witness:
  "\<exists>h a. call_buffers demo_platform demo_junk (Create 3 100) (yyset_in 5 (yy_init_globals (yyset_extra 7 cleared)))
      = Some (Done h) \<and> represents h [] {a} \<and> current_buffer h = Some 0"
proof -
  have "permitted (Create 3 100) [] {}" by simp
  from buffer_calls_refine_stack [OF initial_represents(2) [of 5 7] this, of demo_platform demo_junk]
  show ?thesis by (auto simp: demo_platform_def)
qed

text \<open>C38: The destruction of the scanner touches no block that is not allocated and frees the array of the stack and
  the current buffer with its characters: what stays allocated are the buffers under the top of the stack and
  those that the client holds, each with its characters, so nothing when there is only one buffer.\<close>

theorem destruction_frees_current:
  assumes "represents g st D"
  shows "\<exists>heap. yylex_destroy g = Some heap
    \<and> dom heap = (set (tl st) \<union> D) \<union> chars_of g ` (set (tl st) \<union> D)
    \<and> (length st \<le> 1 \<and> D = {} \<longrightarrow> heap = Map.empty)"
proof -
  have "tl st = []" if "length st \<le> 1" using that by (cases st) auto
  then show ?thesis using destroy_result [OF assms] by (auto simp: dom_eq_empty_conv)
qed

text \<open>The life of the scanner in \<open>gdb_scanner\<close>.\<close>

theorem destruction_frees_current_witness:
  "\<exists>g h. yylex_init_with 7 True True = (0, Some g)
    \<and> yylex_begin demo_platform demo_junk 1 2 (yyset_in 5 g) = Some (Done h) \<and> yylex_destroy h = Some Map.empty"
proof -
  let ?g = "yy_init_globals (yyset_extra 7 cleared)"
  have "\<not> yy_init (yyset_in 5 ?g)" by (simp add: yyset_in_def yy_init_globals_def)
  from begin_result [OF initial_represents(2) [of 5 7] this, of demo_platform demo_junk 1 2]
  obtain h b where h: "yylex_begin demo_platform demo_junk 1 2 (yyset_in 5 ?g) = Some (Done h)" "represents h [b] {}"
    by (auto simp: outcome_def demo_platform_def)
  then show ?thesis using destruction_frees_current [OF h(2)] initial_represents(1) by auto
qed

end
