(* ===== verification/Csapp.thy ===== *)
theory Csapp
  imports Prelude
begin

text \<open>
  The wrappers of \<open>csapp.c\<close> around the system and library calls: each makes one call, ends the process when the
  call reports an error, and returns its result otherwise.  A call is a parameter with its arguments, a function of
  the state of the system that gives a result and the state after it.  A null pointer is \<open>None\<close>, and so is the
  pointer -1 of \<open>mmap\<close>.  The end of the process is a value: the code of \<open>exit\<close> and the start of the message.
\<close>

section \<open>Errors\<close>

type_synonym ('k, 'r) sys = "'k \<Rightarrow> 'r \<times> 'k"

datatype 'a answer = Answer 'a | Process_ends int string

definition unix_error :: "string \<Rightarrow> 'a answer" where
  "unix_error msg = Process_ends 0 msg"

definition posix_error :: "string \<Rightarrow> 'a answer" where
  "posix_error msg = Process_ends 0 msg"

definition dns_error :: "string \<Rightarrow> 'a answer" where
  "dns_error msg = Process_ends 0 msg"

definition app_error :: "string \<Rightarrow> 'a answer" where
  "app_error msg = Process_ends 0 msg"

text \<open>The shape of the wrappers: a call that may fail, and a call whose result is passed on.\<close>

definition checked :: "('r \<Rightarrow> bool) \<Rightarrow> 'a answer \<Rightarrow> ('r \<Rightarrow> 'a) \<Rightarrow> 'r \<times> 'k \<Rightarrow> 'a answer \<times> 'k" where
  "checked failed error result x = (case x of (r, s) \<Rightarrow> (if failed r then error else Answer (result r), s))"

definition passed :: "'r \<times> 'k \<Rightarrow> 'r answer \<times> 'k" where
  "passed x = (case x of (r, s) \<Rightarrow> (Answer r, s))"

definition dropped :: "'r \<times> 'k \<Rightarrow> unit answer \<times> 'k" where
  "dropped x = (case x of (r, s) \<Rightarrow> (Answer (), s))"

lemma checked_simps [simp]:
  "failed r \<Longrightarrow> checked failed error result (r, s) = (error, s)"
  "\<not> failed r \<Longrightarrow> checked failed error result (r, s) = (Answer (result r), s)"
  by (simp_all add: checked_def)

lemmas errors_def = unix_error_def posix_error_def dns_error_def app_error_def

section \<open>Processes\<close>

definition Fork :: "(('k, int) sys) \<Rightarrow> 'k \<Rightarrow> int answer \<times> 'k" where
  "Fork fork s = checked (\<lambda>rc. rc < 0) (unix_error ''Fork error'') (\<lambda>rc. rc) (fork s)"

definition Execve :: "('a \<Rightarrow> 'b \<Rightarrow> 'c \<Rightarrow> ('k, int) sys) \<Rightarrow> 'a \<Rightarrow> 'b \<Rightarrow> 'c \<Rightarrow> 'k \<Rightarrow> unit answer \<times> 'k" where
  "Execve execve filename argv envp s =
     checked (\<lambda>rc. rc < 0) (unix_error ''Execve error'') (\<lambda>_. ()) (execve filename argv envp s)"

definition Wait :: "('a \<Rightarrow> ('k, int) sys) \<Rightarrow> 'a \<Rightarrow> 'k \<Rightarrow> int answer \<times> 'k" where
  "Wait wait status s =
     checked (\<lambda>rc. rc < 0) (unix_error ''Wait error'') (\<lambda>rc. rc) (wait status s)"

definition Waitpid :: "(int \<Rightarrow> 'a \<Rightarrow> int \<Rightarrow> ('k, int) sys) \<Rightarrow> int \<Rightarrow> 'a \<Rightarrow> int \<Rightarrow> 'k \<Rightarrow> int answer \<times> 'k" where
  "Waitpid waitpid pid iptr options s =
     checked (\<lambda>rc. rc < 0) (unix_error ''Waitpid error'') (\<lambda>rc. rc) (waitpid pid iptr options s)"

definition Kill :: "(int \<Rightarrow> int \<Rightarrow> ('k, int) sys) \<Rightarrow> int \<Rightarrow> int \<Rightarrow> 'k \<Rightarrow> unit answer \<times> 'k" where
  "Kill kill pid signum s =
     checked (\<lambda>rc. rc < 0) (unix_error ''Kill error'') (\<lambda>_. ()) (kill pid signum s)"

definition Pause :: "(('k, int) sys) \<Rightarrow> 'k \<Rightarrow> unit answer \<times> 'k" where
  "Pause pause s = dropped (pause s)"

text \<open>The result of \<open>sleep\<close> is unsigned: the test never holds.\<close>

definition Sleep :: "(u32 \<Rightarrow> ('k, u32) sys) \<Rightarrow> u32 \<Rightarrow> 'k \<Rightarrow> u32 answer \<times> 'k" where
  "Sleep sleep secs s = checked (\<lambda>rc. rc < 0) (unix_error ''Sleep error'') (\<lambda>rc. rc) (sleep secs s)"

definition Alarm :: "(u32 \<Rightarrow> ('k, u32) sys) \<Rightarrow> u32 \<Rightarrow> 'k \<Rightarrow> u32 answer \<times> 'k" where
  "Alarm alarm seconds s = passed (alarm seconds s)"

definition Setpgid :: "(int \<Rightarrow> int \<Rightarrow> ('k, int) sys) \<Rightarrow> int \<Rightarrow> int \<Rightarrow> 'k \<Rightarrow> unit answer \<times> 'k" where
  "Setpgid setpgid pid pgid s =
     checked (\<lambda>rc. rc < 0) (unix_error ''Setpgid error'') (\<lambda>_. ()) (setpgid pid pgid s)"

definition Getpgrp :: "(('k, int) sys) \<Rightarrow> 'k \<Rightarrow> int answer \<times> 'k" where
  "Getpgrp getpgrp s = passed (getpgrp s)"

section \<open>Signals\<close>

text \<open>The new action has an empty mask and restarts the calls that the signal interrupts.\<close>

record 'h sigaction =
  sa_handler :: 'h
  sa_mask :: "int list"
  sa_flags :: int

definition Signal :: "(int \<Rightarrow> 'h sigaction \<Rightarrow> ('k, int \<times> 'h sigaction) sys) \<Rightarrow> int \<Rightarrow> 'h \<Rightarrow> 'k \<Rightarrow> 'h answer \<times> 'k" where
  "Signal sigaction signum handler s =
     checked (\<lambda>(rc, old_action). rc < 0) (unix_error ''Signal error'') (\<lambda>(rc, old_action). sa_handler old_action)
       (sigaction signum \<lparr>sa_handler = handler, sa_mask = [], sa_flags = 0x10000000\<rparr> s)"

definition Sigprocmask :: "(int \<Rightarrow> 'a \<Rightarrow> 'b \<Rightarrow> ('k, int) sys) \<Rightarrow> int \<Rightarrow> 'a \<Rightarrow> 'b \<Rightarrow> 'k \<Rightarrow> unit answer \<times> 'k" where
  "Sigprocmask sigprocmask how sigs oldset s =
     checked (\<lambda>rc. rc < 0) (unix_error ''Sigprocmask error'') (\<lambda>_. ()) (sigprocmask how sigs oldset s)"

definition Sigemptyset :: "('a \<Rightarrow> ('k, int) sys) \<Rightarrow> 'a \<Rightarrow> 'k \<Rightarrow> unit answer \<times> 'k" where
  "Sigemptyset sigemptyset sigs s =
     checked (\<lambda>rc. rc < 0) (unix_error ''Sigemptyset error'') (\<lambda>_. ()) (sigemptyset sigs s)"

definition Sigfillset :: "('a \<Rightarrow> ('k, int) sys) \<Rightarrow> 'a \<Rightarrow> 'k \<Rightarrow> unit answer \<times> 'k" where
  "Sigfillset sigfillset sigs s =
     checked (\<lambda>rc. rc < 0) (unix_error ''Sigfillset error'') (\<lambda>_. ()) (sigfillset sigs s)"

definition Sigaddset :: "('a \<Rightarrow> int \<Rightarrow> ('k, int) sys) \<Rightarrow> 'a \<Rightarrow> int \<Rightarrow> 'k \<Rightarrow> unit answer \<times> 'k" where
  "Sigaddset sigaddset sigs signum s =
     checked (\<lambda>rc. rc < 0) (unix_error ''Sigaddset error'') (\<lambda>_. ()) (sigaddset sigs signum s)"

definition Sigdelset :: "('a \<Rightarrow> int \<Rightarrow> ('k, int) sys) \<Rightarrow> 'a \<Rightarrow> int \<Rightarrow> 'k \<Rightarrow> unit answer \<times> 'k" where
  "Sigdelset sigdelset sigs signum s =
     checked (\<lambda>rc. rc < 0) (unix_error ''Sigdelset error'') (\<lambda>_. ()) (sigdelset sigs signum s)"

definition Sigismember :: "('a \<Rightarrow> int \<Rightarrow> ('k, int) sys) \<Rightarrow> 'a \<Rightarrow> int \<Rightarrow> 'k \<Rightarrow> int answer \<times> 'k" where
  "Sigismember sigismember sigs signum s =
     checked (\<lambda>rc. rc < 0) (unix_error ''Sigismember error'') (\<lambda>rc. rc) (sigismember sigs signum s)"

section \<open>Files\<close>

definition Open :: "('a \<Rightarrow> int \<Rightarrow> int \<Rightarrow> ('k, int) sys) \<Rightarrow> 'a \<Rightarrow> int \<Rightarrow> int \<Rightarrow> 'k \<Rightarrow> int answer \<times> 'k" where
  "Open open pathname flags mode s =
     checked (\<lambda>rc. rc < 0) (unix_error ''Open error'') (\<lambda>rc. rc) (open pathname flags mode s)"

text \<open>A read gives its result and the bytes it has stored in the buffer.\<close>

definition Read :: "(int \<Rightarrow> nat \<Rightarrow> ('k, int \<times> u8 list) sys) \<Rightarrow> int \<Rightarrow> nat \<Rightarrow> 'k \<Rightarrow> (int \<times> u8 list) answer \<times> 'k" where
  "Read read fd count s =
     checked (\<lambda>(rc, bs). rc < 0) (unix_error ''Read error'') (\<lambda>r. r) (read fd count s)"

definition Write :: "(int \<Rightarrow> u8 list \<Rightarrow> nat \<Rightarrow> ('k, int) sys) \<Rightarrow> int \<Rightarrow> u8 list \<Rightarrow> nat \<Rightarrow> 'k \<Rightarrow> int answer \<times> 'k" where
  "Write write fd buf count s =
     checked (\<lambda>rc. rc < 0) (unix_error ''Write error'') (\<lambda>rc. rc) (write fd buf count s)"

definition Lseek :: "(int \<Rightarrow> int \<Rightarrow> int \<Rightarrow> ('k, int) sys) \<Rightarrow> int \<Rightarrow> int \<Rightarrow> int \<Rightarrow> 'k \<Rightarrow> int answer \<times> 'k" where
  "Lseek lseek fildes offset whence s =
     checked (\<lambda>rc. rc < 0) (unix_error ''Lseek error'') (\<lambda>rc. rc) (lseek fildes offset whence s)"

definition Close :: "(int \<Rightarrow> ('k, int) sys) \<Rightarrow> int \<Rightarrow> 'k \<Rightarrow> unit answer \<times> 'k" where
  "Close close fd s = checked (\<lambda>rc. rc < 0) (unix_error ''Close error'') (\<lambda>_. ()) (close fd s)"

definition Select :: "(int \<Rightarrow> 'a \<Rightarrow> 'b \<Rightarrow> 'c \<Rightarrow> 'd \<Rightarrow> ('k, int) sys) \<Rightarrow> int \<Rightarrow> 'a \<Rightarrow> 'b \<Rightarrow> 'c \<Rightarrow> 'd \<Rightarrow> 'k \<Rightarrow> int answer \<times> 'k" where
  "Select select n readfds writefds exceptfds timeout s =
     checked (\<lambda>rc. rc < 0) (unix_error ''Select error'') (\<lambda>rc. rc) (select n readfds writefds exceptfds timeout s)"

definition Dup2 :: "(int \<Rightarrow> int \<Rightarrow> ('k, int) sys) \<Rightarrow> int \<Rightarrow> int \<Rightarrow> 'k \<Rightarrow> int answer \<times> 'k" where
  "Dup2 dup2 fd1 fd2 s =
     checked (\<lambda>rc. rc < 0) (unix_error ''Dup2 error'') (\<lambda>rc. rc) (dup2 fd1 fd2 s)"

definition Stat :: "('a \<Rightarrow> 'b \<Rightarrow> ('k, int) sys) \<Rightarrow> 'a \<Rightarrow> 'b \<Rightarrow> 'k \<Rightarrow> unit answer \<times> 'k" where
  "Stat stat filename buf s =
     checked (\<lambda>rc. rc < 0) (unix_error ''Stat error'') (\<lambda>_. ()) (stat filename buf s)"

definition Fstat :: "(int \<Rightarrow> 'b \<Rightarrow> ('k, int) sys) \<Rightarrow> int \<Rightarrow> 'b \<Rightarrow> 'k \<Rightarrow> unit answer \<times> 'k" where
  "Fstat fstat fd buf s =
     checked (\<lambda>rc. rc < 0) (unix_error ''Fstat error'') (\<lambda>_. ()) (fstat fd buf s)"

section \<open>Memory\<close>

definition Mmap :: "('a \<Rightarrow> nat \<Rightarrow> int \<Rightarrow> int \<Rightarrow> int \<Rightarrow> int \<Rightarrow> ('k, 'p option) sys) \<Rightarrow> 'a \<Rightarrow> nat \<Rightarrow> int \<Rightarrow> int \<Rightarrow> int \<Rightarrow> int \<Rightarrow> 'k \<Rightarrow> 'p answer \<times> 'k" where
  "Mmap mmap addr len prot flags fd offset s =
     checked (\<lambda>p. p = None) (unix_error ''mmap error'') the (mmap addr len prot flags fd offset s)"

definition Munmap :: "('a \<Rightarrow> nat \<Rightarrow> ('k, int) sys) \<Rightarrow> 'a \<Rightarrow> nat \<Rightarrow> 'k \<Rightarrow> unit answer \<times> 'k" where
  "Munmap munmap start len s =
     checked (\<lambda>rc. rc < 0) (unix_error ''munmap error'') (\<lambda>_. ()) (munmap start len s)"

definition Malloc :: "(nat \<Rightarrow> ('k, 'p option) sys) \<Rightarrow> nat \<Rightarrow> 'k \<Rightarrow> 'p answer \<times> 'k" where
  "Malloc malloc sz s = checked (\<lambda>p. p = None) (unix_error ''Malloc error'') the (malloc sz s)"

definition Realloc :: "('a \<Rightarrow> nat \<Rightarrow> ('k, 'p option) sys) \<Rightarrow> 'a \<Rightarrow> nat \<Rightarrow> 'k \<Rightarrow> 'p answer \<times> 'k" where
  "Realloc realloc ptr sz s =
     checked (\<lambda>p. p = None) (unix_error ''Realloc error'') the (realloc ptr sz s)"

definition Calloc :: "(nat \<Rightarrow> nat \<Rightarrow> ('k, 'p option) sys) \<Rightarrow> nat \<Rightarrow> nat \<Rightarrow> 'k \<Rightarrow> 'p answer \<times> 'k" where
  "Calloc calloc nmemb sz s =
     checked (\<lambda>p. p = None) (unix_error ''Calloc error'') the (calloc nmemb sz s)"

definition Free :: "('a \<Rightarrow> ('k, unit) sys) \<Rightarrow> 'a \<Rightarrow> 'k \<Rightarrow> unit answer \<times> 'k" where
  "Free free ptr s = passed (free ptr s)"

section \<open>Streams\<close>

text \<open>The error indicator of a stream is read after the call.\<close>

definition Fclose :: "('f \<Rightarrow> ('k, int) sys) \<Rightarrow> 'f \<Rightarrow> 'k \<Rightarrow> unit answer \<times> 'k" where
  "Fclose fclose fp s = checked (\<lambda>rc. rc \<noteq> 0) (unix_error ''Fclose error'') (\<lambda>_. ()) (fclose fp s)"

definition Fdopen :: "(int \<Rightarrow> 'a \<Rightarrow> ('k, 'p option) sys) \<Rightarrow> int \<Rightarrow> 'a \<Rightarrow> 'k \<Rightarrow> 'p answer \<times> 'k" where
  "Fdopen fdopen fd type s = checked (\<lambda>fp. fp = None) (unix_error ''Fdopen error'') the (fdopen fd type s)"

definition Fgets :: "('a \<Rightarrow> int \<Rightarrow> 'f \<Rightarrow> ('k, 'p option) sys) \<Rightarrow> ('f \<Rightarrow> 'k \<Rightarrow> bool) \<Rightarrow> 'a \<Rightarrow> int \<Rightarrow> 'f \<Rightarrow> 'k
    \<Rightarrow> 'p option answer \<times> 'k" where
  "Fgets fgets ferror ptr n stream s = (case fgets ptr n stream s of (rptr, s) \<Rightarrow>
     (if rptr = None \<and> ferror stream s then app_error ''Fgets error'' else Answer rptr, s))"

definition Fopen :: "('a \<Rightarrow> 'b \<Rightarrow> ('k, 'p option) sys) \<Rightarrow> 'a \<Rightarrow> 'b \<Rightarrow> 'k \<Rightarrow> 'p answer \<times> 'k" where
  "Fopen fopen filename mode s = checked (\<lambda>fp. fp = None) (unix_error ''Fopen error'') the (fopen filename mode s)"

definition Fputs :: "('a \<Rightarrow> 'f \<Rightarrow> ('k, int) sys) \<Rightarrow> 'a \<Rightarrow> 'f \<Rightarrow> 'k \<Rightarrow> unit answer \<times> 'k" where
  "Fputs fputs ptr stream s = checked (\<lambda>rc. rc = -1) (unix_error ''Fputs error'') (\<lambda>_. ()) (fputs ptr stream s)"

definition Fread :: "('a \<Rightarrow> nat \<Rightarrow> nat \<Rightarrow> 'f \<Rightarrow> ('k, nat) sys) \<Rightarrow> ('f \<Rightarrow> 'k \<Rightarrow> bool) \<Rightarrow> 'a \<Rightarrow> nat \<Rightarrow> nat \<Rightarrow> 'f \<Rightarrow> 'k
    \<Rightarrow> nat answer \<times> 'k" where
  "Fread fread ferror ptr sz nmemb stream s = (case fread ptr sz nmemb stream s of (n, s) \<Rightarrow>
     (if n < nmemb \<and> ferror stream s then unix_error ''Fread error'' else Answer n, s))"

definition Fwrite :: "('a \<Rightarrow> nat \<Rightarrow> nat \<Rightarrow> 'f \<Rightarrow> ('k, nat) sys) \<Rightarrow> 'a \<Rightarrow> nat \<Rightarrow> nat \<Rightarrow> 'f \<Rightarrow> 'k \<Rightarrow> unit answer \<times> 'k" where
  "Fwrite fwrite ptr sz nmemb stream s =
     checked (\<lambda>n. n < nmemb) (unix_error ''Fwrite error'') (\<lambda>_. ()) (fwrite ptr sz nmemb stream s)"

section \<open>Sockets\<close>

definition Socket :: "(int \<Rightarrow> int \<Rightarrow> int \<Rightarrow> ('k, int) sys) \<Rightarrow> int \<Rightarrow> int \<Rightarrow> int \<Rightarrow> 'k \<Rightarrow> int answer \<times> 'k" where
  "Socket socket domain type protocol s =
     checked (\<lambda>rc. rc < 0) (unix_error ''Socket error'') (\<lambda>rc. rc) (socket domain type protocol s)"

definition Setsockopt :: "(int \<Rightarrow> int \<Rightarrow> int \<Rightarrow> 'a \<Rightarrow> int \<Rightarrow> ('k, int) sys) \<Rightarrow> int \<Rightarrow> int \<Rightarrow> int \<Rightarrow> 'a \<Rightarrow> int \<Rightarrow> 'k \<Rightarrow> unit answer \<times> 'k" where
  "Setsockopt setsockopt fd level optname optval optlen s =
     checked (\<lambda>rc. rc < 0) (unix_error ''Setsockopt error'') (\<lambda>_. ()) (setsockopt fd level optname optval optlen s)"

definition Bind :: "(int \<Rightarrow> 'a \<Rightarrow> int \<Rightarrow> ('k, int) sys) \<Rightarrow> int \<Rightarrow> 'a \<Rightarrow> int \<Rightarrow> 'k \<Rightarrow> unit answer \<times> 'k" where
  "Bind sys_bind sockfd my_addr addrlen s =
     checked (\<lambda>rc. rc < 0) (unix_error ''Bind error'') (\<lambda>_. ()) (sys_bind sockfd my_addr addrlen s)"

definition Listen :: "(int \<Rightarrow> int \<Rightarrow> ('k, int) sys) \<Rightarrow> int \<Rightarrow> int \<Rightarrow> 'k \<Rightarrow> unit answer \<times> 'k" where
  "Listen listen fd backlog s =
     checked (\<lambda>rc. rc < 0) (unix_error ''Listen error'') (\<lambda>_. ()) (listen fd backlog s)"

definition Accept :: "(int \<Rightarrow> 'a \<Rightarrow> 'b \<Rightarrow> ('k, int) sys) \<Rightarrow> int \<Rightarrow> 'a \<Rightarrow> 'b \<Rightarrow> 'k \<Rightarrow> int answer \<times> 'k" where
  "Accept accept fd addr addrlen s =
     checked (\<lambda>rc. rc < 0) (unix_error ''Accept error'') (\<lambda>rc. rc) (accept fd addr addrlen s)"

definition Connect :: "(int \<Rightarrow> 'a \<Rightarrow> int \<Rightarrow> ('k, int) sys) \<Rightarrow> int \<Rightarrow> 'a \<Rightarrow> int \<Rightarrow> 'k \<Rightarrow> unit answer \<times> 'k" where
  "Connect connect sockfd serv_addr addrlen s =
     checked (\<lambda>rc. rc < 0) (unix_error ''Connect error'') (\<lambda>_. ()) (connect sockfd serv_addr addrlen s)"

definition Gethostbyname :: "('a \<Rightarrow> ('k, 'p option) sys) \<Rightarrow> 'a \<Rightarrow> 'k \<Rightarrow> 'p answer \<times> 'k" where
  "Gethostbyname gethostbyname name s =
     checked (\<lambda>p. p = None) (dns_error ''Gethostbyname error'') the (gethostbyname name s)"

definition Gethostbyaddr :: "('a \<Rightarrow> int \<Rightarrow> int \<Rightarrow> ('k, 'p option) sys) \<Rightarrow> 'a \<Rightarrow> int \<Rightarrow> int \<Rightarrow> 'k \<Rightarrow> 'p answer \<times> 'k" where
  "Gethostbyaddr gethostbyaddr addr len type s =
     checked (\<lambda>p. p = None) (dns_error ''Gethostbyaddr error'') the (gethostbyaddr addr len type s)"

section \<open>Threads and semaphores\<close>

definition Pthread_create :: "('a \<Rightarrow> 'b \<Rightarrow> 'c \<Rightarrow> 'd \<Rightarrow> ('k, int) sys) \<Rightarrow> 'a \<Rightarrow> 'b \<Rightarrow> 'c \<Rightarrow> 'd \<Rightarrow> 'k \<Rightarrow> unit answer \<times> 'k" where
  "Pthread_create pthread_create tidp attrp routine argp s =
     checked (\<lambda>rc. rc \<noteq> 0) (posix_error ''Pthread_create error'') (\<lambda>_. ()) (pthread_create tidp attrp routine argp s)"

definition Pthread_cancel :: "('a \<Rightarrow> ('k, int) sys) \<Rightarrow> 'a \<Rightarrow> 'k \<Rightarrow> unit answer \<times> 'k" where
  "Pthread_cancel pthread_cancel tid s =
     checked (\<lambda>rc. rc \<noteq> 0) (posix_error ''Pthread_cancel error'') (\<lambda>_. ()) (pthread_cancel tid s)"

definition Pthread_join :: "('a \<Rightarrow> 'b \<Rightarrow> ('k, int) sys) \<Rightarrow> 'a \<Rightarrow> 'b \<Rightarrow> 'k \<Rightarrow> unit answer \<times> 'k" where
  "Pthread_join pthread_join tid thread_return s =
     checked (\<lambda>rc. rc \<noteq> 0) (posix_error ''Pthread_join error'') (\<lambda>_. ()) (pthread_join tid thread_return s)"

definition Pthread_detach :: "('a \<Rightarrow> ('k, int) sys) \<Rightarrow> 'a \<Rightarrow> 'k \<Rightarrow> unit answer \<times> 'k" where
  "Pthread_detach pthread_detach tid s =
     checked (\<lambda>rc. rc \<noteq> 0) (posix_error ''Pthread_detach error'') (\<lambda>_. ()) (pthread_detach tid s)"

definition Pthread_self :: "(('k, 'p) sys) \<Rightarrow> 'k \<Rightarrow> 'p answer \<times> 'k" where
  "Pthread_self pthread_self s = passed (pthread_self s)"

definition Pthread_once :: "('a \<Rightarrow> 'b \<Rightarrow> ('k, int) sys) \<Rightarrow> 'a \<Rightarrow> 'b \<Rightarrow> 'k \<Rightarrow> unit answer \<times> 'k" where
  "Pthread_once pthread_once once_control init_function s = dropped (pthread_once once_control init_function s)"

definition Sem_init :: "('a \<Rightarrow> int \<Rightarrow> u32 \<Rightarrow> ('k, int) sys) \<Rightarrow> 'a \<Rightarrow> int \<Rightarrow> u32 \<Rightarrow> 'k \<Rightarrow> unit answer \<times> 'k" where
  "Sem_init sem_init sem pshared value s =
     checked (\<lambda>rc. rc < 0) (unix_error ''Sem_init error'') (\<lambda>_. ()) (sem_init sem pshared value s)"

definition P_sem :: "('a \<Rightarrow> ('k, int) sys) \<Rightarrow> 'a \<Rightarrow> 'k \<Rightarrow> unit answer \<times> 'k" where
  "P_sem sem_wait sem s =
     checked (\<lambda>rc. rc < 0) (unix_error ''P error'') (\<lambda>_. ()) (sem_wait sem s)"

definition V_sem :: "('a \<Rightarrow> ('k, int) sys) \<Rightarrow> 'a \<Rightarrow> 'k \<Rightarrow> unit answer \<times> 'k" where
  "V_sem sem_post sem s =
     checked (\<lambda>rc. rc < 0) (unix_error ''V error'') (\<lambda>_. ()) (sem_post sem s)"

end
