(* ===== verification/Connections.thy ===== *)
theory Connections
  imports Csapp SendIrq Gdb
begin

text \<open>
  The connections: \<open>create_server\<close> and the thread \<open>irq_listener\<close> of \<open>arm_simulator.c\<close>, the whole of
  \<open>send_irq.c\<close>, and the helpers \<open>open_clientfd\<close> and \<open>open_listenfd\<close> of \<open>csapp.c\<close>, over the wrappers
  of \<open>Csapp\<close>.

  The operating system is a parameter: a function from a call and a state to the result of the call, the
  bytes it stores (what is read, the address of a host, the port of a socket) and the next state.
  A negative result is a failure; for the address of a host it stands for the null pointer.
\<close>

section \<open>System calls\<close>

text \<open>An address as it is in the memory of the process: the port and the host are bytes.\<close>

record sockaddr =
  sin_family :: int
  sin_port :: "u8 list"
  sin_addr :: "u8 list"

datatype call = Sys_socket int int int | Sys_setsockopt int int int int | Sys_bind int sockaddr
  | Sys_getsockname int | Sys_listen int int | Sys_accept int | Sys_connect int sockaddr
  | Sys_gethostbyname "u8 list" | Sys_read int nat | Sys_write int "u8 list" | Sys_shutdown int int | Sys_close int

type_synonym 'k os = "call \<Rightarrow> 'k \<Rightarrow> (int \<times> u8 list) \<times> 'k"

definition rc_of :: "'k os \<Rightarrow> call \<Rightarrow> ('k, int) sys" where
  "rc_of os c s = (case os c s of ((rc, bytes), s) \<Rightarrow> (rc, s))"

definition gethostbyname :: "'k os \<Rightarrow> u8 list \<Rightarrow> ('k, u8 list option) sys" where
  "gethostbyname os name s = (case os (Sys_gethostbyname name) s of ((rc, address), s) \<Rightarrow>
     (if rc < 0 then None else Some address, s))"

text \<open>What follows a wrapper, unless the wrapper has ended the process.\<close>

definition and_then :: "('k \<Rightarrow> 'a answer \<times> 'k) \<Rightarrow> ('a \<Rightarrow> 'k \<Rightarrow> 'b answer \<times> 'k) \<Rightarrow> 'k \<Rightarrow> 'b answer \<times> 'k" where
  "and_then wrapper rest s = (case wrapper s of
     (Answer a, s) \<Rightarrow> rest a s
   | (Process_ends code msg, s) \<Rightarrow> (Process_ends code msg, s))"

section \<open>Addresses\<close>

text \<open>The conversion to the order of the network, which is also the inverse.\<close>

definition htons :: "host \<Rightarrow> u16 \<Rightarrow> u16" where
  "htons h v = (if is_big_endian h then v else push_bit 8 v OR drop_bit 8 v)"

definition half_of_bytes :: "bool \<Rightarrow> u8 list \<Rightarrow> u16" where
  "half_of_bytes be bs = (case if be then bs else rev bs of [x, y] \<Rightarrow> push_bit 8 (ucast x) OR ucast y | _ \<Rightarrow> 0)"

definition internet_address :: "host \<Rightarrow> u16 \<Rightarrow> u8 list \<Rightarrow> sockaddr" where
  "internet_address h port address = \<lparr>sin_family = 2, sin_port = half_bytes (is_big_endian h) (htons h port),
     sin_addr = address @ drop (length address) [0, 0, 0, 0]\<rparr>"

section \<open>The sides of a connection\<close>

record server_data =
  server_socket :: int
  server_port :: u16

text \<open>The result of \<open>getsockname\<close> is not tested: when it fails the address is the one that was asked for.\<close>

definition create_server :: "'k os \<Rightarrow> host \<Rightarrow> u16 \<Rightarrow> 'k \<Rightarrow> server_data answer \<times> 'k" where
  "create_server os h port =
     and_then (Socket (\<lambda>d t p. rc_of os (Sys_socket d t p)) 2 1 0) (\<lambda>sock.
     and_then (Setsockopt (\<lambda>fd level name val len. rc_of os (Sys_setsockopt fd level name val)) sock 1 2 1 4) (\<lambda>_.
     let addr = internet_address h port [0, 0, 0, 0] in
     and_then (Bind (\<lambda>fd addr len. rc_of os (Sys_bind fd addr)) sock addr 16) (\<lambda>_ s.
     case os (Sys_getsockname sock) s of ((rc, bytes), s) \<Rightarrow>
     and_then (Listen (\<lambda>fd n. rc_of os (Sys_listen fd n)) sock 1) (\<lambda>_ s.
       (Answer \<lparr>server_socket = sock,
          server_port = htons h (half_of_bytes (is_big_endian h) (if rc < 0 then sin_port addr else bytes))\<rparr>, s)) s)))"

text \<open>The connections of \<open>csapp.c\<close>: the results -1 and -2 are those of the code.\<close>

definition open_clientfd :: "'k os \<Rightarrow> host \<Rightarrow> u8 list \<Rightarrow> int \<Rightarrow> ('k, int) sys" where
  "open_clientfd os h hostname port s = (case rc_of os (Sys_socket 2 1 0) s of (clientfd, s) \<Rightarrow>
     if clientfd < 0 then (-1, s)
     else case gethostbyname os hostname s of (None, s) \<Rightarrow> (-2, s)
     | (Some address, s) \<Rightarrow>
         (case rc_of os (Sys_connect clientfd (internet_address h (word_of_int port) address)) s of (rc, s) \<Rightarrow>
            if rc < 0 then (-1, s) else (clientfd, s)))"

definition open_listenfd :: "'k os \<Rightarrow> host \<Rightarrow> int \<Rightarrow> ('k, int) sys" where
  "open_listenfd os h port s = (case rc_of os (Sys_socket 2 1 0) s of (listenfd, s) \<Rightarrow>
     if listenfd < 0 then (-1, s)
     else case rc_of os (Sys_setsockopt listenfd 1 2 1) s of (rc, s) \<Rightarrow>
     if rc < 0 then (-1, s)
     else case rc_of os (Sys_bind listenfd (internet_address h (word_of_int port) [0, 0, 0, 0])) s of (rc, s) \<Rightarrow>
     if rc < 0 then (-1, s)
     else case rc_of os (Sys_listen listenfd 1024) s of (rc, s) \<Rightarrow>
     if rc < 0 then (-1, s) else (listenfd, s))"

definition Open_clientfd :: "'k os \<Rightarrow> host \<Rightarrow> u8 list \<Rightarrow> int \<Rightarrow> 'k \<Rightarrow> int answer \<times> 'k" where
  "Open_clientfd os h hostname port s = (case open_clientfd os h hostname port s of (rc, s) \<Rightarrow>
     (if rc < 0 then (if rc = -1 then unix_error ''Open_clientfd Unix error'' else dns_error ''Open_clientfd DNS error'')
      else Answer rc, s))"

definition Open_listenfd :: "'k os \<Rightarrow> host \<Rightarrow> int \<Rightarrow> 'k \<Rightarrow> int answer \<times> 'k" where
  "Open_listenfd os h port s = (case open_listenfd os h port s of (rc, s) \<Rightarrow>
     (if rc < 0 then unix_error ''Open_listenfd error'' else Answer rc, s))"

text \<open>
  The whole of \<open>send_irq.c\<close>, after the choice of the interrupt; the results of \<open>shutdown\<close> and \<open>close\<close> are not
  looked at, and \<open>Answer 0\<close> is the return of \<open>main\<close>.
\<close>

definition send_irq_to :: "'k os \<Rightarrow> host \<Rightarrow> u8 \<Rightarrow> u8 list \<Rightarrow> int \<Rightarrow> 'k \<Rightarrow> int answer \<times> 'k" where
  "send_irq_to os h irq hostname port =
     and_then (Socket (\<lambda>d t p. rc_of os (Sys_socket d t p)) 2 1 0) (\<lambda>sock.
     and_then (Setsockopt (\<lambda>fd level name val len. rc_of os (Sys_setsockopt fd level name val)) sock 1 2 1 4) (\<lambda>_.
     and_then (Gethostbyname (gethostbyname os) hostname) (\<lambda>address.
     and_then (Connect (\<lambda>fd addr len. rc_of os (Sys_connect fd addr)) sock
       (internet_address h (word_of_int port) address) 16) (\<lambda>_.
     and_then (Write (\<lambda>fd buf n. rc_of os (Sys_write fd (take n buf))) sock [irq] 1) (\<lambda>_ s.
     case os (Sys_shutdown sock 2) s of (result, s) \<Rightarrow>
     case os (Sys_close sock) s of (result, s) \<Rightarrow> (Answer 0, s))))))"

definition send_irq_main :: "'k os \<Rightarrow> host \<Rightarrow> u8 list list \<Rightarrow> 'k \<Rightarrow> (int answer \<times> 'k) option" where
  "send_irq_main os h args s = do {
     choice \<leftarrow> send_irq args;
     case choice of Exit_code code \<Rightarrow> Some (Process_ends code (if code = 1 then ''Usage'' else ''Unknown irq''), s)
     | Send irq \<Rightarrow> do {
         port \<leftarrow> atoi (args ! 1);
         Some (send_irq_to os h irq (args ! 0) port s)
       }
   }"

text \<open>
  The thread \<open>irq_listener\<close>: the loop over the bytes of a connection, with one unit of fuel per byte
  and one for its end, and the connections one after the other, as many as \<open>n\<close> says.
\<close>

fun read_irqs :: "nat \<Rightarrow> 'k os \<Rightarrow> int \<Rightarrow> arm_core \<Rightarrow> 'k \<Rightarrow> (arm_core answer \<times> 'k) option" where
  "read_irqs 0 os connection p s = None"
| "read_irqs (Suc fuel) os connection p s =
     (case Read (\<lambda>fd n. os (Sys_read fd n)) connection 1 s of
        (Process_ends code msg, s) \<Rightarrow> Some (Process_ends code msg, s)
      | (Answer (rc, bytes), s) \<Rightarrow>
          if rc > 0 then do {
            irq \<leftarrow> aget bytes 0;
            p \<leftarrow> arm_exception p irq;
            read_irqs fuel os connection p s
          }
          else Some (Answer p, s))"

fun serve_irqs :: "nat \<Rightarrow> nat \<Rightarrow> 'k os \<Rightarrow> int \<Rightarrow> arm_core \<Rightarrow> 'k \<Rightarrow> (arm_core answer \<times> 'k) option" where
  "serve_irqs 0 fuel os sock p s = Some (Answer p, s)"
| "serve_irqs (Suc n) fuel os sock p s =
     (case Accept (\<lambda>fd addr len. rc_of os (Sys_accept fd)) sock () () s of
        (Process_ends code msg, s) \<Rightarrow> Some (Process_ends code msg, s)
      | (Answer connection, s) \<Rightarrow> do {
          (answer, s) \<leftarrow> read_irqs fuel os connection p s;
          case answer of Process_ends code msg \<Rightarrow> Some (Process_ends code msg, s)
          | Answer p \<Rightarrow> (case os (Sys_shutdown connection 2) s of (result, s) \<Rightarrow> serve_irqs n fuel os sock p s)
        })"

text \<open>The whole of the two listening threads; \<open>session\<close> is the call of \<open>gdb_scanner\<close> on the connection.\<close>

definition listen_irqs :: "nat \<Rightarrow> nat \<Rightarrow> 'k os \<Rightarrow> host \<Rightarrow> u16 \<Rightarrow> arm_core \<Rightarrow> 'k \<Rightarrow> (arm_core answer \<times> 'k) option" where
  "listen_irqs n fuel os h irq_port p s = (case create_server os h irq_port s of
     (Process_ends code msg, s) \<Rightarrow> Some (Process_ends code msg, s)
   | (Answer server, s) \<Rightarrow> serve_irqs n fuel os (server_socket server) p s)"

definition listen_gdb :: "'k os \<Rightarrow> host \<Rightarrow> u16 \<Rightarrow> (int \<Rightarrow> 'k \<Rightarrow> 'a answer \<times> 'k) \<Rightarrow> 'k \<Rightarrow> 'a answer \<times> 'k" where
  "listen_gdb os h gdb_port session =
     and_then (create_server os h gdb_port) (\<lambda>server.
     and_then (Accept (\<lambda>fd addr len. rc_of os (Sys_accept fd)) (server_socket server) () ()) (\<lambda>connection.
     and_then (session connection) (\<lambda>result s.
     case os (Sys_shutdown connection 2) s of (ignored, s) \<Rightarrow>
     case os (Sys_close (server_socket server)) s of (ignored, s) \<Rightarrow> (Answer result, s))))"

end
