(* ===== verification/ConnectionProperties.thy ===== *)
theory ConnectionProperties
  imports Connections HostProperties "HOL-Library.Sublist"
begin

text \<open>
  The properties of the connections: the calls that are made, in their order, whatever the operating
  system answers, and what the thread that receives interrupts does with the bytes of a connection.
\<close>

section \<open>The calls that are made\<close>

text \<open>An operating system that keeps the list of the calls with their results.\<close>

type_synonym call_log = "(call \<times> int \<times> u8 list) list"

definition recorded :: "'k os \<Rightarrow> ('k \<times> call_log) os" where
  "recorded os c = (\<lambda>(s, log). case os c s of (r, s) \<Rightarrow> (r, s, log @ [(c, r)]))"

definition all_succeed :: "call_log \<Rightarrow> bool" where
  "all_succeed log \<longleftrightarrow> (\<forall>(c, rc, bytes) \<in> set log. 0 \<le> rc)"

text \<open>The socket is what the first call returns, and the address of a host what the system answers.\<close>

definition socket_of :: "call_log \<Rightarrow> int \<Rightarrow> bool" where
  "socket_of log fd \<longleftrightarrow> log \<noteq> [] \<and> fst (snd (hd log)) = fd"

definition address_of :: "call_log \<Rightarrow> u8 list \<Rightarrow> u8 list \<Rightarrow> bool" where
  "address_of log name address \<longleftrightarrow> (\<forall>(c, rc, bytes) \<in> set log. c = Sys_gethostbyname name \<longrightarrow> bytes = address)"

text \<open>The last call is the first one that fails.\<close>

definition last_fails :: "call_log \<Rightarrow> bool" where
  "last_fails log \<longleftrightarrow> log \<noteq> [] \<and> fst (snd (last log)) < 0 \<and> all_succeed (butlast log)"

definition network_port :: "u16 \<Rightarrow> u8 list" where
  "network_port port = [ucast (drop_bit 8 port), ucast port]"

lemma port_bytes: "half_bytes (is_big_endian h) (htons h port) = network_port port"
  by (auto simp: half_bytes_def htons_def network_port_def Let_def bit_simps intro!: bit_word_eqI
      dest: bit_imp_le_length)

lemma port_of_bytes: "htons h (half_of_bytes (is_big_endian h) (network_port port)) = port"
  by (auto simp: half_of_bytes_def htons_def network_port_def bit_simps intro!: bit_word_eqI dest: bit_imp_le_length)

lemmas call_defs = recorded_def rc_of_def gethostbyname_def and_then_def internet_address_def port_bytes

definition server_calls :: "int \<Rightarrow> u16 \<Rightarrow> call list" where
  "server_calls fd port = [Sys_socket 2 1 0, Sys_setsockopt fd 1 2 1,
     Sys_bind fd \<lparr>sin_family = 2, sin_port = network_port port, sin_addr = [0, 0, 0, 0]\<rparr>,
     Sys_getsockname fd, Sys_listen fd 1]"

definition client_calls :: "int \<Rightarrow> u8 list \<Rightarrow> u16 \<Rightarrow> u8 list \<Rightarrow> u8 \<Rightarrow> call list" where
  "client_calls fd name port address irq = [Sys_socket 2 1 0, Sys_setsockopt fd 1 2 1, Sys_gethostbyname name,
     Sys_connect fd \<lparr>sin_family = 2, sin_port = network_port port, sin_addr = address @ drop (length address) [0, 0, 0, 0]\<rparr>,
     Sys_write fd [irq], Sys_shutdown fd 2, Sys_close fd]"

lemma take_5: "take 5 (a # b # c # d # e # xs) = [a, b, c, d, e]"
  by (simp add: numeral_eq_Suc)

lemma wrapper_cases:
  "checked failed error result x = (if failed (fst x) then error else Answer (result (fst x)), snd x)"
  by (cases x) (simp add: checked_def)

text \<open>Whatever the operating system answers, the server makes its calls in the order socket, option,
  bind, name, listen, up to the first one that fails, which ends the process with the exit code 0; when
  none fails it listens, on the port that was asked for in the order of the network on a host of either byte order, and reports
  the port that the system has chosen.\<close>

lemma server_calls_in_order:
  assumes "\<And>fd s. \<exists>t. os (Sys_getsockname fd) s = ((0, network_port chosen), t)"
  shows "\<exists>fd. case create_server (recorded os) h port (s, []) of (answer, t, log) \<Rightarrow>
    prefix (map fst log) (server_calls fd port) \<and> socket_of log fd
    \<and> (case answer of Answer server \<Rightarrow> map fst log = server_calls fd port \<and> all_succeed log
           \<and> server_socket server = fd \<and> server_port server = chosen
       | Process_ends code msg \<Rightarrow> code = 0 \<and> last_fails log)"
proof -
  obtain fd b1 s1 where 1: "os (Sys_socket 2 1 0) s = ((fd, b1), s1)" by (metis prod.collapse)
  obtain r2 b2 s2 where 2: "os (Sys_setsockopt fd 1 2 1) s1 = ((r2, b2), s2)" by (metis prod.collapse)
  let ?bind = "Sys_bind fd \<lparr>sin_family = 2, sin_port = network_port port, sin_addr = [0, 0, 0, 0]\<rparr>"
  obtain r3 b3 s3 where 3: "os ?bind s2 = ((r3, b3), s3)" by (metis prod.collapse)
  obtain s4 where 4: "os (Sys_getsockname fd) s3 = ((0, network_port chosen), s4)" using assms by blast
  obtain r5 b5 s5 where 5: "os (Sys_listen fd 1) s4 = ((r5, b5), s5)" by (metis prod.collapse)
  note defs = create_server_def Socket_def Setsockopt_def Bind_def Listen_def call_defs wrapper_cases errors_def
    Let_def port_of_bytes server_calls_def last_fails_def all_succeed_def socket_of_def address_of_def
  consider "fd < 0" | "0 \<le> fd" "r2 < 0" | "0 \<le> fd" "0 \<le> r2" "r3 < 0"
    | "0 \<le> fd" "0 \<le> r2" "0 \<le> r3" "r5 < 0" | "0 \<le> fd" "0 \<le> r2" "0 \<le> r3" "0 \<le> r5"
    by linarith
  then show ?thesis
    using 1 2 3 4 5 by cases (rule exI [of _ fd], simp add: defs)+
qed

text \<open>A network inside the process: what is written is read, and the last host is this one.\<close>

definition loopback :: "u8 list os" where
  "loopback c s = (case c of
     Sys_getsockname fd \<Rightarrow> ((0, network_port 5678), s)
   | Sys_gethostbyname name \<Rightarrow> ((0, [127, 0, 0, 1]), s)
   | Sys_write fd bs \<Rightarrow> ((int (length bs), []), s @ bs)
   | Sys_read fd n \<Rightarrow> ((int (min n (length s)), take n s), drop n s)
   | _ \<Rightarrow> ((3, []), s))"

text \<open>The interrupt that the arguments ask for, or the code of the exit.\<close>

definition chosen_irq :: "u8 list list \<Rightarrow> int + u8" where
  "chosen_irq args = (if length args < 2 then Inl 1 else if length args = 2 then Inr 6
     else case map_of (map (\<lambda>(s, n). (c_bytes s, n)) irq_numbers) (args ! 2) of Some n \<Rightarrow> Inr n | None \<Rightarrow> Inl 2)"

lemma send_irq_eq:
  "send_irq args = Some (case chosen_irq args of Inl code \<Rightarrow> Exit_code code | Inr irq \<Rightarrow> Send irq)"
proof (cases "length args < 3")
  case True
  have "args = [] \<or> (\<exists>a. args = [a]) \<or> (\<exists>a b. args = [a, b])"
    using True by (cases args; cases "tl args"; cases "tl (tl args)") auto
  then show ?thesis by (auto simp: send_irq_def chosen_irq_def)
next
  case False
  then obtain host port name rest where args: "args = host # port # name # rest"
    by (cases args; cases "tl args"; cases "tl (tl args)") auto
  have "find_irq 256 1 name = Some (case map_of (map (\<lambda>(s, n). (c_bytes s, n)) irq_numbers) name of
      Some n \<Rightarrow> Send n | None \<Rightarrow> Exit_code 2)"
    using find_irq_table [of 248 name] by (simp add: numeral_eq_Suc)
  then show ?thesis by (simp add: args send_irq_def chosen_irq_def split: option.split)
qed

lemma sender_run:
  assumes "send_irq args = Some (Send irq)" "atoi (args ! 1) = Some port"
  shows "\<exists>fd address. case send_irq_main (recorded os) h args (s, []) of None \<Rightarrow> False
    | Some (answer, t, log) \<Rightarrow>
        prefix (map fst log) (client_calls fd (args ! 0) (word_of_int port) address irq)
        \<and> socket_of log fd \<and> address_of log (args ! 0) address
        \<and> (case answer of Answer code \<Rightarrow> code = 0 \<and> all_succeed (take 5 log)
               \<and> map fst log = client_calls fd (args ! 0) (word_of_int port) address irq
           | Process_ends code msg \<Rightarrow> code = 0 \<and> last_fails log)"
proof -
  let ?name = "args ! 0"
  obtain fd b1 s1 where 1: "os (Sys_socket 2 1 0) s = ((fd, b1), s1)" by (metis prod.collapse)
  obtain r2 b2 s2 where 2: "os (Sys_setsockopt fd 1 2 1) s1 = ((r2, b2), s2)" by (metis prod.collapse)
  obtain r3 address s3 where 3: "os (Sys_gethostbyname ?name) s2 = ((r3, address), s3)" by (metis prod.collapse)
  let ?connect = "Sys_connect fd \<lparr>sin_family = 2, sin_port = network_port (word_of_int port),
    sin_addr = address @ drop (length address) [0, 0, 0, 0]\<rparr>"
  obtain r4 b4 s4 where 4: "os ?connect s3 = ((r4, b4), s4)" by (metis prod.collapse)
  obtain r5 b5 s5 where 5: "os (Sys_write fd [irq]) s4 = ((r5, b5), s5)" by (metis prod.collapse)
  obtain r6 b6 s6 where 6: "os (Sys_shutdown fd 2) s5 = ((r6, b6), s6)" by (metis prod.collapse)
  obtain r7 b7 s7 where 7: "os (Sys_close fd) s6 = ((r7, b7), s7)" by (metis prod.collapse)
  note defs = send_irq_main_def send_irq_to_def Socket_def Setsockopt_def Gethostbyname_def Connect_def Write_def
    call_defs wrapper_cases errors_def Let_def client_calls_def last_fails_def all_succeed_def socket_of_def address_of_def take_5
  consider "fd < 0" | "0 \<le> fd" "r2 < 0" | "0 \<le> fd" "0 \<le> r2" "r3 < 0"
    | "0 \<le> fd" "0 \<le> r2" "0 \<le> r3" "r4 < 0" | "0 \<le> fd" "0 \<le> r2" "0 \<le> r3" "0 \<le> r4" "r5 < 0"
    | "0 \<le> fd" "0 \<le> r2" "0 \<le> r3" "0 \<le> r4" "0 \<le> r5"
    by linarith
  then show ?thesis
    using assms 1 2 3 4 5 6 7
    by cases (rule exI [of _ fd], rule exI [of _ address], simp add: defs del: drop_Cons)+
qed

text \<open>C35: Without a host and a port the sender exits with the code 1, and with a name that is none of an interrupt with
  the code 2, and makes no call.  Otherwise, for a port that is a number of the type \<open>int\<close>, it
  makes its calls in the order socket, option, host, connection, write, shutdown, close, up
  to the first tested one that fails, and writes the number of the interrupt, 6 without a name, in one byte to the address of the
  host and the port it is given, in the order of the network on a host of either byte order; then its exit code is 0,
  whether or not a call fails, so that a failure of the connection cannot be told from a success.\<close>

theorem sender_calls_in_order:
  assumes "2 \<le> length args \<Longrightarrow> atoi (args ! 1) = Some port"
  shows "case chosen_irq args of
      Inl code \<Rightarrow> code = (if length args < 2 then 1 else 2)
        \<and> (\<exists>msg. send_irq_main (recorded os) h args (s, []) = Some (Process_ends code msg, s, []))
    | Inr irq \<Rightarrow> \<exists>fd address. (case send_irq_main (recorded os) h args (s, []) of None \<Rightarrow> False
      | Some (answer, t, log) \<Rightarrow>
          prefix (map fst log) (client_calls fd (args ! 0) (word_of_int port) address irq)
          \<and> socket_of log fd \<and> address_of log (args ! 0) address
          \<and> (case answer of Answer code \<Rightarrow> code = 0 \<and> all_succeed (take 5 log)
                 \<and> map fst log = client_calls fd (args ! 0) (word_of_int port) address irq
             | Process_ends code msg \<Rightarrow> code = 0 \<and> last_fails log))"
proof (cases "chosen_irq args")
  case (Inl code)
  then have "code = (if length args < 2 then 1 else 2)"
    by (auto simp: chosen_irq_def split: if_splits option.splits)
  then show ?thesis using Inl by (simp add: send_irq_main_def send_irq_eq)
next
  case (Inr irq)
  then have "2 \<le> length args" by (auto simp: chosen_irq_def split: if_splits)
  then have "send_irq args = Some (Send irq)" "atoi (args ! 1) = Some port"
    using Inr assms by (simp_all add: send_irq_eq)
  from sender_run [OF this, of os h s] show ?thesis using Inr by simp
qed

theorem sender_calls_in_order_witness:
  "\<exists>log. send_irq_main (recorded loopback) demo_host [c_bytes ''localhost'', c_bytes ''1234'', c_bytes ''reset''] ([], [])
      = Some (Answer 0, [1], log) \<and> all_succeed (take 5 log)"
proof -
  let ?args = "[c_bytes ''localhost'', c_bytes ''1234'', c_bytes ''reset'']"
  have choice: "chosen_irq ?args = Inr 1"
    by (simp add: chosen_irq_def irq_numbers_def c_bytes_def)
  have port: "atoi (?args ! 1) = Some 1234"
    by (simp add: c_bytes_def atoi_def is_space_def scan_sign_def dec_value_def)
  have run: "\<exists>fd address. case send_irq_main (recorded loopback) demo_host ?args ([], []) of None \<Rightarrow> False
    | Some (answer, t, log) \<Rightarrow>
        prefix (map fst log) (client_calls fd (?args ! 0) (word_of_int 1234) address 1)
        \<and> socket_of log fd \<and> address_of log (?args ! 0) address
        \<and> (case answer of Answer code \<Rightarrow> code = 0 \<and> all_succeed (take 5 log)
               \<and> map fst log = client_calls fd (?args ! 0) (word_of_int 1234) address 1
           | Process_ends code msg \<Rightarrow> code = 0 \<and> last_fails log)"
    using sender_calls_in_order [of ?args 1234 loopback demo_host "[]", OF port] unfolding choice sum.case .
  have "\<exists>log. send_irq_main (recorded loopback) demo_host ?args ([], []) = Some (Answer 0, [1], log)"
    using port choice by (simp add: send_irq_main_def send_irq_eq send_irq_to_def Socket_def Setsockopt_def Gethostbyname_def
        Connect_def Write_def call_defs wrapper_cases loopback_def)
  then show ?thesis using run by auto
qed

section \<open>The thread that receives interrupts\<close>

text \<open>A connection gives its bytes one by one, and 0 at its end.\<close>

definition delivers :: "'k os \<Rightarrow> int \<Rightarrow> ('k \<Rightarrow> u8 list) \<Rightarrow> bool" where
  "delivers os connection rest \<longleftrightarrow> (\<forall>s. \<exists>t. case rest s of
     [] \<Rightarrow> os (Sys_read connection 1) s = ((0, []), t)
   | b # bs \<Rightarrow> os (Sys_read connection 1) s = ((1, [b]), t) \<and> rest t = bs)"

lemma read_irqs_result:
  assumes "delivers os connection rest"
  shows "wf_core p \<Longrightarrow> length (rest s) < fuel \<Longrightarrow> \<exists>q t. read_irqs fuel os connection p s = Some (Answer q, t)
    \<and> for_each (\<lambda>e p. arm_exception p e) (rest s) p = Some q"
proof (induction fuel arbitrary: p s)
  case 0
  then show ?case by simp
next
  case (Suc fuel)
  obtain t where t: "case rest s of [] \<Rightarrow> os (Sys_read connection 1) s = ((0, []), t)
     | b # bs \<Rightarrow> os (Sys_read connection 1) s = ((1, [b]), t) \<and> rest t = bs"
    using assms unfolding delivers_def by blast
  show ?case
  proof (cases "rest s")
    case Nil
    then show ?thesis using t by (simp add: Read_def wrapper_cases)
  next
    case (Cons b bs)
    obtain p1 where p1: "arm_exception p b = Some p1" "wf_core p1" using arm_exception_wf [OF Suc.prems(1)] by blast
    have "length (rest t) < fuel" using Cons t Suc.prems(2) by simp
    from Suc.IH [OF p1(2) this] show ?thesis using Cons t p1(1) by (simp add: Read_def wrapper_cases)
  qed
qed

lemma irq_thread_run:
  "irq_input y = irqs \<Longrightarrow> ended y = None \<Longrightarrow> main_state y = Main_waiting \<Longrightarrow>
   for_each (\<lambda>e p. arm_exception p e) irqs (arm (gdb (parser y))) = Some q \<Longrightarrow>
   \<exists>z. simulate h junk f (replicate (length irqs) Irq_thread) y = Some z \<and> arm (gdb (parser z)) = q \<and> irq_input z = []"
proof (induction irqs arbitrary: y)
  case Nil
  then show ?case by (simp add: simulate_def)
next
  case (Cons e irqs)
  obtain p where p: "arm_exception (arm (gdb (parser y))) e = Some p"
    "for_each (\<lambda>e p. arm_exception p e) irqs p = Some q"
    using Cons.prems(4) by (auto simp: Option.bind_eq_Some_conv)
  let ?y = "y\<lparr>parser := (parser y)\<lparr>gdb := (gdb (parser y))\<lparr>arm := p\<rparr>\<rparr>, irq_input := irqs\<rparr>"
  have "system_step h junk f Irq_thread y = Some ?y"
    using Cons.prems(1-3) p(1) by (simp add: system_step_def irq_listener_def)
  moreover obtain z where "simulate h junk f (replicate (length irqs) Irq_thread) ?y = Some z"
    "arm (gdb (parser z)) = q" "irq_input z = []"
    using Cons.IH [of ?y] Cons.prems(2,3) p(2) by auto
  ultimately show ?case by (simp add: simulate_def)
qed

text \<open>C34: The loop over the bytes of a connection does what the same number of steps of the interrupt
  thread do in the model of the process: each byte is an exception of the core, in their order and up to the
  end of the connection, where the loop ends.\<close>

theorem connection_refines_irq_thread:
  assumes "delivers os connection rest" "wf_core (arm (gdb (parser y)))" "irq_input y = rest s" "ended y = None"
    and "main_state y = Main_waiting" "length (rest s) < fuel"
  shows "\<exists>q t z. read_irqs fuel os connection (arm (gdb (parser y))) s = Some (Answer q, t)
    \<and> simulate h junk f (replicate (length (rest s)) Irq_thread) y = Some z
    \<and> arm (gdb (parser z)) = q \<and> irq_input z = []"
proof -
  obtain q t where q: "read_irqs fuel os connection (arm (gdb (parser y))) s = Some (Answer q, t)"
    "for_each (\<lambda>e p. arm_exception p e) (rest s) (arm (gdb (parser y))) = Some q"
    using read_irqs_result [OF assms(1,2,6)] by blast
  then show ?thesis using irq_thread_run [OF assms(3-5) q(2), of h junk f] by blast
qed

theorem connection_refines_irq_thread_witness:
  "\<exists>q t z. read_irqs 3 loopback 4 (arm (gdb (parser demo_system))) (irq_input demo_system) = Some (Answer q, t)
    \<and> simulate demo_host (\<lambda>_ _. 0) 0 (replicate (length (irq_input demo_system)) Irq_thread) demo_system = Some z
    \<and> arm (gdb (parser z)) = q"
proof -
  have "delivers loopback 4 (\<lambda>s. s)"
    unfolding delivers_def
  proof
    fix s
    show "\<exists>t. case s of [] \<Rightarrow> loopback (Sys_read 4 1) s = ((0, []), t)
       | b # bs \<Rightarrow> loopback (Sys_read 4 1) s = ((1, [b]), t) \<and> t = bs"
      by (cases s) (simp_all add: loopback_def)
  qed
  from connection_refines_irq_thread [OF this, where y = demo_system and s = "irq_input demo_system" and fuel = 3
      and h = demo_host and junk = "\<lambda>_ _. 0" and f = 0]
  show ?thesis by (auto simp: demo_system_def)
qed

text \<open>The calls that accept and that close a connection.\<close>

fun accepts :: "call \<times> int \<times> u8 list \<Rightarrow> bool" where
  "accepts (Sys_accept fd, r) = True"
| "accepts _ = False"

fun closes :: "call \<times> int \<times> u8 list \<Rightarrow> bool" where
  "closes (Sys_close fd, r) = True"
| "closes _ = False"

lemma read_irqs_calls:
  "read_irqs fuel (recorded os) connection p (s, log) = Some (a, t, log') \<Longrightarrow>
    filter accepts log' = filter accepts log \<and> filter closes log' = filter closes log"
proof (induction fuel arbitrary: p s log)
  case 0
  then show ?case by simp
next
  case (Suc fuel)
  obtain rc bytes s1 where r: "os (Sys_read connection 1) s = ((rc, bytes), s1)" by (metis prod.collapse)
  then show ?case
    using Suc by (auto simp: Read_def wrapper_cases recorded_def unix_error_def Option.bind_eq_Some_conv split: if_splits)
qed

text \<open>The thread that receives interrupts accepts one connection after the other and closes none of
  them: each one that has been served keeps its descriptor.\<close>

lemma connections_stay_open:
  assumes "serve_irqs n fuel (recorded os) sock p (s, []) = Some (Answer q, t, log)"
  shows "length (filter accepts log) = n \<and> filter closes log = []"
proof -
  have "length (filter accepts log') = length (filter accepts log) + n \<and> filter closes log' = filter closes log"
    if "serve_irqs n fuel (recorded os) sock p (s, log) = Some (Answer q, t, log')" for log log'
    using that
  proof (induction n arbitrary: p s log)
    case (Suc n)
    obtain connection bytes s1 where r: "os (Sys_accept sock) s = ((connection, bytes), s1)" by (metis prod.collapse)
    let ?log = "log @ [(Sys_accept sock, connection, bytes)]"
    have step: "serve_irqs (Suc n) fuel (recorded os) sock p (s, log) = (if connection < 0
        then Some (Process_ends 0 ''Accept error'', s1, ?log)
        else do {
          (answer, s) \<leftarrow> read_irqs fuel (recorded os) connection p (s1, ?log);
          case answer of Process_ends code msg \<Rightarrow> Some (Process_ends code msg, s)
          | Answer p \<Rightarrow> (case recorded os (Sys_shutdown connection 2) s of (result, s) \<Rightarrow>
              serve_irqs n fuel (recorded os) sock p s)
        })"
      using r by (simp add: Accept_def wrapper_cases rc_of_def recorded_def unix_error_def)
    have connection: "\<not> connection < 0" using Suc.prems unfolding step by auto
    then obtain answer u where u: "read_irqs fuel (recorded os) connection p (s1, ?log) = Some (answer, u)"
      using Suc.prems unfolding step by (auto simp: Option.bind_eq_Some_conv)
    then obtain p1 where "answer = Answer p1"
      using Suc.prems connection unfolding step by (cases answer) auto
    then obtain s2 log2 where read: "read_irqs fuel (recorded os) connection p (s1, ?log) = Some (Answer p1, s2, log2)"
      using u by (cases u) auto
    obtain r3 s3 where shut: "os (Sys_shutdown connection 2) s2 = (r3, s3)" by (cases "os (Sys_shutdown connection 2) s2")
    have "serve_irqs n fuel (recorded os) sock p1 (s3, log2 @ [(Sys_shutdown connection 2, r3)]) = Some (Answer q, t, log')"
      using Suc.prems connection read shut unfolding step by (simp add: recorded_def)
    from Suc.IH [OF this] read_irqs_calls [OF read] show ?case by simp
  qed simp
  from this [of "[]" log] assms show ?thesis by simp
qed

end
