(* ===== verification/Tests.thy ===== *)
theory Tests
  imports Registers Memory
begin

text \<open>
  \<open>memory_test.c\<close>, \<open>registers_test.c\<close> and \<open>Examples/insertion_sort.c\<close>: the two test programs, as functions of what they depend
  on: the byte order of the host, the allocations, and the indeterminate content of their variables.
  The values that the memory test writes are arguments.  A test of the memory prints its result and goes
  on, an assertion of the registers ends the program.
\<close>

section \<open>The memory\<close>

text \<open>The bytes of a variable in the memory of the host are \<open>word_bytes\<close> and \<open>half_bytes\<close>.\<close>

definition at_index :: "u8 list \<Rightarrow> int \<Rightarrow> u8 option" where
  "at_index xs j = (if j < 0 then None else aget xs (nat j))"

fun compare_loop :: "u8 list \<Rightarrow> u8 list \<Rightarrow> nat \<Rightarrow> nat \<Rightarrow> int \<Rightarrow> int \<Rightarrow> bool option" where
  "compare_loop a b 0 i j j_step = Some True"
| "compare_loop a b (Suc n) i j j_step = do {
     x \<leftarrow> aget a i;
     y \<leftarrow> at_index b j;
     if x \<noteq> y then Some False else compare_loop a b n (i + 1) (j + j_step) j_step
   }"

definition compare :: "u8 list \<Rightarrow> u8 list \<Rightarrow> nat \<Rightarrow> bool \<Rightarrow> bool option" where
  "compare a b n reverse =
     (if reverse then compare_loop a b n 0 (int n - 1) (-1) else compare_loop a b n 0 0 1)"

text \<open>A read that is refused leaves the variable of the caller as it was.\<close>

fun variable_after :: "'v access \<Rightarrow> 'v \<Rightarrow> 'v" where
  "variable_after Denied v = v"
| "variable_after (Granted w) v = w"

fun compare_sim_loop :: "u8 list \<Rightarrow> memory \<Rightarrow> nat \<Rightarrow> nat \<Rightarrow> int \<Rightarrow> int \<Rightarrow> u8 \<Rightarrow> bool option" where
  "compare_sim_loop a m 0 i j j_step v = Some True"
| "compare_sim_loop a m (Suc n) i j j_step v = do {
     access \<leftarrow> memory_read_byte m (word_of_int j);
     let v = variable_after access v;
     x \<leftarrow> aget a i;
     if x \<noteq> v then Some False else compare_sim_loop a m n (i + 1) (j + j_step) j_step v
   }"

definition compare_with_sim :: "u8 list \<Rightarrow> memory \<Rightarrow> nat \<Rightarrow> bool \<Rightarrow> u8 \<Rightarrow> bool option" where
  "compare_with_sim a m n reverse junk =
     (if reverse then compare_sim_loop a m n 0 (int n - 1) (-1) junk
      else compare_sim_loop a m n 0 0 1 junk)"

datatype memory_tests = Test_results "bool list" | Creation_error

text \<open>
  The two memories are the values of \<open>m\<close>, indexed by their byte order; the first four arguments are
  the allocations of the big and of the little endian one.
\<close>

definition write_bytes_to_both :: "u8 list \<Rightarrow> (bool \<Rightarrow> memory) \<Rightarrow> (bool \<Rightarrow> memory) option" where
  "write_bytes_to_both position = for_each (\<lambda>i m. do {
     b \<leftarrow> aget position i;
     (code, m0) \<leftarrow> memory_write_byte (m False) (word_of_nat i) b;
     (code, m1) \<leftarrow> memory_write_byte (m True) (word_of_nat i) b;
     Some (m(False := m0, True := m1))
   }) [0, 1, 2, 3]"

definition memory_test :: "bool \<Rightarrow> bool \<Rightarrow> bool \<Rightarrow> bool \<Rightarrow> host \<Rightarrow> u32 \<Rightarrow> u16 \<Rightarrow> u32 \<Rightarrow> u16 \<Rightarrow> u8
    \<Rightarrow> memory_tests option" where
  "memory_test big_struct big_data little_struct little_data h word_value half_value word_read half_read junk = do {
     big \<leftarrow> memory_create big_struct big_data 4 True;
     little \<leftarrow> memory_create little_struct little_data 4 False;
     case (big, little) of
       (Some big, Some little) \<Rightarrow> do {
         let m = (\<lambda>be. if be then big else little);
         let me = is_big_endian h;
         m \<leftarrow> write_bytes_to_both (word_bytes me word_value) m;
         w \<leftarrow> memory_read_word (m me) 0;
         let word_read = variable_after w word_read;
         t1 \<leftarrow> compare (word_bytes me word_value) (word_bytes me word_read) 4 False;
         w \<leftarrow> memory_read_half (m me) 0;
         let half_read = variable_after w half_read;
         t2 \<leftarrow> compare (word_bytes me word_value) (half_bytes me half_read) 2 False;
         w \<leftarrow> memory_read_word (m (\<not> me)) 0;
         let word_read = variable_after w word_read;
         t3 \<leftarrow> compare (word_bytes me word_value) (word_bytes me word_read) 4 True;
         w \<leftarrow> memory_read_half (m (\<not> me)) 0;
         let half_read = variable_after w half_read;
         t4 \<leftarrow> compare (word_bytes me word_value) (half_bytes me half_read) 2 True;
         (code, n) \<leftarrow> memory_write_word (m me) 0 word_value;
         let m = m(me := n);
         t5 \<leftarrow> compare_with_sim (word_bytes me word_value) (m me) 4 False junk;
         (code, n) \<leftarrow> memory_write_half (m me) 0 half_value;
         let m = m(me := n);
         t6 \<leftarrow> compare_with_sim (half_bytes me half_value) (m me) 2 False junk;
         (code, n) \<leftarrow> memory_write_word (m (\<not> me)) 0 word_value;
         let m = m((\<not> me) := n);
         t7 \<leftarrow> compare_with_sim (word_bytes me word_value) (m (\<not> me)) 4 True junk;
         (code, n) \<leftarrow> memory_write_half (m (\<not> me)) 0 half_value;
         let m = m((\<not> me) := n);
         t8 \<leftarrow> compare_with_sim (half_bytes me half_value) (m (\<not> me)) 2 True junk;
         Some (Test_results [t1, t2, t3, t4, t5, t6, t7, t8])
       }
     | _ \<Rightarrow> Some Creation_error
   }"

section \<open>The registers\<close>

datatype registers_tests = Aborted | Printed "u32 list"

definition assert_then :: "bool \<Rightarrow> registers_tests option \<Rightarrow> registers_tests option" where
  "assert_then condition rest = (if condition then rest else Some Aborted)"

text \<open>The loop that writes the powers of two; the inner \<open>None\<close> is an assertion that fails.\<close>

fun write_powers :: "u8 list \<Rightarrow> registers \<Rightarrow> u32 \<Rightarrow> registers option option" where
  "write_powers [] r donnees = Some (Some r)"
| "write_powers (reg # regs) r donnees = do {
     r \<leftarrow> write_register r reg donnees;
     v \<leftarrow> read_register r reg;
     if v = donnees then write_powers regs r (donnees * 2) else Some None
   }"

fun read_all :: "(u8 \<Rightarrow> u32 option) \<Rightarrow> u8 list \<Rightarrow> u32 list option" where
  "read_all reader [] = Some []"
| "read_all reader (reg # regs) = do { v \<leftarrow> reader reg; vs \<leftarrow> read_all reader regs; Some (v # vs) }"

text \<open>The registers that are printed in a mode, and its SPSR.\<close>

definition print_mode :: "registers \<Rightarrow> u8 list \<Rightarrow> u32 list option" where
  "print_mode r regs = do {
     vs \<leftarrow> read_all (read_register r) regs;
     spsr \<leftarrow> read_spsr r;
     Some (vs @ [spsr])
   }"

text \<open>The values that are printed before the tests of the User mode, with the state after them.\<close>

definition print_test_registers :: "registers \<Rightarrow> (u32 list \<times> registers) option" where
  "print_test_registers r = do {
     users \<leftarrow> read_all (read_usr_register r) [0, 1, 2, 3, 4, 5, 6, 7, 8, 9, 10, 11, 12, 13, 14, 15];
     cpsr \<leftarrow> read_cpsr r;
     svc \<leftarrow> print_mode r [13, 14];
     r \<leftarrow> write_cpsr r (ucast ABT);
     abt \<leftarrow> print_mode r [13, 14];
     r \<leftarrow> write_cpsr r (ucast UND);
     und \<leftarrow> print_mode r [13, 14];
     r \<leftarrow> write_cpsr r (ucast IRQ);
     irq \<leftarrow> print_mode r [13, 14];
     r \<leftarrow> write_cpsr r (ucast FIQ);
     fiq \<leftarrow> print_mode r [8, 9, 10, 11, 12, 13, 14];
     Some (users @ [cpsr] @ svc @ abt @ und @ irq @ fiq, r)
   }"

definition registers_test :: "bool \<Rightarrow> bool \<Rightarrow> bool \<Rightarrow> bool \<Rightarrow> registers_tests option" where
  "registers_test struct_ok main_ok banked_ok psr_ok = do {
     r \<leftarrow> registers_create struct_ok main_ok banked_ok psr_ok;
     mode \<leftarrow> get_mode r;
     assert_then (mode = SYS) (do {
     privileged \<leftarrow> in_a_privileged_mode r;
     assert_then (privileged = True) (do {
     spsr \<leftarrow> current_mode_has_spsr r;
     assert_then (spsr = False) (do {
     written \<leftarrow> write_powers [0, 1, 2, 3, 4, 5, 6, 7, 8, 9, 10, 11, 12, 13, 14, 15] r 1;
     case written of None \<Rightarrow> Some Aborted | Some r \<Rightarrow> do {
     r \<leftarrow> write_cpsr r 0xFFFFFFFF;
     v \<leftarrow> read_cpsr r;
     assert_then (v = 0xF80F03DF) (do {
     r \<leftarrow> write_cpsr r (ucast FIQ);
     v \<leftarrow> read_register r 8;
     assert_then (v = 0) (do {
     r \<leftarrow> write_register r 12 1;
     r \<leftarrow> write_spsr r 0xFFFFFFFF;
     v \<leftarrow> read_spsr r;
     assert_then (v = 0xF80F03DF) (do {
     r \<leftarrow> write_cpsr r (ucast SVC);
     v \<leftarrow> read_register r 8;
     assert_then (v = 256) (do {
     v \<leftarrow> read_register r 13;
     assert_then (v = 0) (do {
     v \<leftarrow> read_spsr r;
     assert_then (v = 0) (do {
     (printed, r) \<leftarrow> print_test_registers r;
     r \<leftarrow> write_cpsr r (ucast USR);
     v \<leftarrow> read_cpsr r;
     assert_then (v = 0x10) (do {
     v \<leftarrow> read_register r 12;
     assert_then (v \<noteq> 1) (do {
     r \<leftarrow> write_cpsr r 0xFFFFFFFF;
     v \<leftarrow> read_cpsr r;
     assert_then (v = 0xF80F0210) (Some (Printed printed))
     }) }) }) }) }) }) }) }) } }) }) })
   }"

section \<open>The sample program\<close>

text \<open>
  \<open>Examples/insertion_sort.c\<close>: the \<open>while\<close> loop has one unit of fuel per turn.  Its index is never
  changed, so that it does not end.
\<close>

fun sort_while :: "nat \<Rightarrow> nat \<Rightarrow> int list \<Rightarrow> int list option" where
  "sort_while 0 j t = None"
| "sort_while (Suc fuel) j t =
     (if j > 0 then do {
        a \<leftarrow> aget t (j - 1);
        b \<leftarrow> aget t j;
        if a > b then do {
          t \<leftarrow> aset t (j - 1) b;
          t \<leftarrow> aset t j a;
          sort_while fuel j t
        }
        else sort_while fuel j t
      }
      else Some t)"

definition insertion_sort :: "nat \<Rightarrow> int list \<Rightarrow> int list option" where
  "insertion_sort fuel t = for_each (sort_while fuel) [0..<10] t"

lemma sort_while_loops: "j > 0 \<Longrightarrow> sort_while fuel j t = None"
proof (induction fuel arbitrary: t)
  case (Suc fuel)
  then have "sort_while fuel j = (\<lambda>_. None)" by auto
  with Suc.prems show ?case by (simp split: Option.bind_split)
qed simp

lemma insertion_sort_loops: "insertion_sort fuel t = None"
proof -
  have "[0..<10] = 0 # 1 # [2..<10]" by (simp add: upt_rec)
  then show ?thesis by (simp add: insertion_sort_def sort_while_loops split: Option.bind_split)
qed

section \<open>The memory test on four bytes\<close>

text \<open>The accesses of the test to a memory of four bytes.\<close>


definition block :: "bool \<Rightarrow> u8 list \<Rightarrow> memory" where
  "block be bs = \<lparr>is_big_endian_type = be, mem_size = 4, mem_data = bs\<rparr>"

lemma counts: "(4::nat) = Suc (Suc (Suc (Suc 0)))" "(2::nat) = Suc (Suc 0)" "(8::nat) = Suc (Suc (Suc (Suc (Suc (Suc (Suc (Suc 0)))))))"
  by simp_all

lemma list_4: "length xs = 4 \<Longrightarrow> \<exists>a b c d. xs = [a, b, c, d]"
  by (auto simp: length_Suc_conv numeral_eq_Suc)

lemma list_2: "length xs = 2 \<Longrightarrow> \<exists>a b. xs = [a, b]"
  by (auto simp: length_Suc_conv numeral_eq_Suc)

lemma write_both:
  assumes "length (mem_data (m True)) = 4" "length (mem_data (m False)) = 4" "length bs = 4"
    and "mem_size (m True) = 4" "mem_size (m False) = 4"
  shows "write_bytes_to_both bs m = Some (\<lambda>i. (m i)\<lparr>mem_data := bs\<rparr>)"
proof -
  obtain a b c d where bs: "bs = [a, b, c, d]" using list_4 [OF assms(3)] by blast
  obtain x0 x1 x2 x3 where x: "mem_data (m True) = [x0, x1, x2, x3]" using list_4 [OF assms(1)] by blast
  obtain y0 y1 y2 y3 where y: "mem_data (m False) = [y0, y1, y2, y3]" using list_4 [OF assms(2)] by blast
  show ?thesis
    using assms x y by (simp add: write_bytes_to_both_def memory_write_byte_def store_byte_def bs fun_eq_iff all_bool_eq)
qed

lemma block_access:
  assumes "length bs = 4"
  shows "memory_read_word (block be bs) 0 = Some (Granted (word_at (block be bs) 0))"
    "memory_read_half (block be bs) 0 = Some (Granted (half_at (block be bs) 0))"
    "memory_write_word (block be bs) 0 v = Some (0, block be (word_bytes be v))"
    "memory_write_half (block be bs) 0 w = Some (0, block be (half_bytes be w @ drop 2 bs))"
  using assms
  by (simp_all add: memory_read_word_wf memory_read_half_wf memory_write_word_wf memory_write_half_wf wf_memory_def
      block_def word_ok_def half_ok_def set_bytes_def flip: numeral_2_eq_2)

lemma bytes_of_block:
  assumes "length bs = 4"
  shows "word_bytes be (word_at (block be bs) 0) = bs" "half_bytes be (half_at (block be bs) 0) = take 2 bs"
proof -
  obtain a b c d where bs: "bs = [a, b, c, d]" using list_4 [OF assms] by blast
  have out: "\<not> bit (x :: u8) (8 + n)" "\<not> bit x (16 + n)" "\<not> bit x (24 + n)" for x n
    by (auto dest: bit_imp_le_length)
  show "word_bytes be (word_at (block be bs) 0) = bs" "half_bytes be (half_at (block be bs) 0) = take 2 bs"
    unfolding bs using out
    by (auto simp: block_def word_bytes_def half_bytes_def word_at_def half_at_def Let_def bit_simps
        intro!: bit_word_eqI)
qed

lemma bytes_reversed:
  "word_bytes (\<not> be) v = rev (word_bytes be v)" "half_bytes (\<not> be) w = rev (half_bytes be w)"
  by (simp_all add: word_bytes_def half_bytes_def Let_def)

lemma reversed_block:
  assumes "length bs = 4"
  shows "rev (word_bytes be (word_at (block (\<not> be) bs) 0)) = bs"
    "rev (half_bytes be (half_at (block (\<not> be) bs) 0)) = take 2 bs"
  using bytes_of_block [OF assms, of "\<not> be"] by (simp_all add: bytes_reversed)

lemma compare_eq:
  "length a = 4 \<Longrightarrow> length b = 4 \<Longrightarrow> compare a b 4 reverse = Some (a = (if reverse then rev b else b))"
  "length a = 4 \<Longrightarrow> length c = 2 \<Longrightarrow> compare a c 2 reverse = Some (take 2 a = (if reverse then rev c else c))"
proof -
  assume "length a = 4"
  from list_4 [OF this] obtain a0 a1 a2 a3 where a: "a = [a0, a1, a2, a3]" by blast
  show "compare a b 4 reverse = Some (a = (if reverse then rev b else b))" if "length b = 4"
  proof -
    from list_4 [OF that] obtain b0 b1 b2 b3 where b: "b = [b0, b1, b2, b3]" by blast
    show ?thesis by (auto simp: compare_def a b at_index_def counts)
  qed
  show "compare a c 2 reverse = Some (take 2 a = (if reverse then rev c else c))" if "length c = 2"
  proof -
    from list_2 [OF that] obtain c0 c1 where c: "c = [c0, c1]" by blast
    show ?thesis by (auto simp: compare_def a c at_index_def counts)
  qed
qed

lemma block_byte:
  "memory_read_byte (block be [a, b, c, d]) 0 = Some (Granted a)" "memory_read_byte (block be [a, b, c, d]) 1 = Some (Granted b)"
  "memory_read_byte (block be [a, b, c, d]) 2 = Some (Granted c)" "memory_read_byte (block be [a, b, c, d]) 3 = Some (Granted d)"
  by (simp_all add: memory_read_byte_def block_def)

lemma compare_with_sim_eq:
  assumes "length bs = 4"
  shows "length a = 4 \<Longrightarrow> compare_with_sim a (block be bs) 4 reverse junk = Some (a = (if reverse then rev bs else bs))"
    "length c = 2 \<Longrightarrow> compare_with_sim c (block be bs) 2 reverse junk
      = Some (c = (if reverse then rev (take 2 bs) else take 2 bs))"
proof -
  obtain b0 b1 b2 b3 where b: "bs = [b0, b1, b2, b3]" using list_4 [OF assms] by blast
  show "compare_with_sim a (block be bs) 4 reverse junk = Some (a = (if reverse then rev bs else bs))" if "length a = 4"
  proof -
    obtain a0 a1 a2 a3 where a: "a = [a0, a1, a2, a3]" using list_4 [OF \<open>length a = 4\<close>] by blast
    show ?thesis by (auto simp: compare_with_sim_def a b block_byte counts)
  qed
  show "compare_with_sim c (block be bs) 2 reverse junk = Some (c = (if reverse then rev (take 2 bs) else take 2 bs))"
    if "length c = 2"
  proof -
    from list_2 [OF that] obtain c0 c1 where c: "c = [c0, c1]" by blast
    show ?thesis by (auto simp: compare_with_sim_def c b block_byte counts)
  qed
qed

end
