(* ===== verification/TestsProperties.thy ===== *)
theory TestsProperties
  imports Tests
begin

text \<open>What the two test programs answer on the code as it is modelled.\<close>

text \<open>C37: On a host of either byte order, and whatever the values it writes and the content of its
  variables, every test of the memory test program succeeds when its memories are allocated: words and
  half-words agree with the bytes in the memory of the same byte order as the host, and with the
  reversed bytes in the other one.  When the block of one of them cannot be allocated the program ends with an error.\<close>

theorem memory_test_succeeds:
  "memory_test True b True l h word_value half_value word_read half_read junk
    = Some (if b \<and> l then Test_results (replicate 8 True) else Creation_error)"
proof (cases "b \<and> l")
  case True
  have create: "memory_create True True 4 be = Some (Some (block be (replicate 4 0)))" for be
    by (simp add: memory_create_def block_def)
  let ?bs = "word_bytes (is_big_endian h) word_value"
  have both: "write_bytes_to_both ?bs (\<lambda>be. if be then block True (replicate 4 0) else block False (replicate 4 0))
      = Some (\<lambda>be. block be ?bs)"
    by (subst write_both) (auto simp: block_def fun_eq_iff)
  have "replicate 8 True = [True, True, True, True, True, True, True, True]" by (simp add: counts)
  with True show ?thesis
    unfolding memory_test_def create Let_def option.case prod.case bind.bind_lunit both
    by (simp add: create both block_access bytes_of_block compare_eq compare_with_sim_eq bytes_reversed reversed_block)
next
  case False
  then show ?thesis by (auto simp: memory_test_def memory_create_def split: option.split)
qed

text \<open>The test program of the registers passes all its assertions, in its six modes, and prints the
  values that its comments announce: the powers of two, the CPSR of the supervisor mode, zeros, and the
  1 and the masked status that it has written in the fast interrupt mode.\<close>

lemma registers_test_succeeds:
  "registers_test True True True True = Some (Printed
    (map (\<lambda>i. 2 ^ i) [0..<16] @ [0x13] @ replicate 12 0 @ [0, 0, 0, 0, 1, 0, 0, 0xF80F03DF]))"
  by code_simp

end
