(* ===== verification/Lifetime.thy ===== *)
theory Lifetime
  imports Prelude
begin

text \<open>
  What the simulator allocates and frees: \<open>registers_create\<close> and \<open>registers_destroy\<close> of \<open>registers.c\<close>, \<open>memory_create\<close>
  and \<open>memory_destroy\<close> of \<open>memory.c\<close>, \<open>arm_create\<close> and \<open>arm_destroy\<close> of \<open>arm_core.c\<close>, and their order in \<open>main\<close>.  The
  content of the blocks is in the theories \<open>Registers\<close>, \<open>Memory\<close> and \<open>Core\<close>; here a block is the number that
  \<open>malloc\<close> returns, 0 for a failure, and has no size.  \<open>None\<close> is undefined behaviour: an access through the null pointer, or a
  block freed twice.  The Boolean arguments say which allocations succeed.
\<close>

section \<open>Blocks\<close>

record heap =
  live :: "nat set"
  limit :: nat

definition malloc :: "bool \<Rightarrow> heap \<Rightarrow> nat \<times> heap" where
  "malloc ok h = (if ok then (limit h, h\<lparr>live := insert (limit h) (live h), limit := limit h + 1\<rparr>) else (0, h))"

definition free :: "nat \<Rightarrow> heap \<Rightarrow> heap option" where
  "free p h = (if p = 0 then Some h else if p \<in> live h then Some (h\<lparr>live := live h - {p}\<rparr>) else None)"

definition wf_heap :: "heap \<Rightarrow> bool" where
  "wf_heap h \<longleftrightarrow> 0 < limit h \<and> (\<forall>p \<in> live h. 0 < p \<and> p < limit h)"

section \<open>Creation and destruction\<close>

record register_blocks =
  bank_block :: nat
  main_block :: nat
  banked_block :: nat
  psr_block :: nat

text \<open>After a failure the pointer to the bank is null, and the CPSR is written through it all the same.\<close>

definition create_registers :: "bool \<Rightarrow> bool \<Rightarrow> bool \<Rightarrow> bool \<Rightarrow> heap \<Rightarrow> (register_blocks \<times> heap) option" where
  "create_registers struct_ok main_ok banked_ok psr_ok h =
     (let (r, h) = malloc struct_ok h in
      if r = 0 then None
      else
        let (a, h) = malloc main_ok h; (b, h) = malloc banked_ok h; (c, h) = malloc psr_ok h in
        if a = 0 \<or> b = 0 \<or> c = 0 then do {
          h \<leftarrow> free a h; h \<leftarrow> free b h; h \<leftarrow> free c h; h \<leftarrow> free r h; None }
        else Some (\<lparr>bank_block = r, main_block = a, banked_block = b, psr_block = c\<rparr>, h))"

definition registers_destroy :: "register_blocks option \<Rightarrow> heap \<Rightarrow> heap option" where
  "registers_destroy bank h = (case bank of None \<Rightarrow> Some h
     | Some r \<Rightarrow> do {
         h \<leftarrow> free (main_block r) h;
         h \<leftarrow> free (banked_block r) h;
         h \<leftarrow> free (psr_block r) h;
         free (bank_block r) h
       })"

text \<open>
  The pointer to the data is not set when the size is 0, and is looked at through the null pointer when the
  structure is not allocated.  The result is the null pointer when the data are not.
\<close>

definition create_memory_blocks :: "bool \<Rightarrow> bool \<Rightarrow> nat \<Rightarrow> heap \<Rightarrow> ((nat \<times> nat) option \<times> heap) option" where
  "create_memory_blocks struct_ok data_ok n h =
     (let (m, h) = malloc struct_ok h in
      if m = 0 \<or> n = 0 then None
      else
        let (d, h) = malloc data_ok h in
        if d = 0 then do { h \<leftarrow> free d h; h \<leftarrow> free m h; Some (None, h) }
        else Some (Some (m, d), h))"

definition memory_destroy :: "(nat \<times> nat) option \<Rightarrow> heap \<Rightarrow> heap option" where
  "memory_destroy mem h = (case mem of None \<Rightarrow> None
     | Some (m, d) \<Rightarrow> do { h \<leftarrow> free d h; free m h })"

definition create_core_blocks :: "bool \<Rightarrow> bool \<Rightarrow> bool \<Rightarrow> bool \<Rightarrow> bool \<Rightarrow> heap
    \<Rightarrow> ((nat \<times> register_blocks) option \<times> heap) option" where
  "create_core_blocks core_ok struct_ok main_ok banked_ok psr_ok h =
     (let (p, h) = malloc core_ok h in
      if p = 0 then Some (None, h)
      else do {
        (r, h) \<leftarrow> create_registers struct_ok main_ok banked_ok psr_ok h;
        Some (Some (p, r), h)
      })"

definition arm_destroy :: "(nat \<times> register_blocks) option \<Rightarrow> heap \<Rightarrow> heap option" where
  "arm_destroy core h = (case core of None \<Rightarrow> None
     | Some (p, r) \<Rightarrow> do { h \<leftarrow> registers_destroy (Some r) h; free p h })"

text \<open>
  From the creation of the memory to the end of \<open>main\<close>, which waits for the thread of the gdb session: the session
  allocates the data of the protocol, in \<open>gdb_init_data\<close>, and nothing frees them.
\<close>

definition main_blocks :: "bool \<Rightarrow> bool \<Rightarrow> bool \<Rightarrow> bool \<Rightarrow> bool \<Rightarrow> bool \<Rightarrow> bool \<Rightarrow> bool \<Rightarrow> heap \<Rightarrow> heap option" where
  "main_blocks mem_ok data_ok core_ok struct_ok main_ok banked_ok psr_ok gdb_ok h = do {
     (mem, h) \<leftarrow> create_memory_blocks mem_ok data_ok 0x20000 h;
     (core, h) \<leftarrow> create_core_blocks core_ok struct_ok main_ok banked_ok psr_ok h;
     let (gdb, h) = malloc gdb_ok h;
     h \<leftarrow> arm_destroy core h;
     memory_destroy mem h
   }"

section \<open>Properties\<close>

lemma wf_malloc:
  assumes "wf_heap h"
  shows "wf_heap (snd (malloc ok h))" "fst (malloc ok h) \<notin> live h" "fst (malloc ok h) = 0 \<longleftrightarrow> \<not> ok"
    "live (snd (malloc ok h)) = (if ok then insert (fst (malloc ok h)) (live h) else live h)"
  using assms by (auto simp: wf_heap_def malloc_def)

text \<open>A bank that is created and destroyed leaves the heap as it was, and cannot be destroyed again.\<close>

lemma registers_lifetime:
  assumes "wf_heap h"
  shows "\<exists>r h1 h2. create_registers True True True True h = Some (r, h1) \<and> wf_heap h1
    \<and> registers_destroy (Some r) h1 = Some h2 \<and> live h2 = live h \<and> registers_destroy (Some r) h2 = None"
  using assms
  by (auto simp: create_registers_def registers_destroy_def malloc_def free_def wf_heap_def Let_def)

lemma refused_memory_leaks_nothing:
  assumes "wf_heap h" "0 < n"
  shows "\<exists>h'. create_memory_blocks True False n h = Some (None, h') \<and> live h' = live h"
  using assms by (auto simp: create_memory_blocks_def malloc_def free_def wf_heap_def Let_def)

text \<open>When every allocation succeeds \<open>main\<close> frees the core and the memory, each block once.\<close>

lemma main_blocks_allocated:
  assumes "wf_heap h"
  shows "\<exists>h'. main_blocks True True True True True True True gdb_ok h = Some h'
    \<and> live h' = (if gdb_ok then insert (limit h + 7) (live h) else live h)"
proof -
  have pos: "0 < limit h" and old: "\<And>p. p \<in> live h \<Longrightarrow> p < limit h"
    using assms by (auto simp: wf_heap_def)
  from pos show ?thesis
    by (cases gdb_ok) (auto simp: main_blocks_def create_memory_blocks_def create_core_blocks_def create_registers_def
        arm_destroy_def memory_destroy_def registers_destroy_def malloc_def free_def Let_def dest: old)
qed

text \<open>A structure that is refused is undefined behaviour before the end: \<open>arm_destroy\<close> and \<open>memory_destroy\<close> take no null pointer.\<close>

lemma main_blocks_refused:
  assumes "wf_heap h" "\<not> (mem_ok \<and> data_ok \<and> core_ok \<and> struct_ok \<and> main_ok \<and> banked_ok \<and> psr_ok)"
  shows "main_blocks mem_ok data_ok core_ok struct_ok main_ok banked_ok psr_ok gdb_ok h = None"
proof -
  have pos: "0 < limit h" using assms(1) by (simp add: wf_heap_def)
  have regs: "create_registers struct_ok main_ok banked_ok psr_ok g = None"
    if "0 < limit g" "\<not> (struct_ok \<and> main_ok \<and> banked_ok \<and> psr_ok)" for g
    using that by (auto simp: create_registers_def malloc_def Let_def)
  have core: "memory_destroy None g = None" "arm_destroy None g = None" for g
    by (simp_all add: memory_destroy_def arm_destroy_def)
  show ?thesis
  proof (cases "mem_ok \<and> data_ok \<and> core_ok")
    case True
    then show ?thesis using assms(2) pos
      by (simp add: main_blocks_def create_memory_blocks_def create_core_blocks_def malloc_def regs)
  next
    case False
    then show ?thesis using pos
      by (auto simp: main_blocks_def create_memory_blocks_def create_core_blocks_def malloc_def free_def core
          split: option.splits Option.bind_splits)
  qed
qed

end
