(* ===== verification/Spec2Isabelle.thy ===== *)
theory Spec2Isabelle
  imports CoreProperties InstructionProperties GdbProperties ScannerProperties HostProperties FlexProperties
    BufferProperties ConnectionProperties TestsProperties Lifetime
begin

text \<open>
  A verification library for Armator, a simulator of the ARMv5 instruction set that acts as a gdb
  server.  The C sources are under \<open>src/\<close>.

  \<^bold>\<open>The program.\<close>  \<open>arm_simulator.c\<close> reads its options, creates a memory (\<open>memory.c\<close>) and a core
  (\<open>arm_core.c\<close> over the register bank of \<open>registers.c\<close>) and starts two threads.  One serves gdb: the
  scanner generated from \<open>scanner.l\<close> cuts the bytes of the connection into packets, and
  \<open>gdb_protocol.c\<close> executes each packet on the core; the commands that run the program call
  \<open>arm_step\<close> of \<open>arm_instruction.c\<close>, which fetches a word, tests its condition and gives it to
  \<open>arm_data_processing.c\<close>, \<open>arm_load_store.c\<close> or \<open>arm_branch_other.c\<close>.  The other thread receives
  the numbers of interrupts, one byte each, from \<open>send_irq.c\<close>, and calls \<open>arm_exception\<close>.  A lock is
  held during a packet and during an interrupt.  Every access to the core is reported by \<open>trace.c\<close>
  when asked for; \<open>debug.c\<close> keeps the names of the files whose messages are shown, and
  \<open>csapp.c\<close> has the system call wrappers.

  \<^bold>\<open>Conventions.\<close>  A C integer is a word of its width.  A computation has an \<open>option\<close> type whose
  \<open>None\<close> is undefined behaviour of the C code (an access outside an array, a null or uninitialised
  pointer); return codes, failures, early returns and the end of the process are values.  An
  indeterminate value is an argument (\<open>junk\<close>), and so are the success of an allocation and the number of
  writes that the connection of gdb takes before one fails.  What C leaves to
  the machine, the byte order and the shifts by 32 or more, is the record \<open>host\<close>, and the theorems hold
  for every host.  The sixteen-bit, byte and word accesses exist in both byte orders of the memory.

  \<^bold>\<open>The theories,\<close> each after the file it models, with the names of its functions:

  \<^item> \<open>Prelude\<close>: C arrays, bounded loops, the interfaces \<open>cell_store\<close> (an array of cells with the laws
    of reading after writing) and \<open>step_system\<close> (a transition function with an invariant, and the
    runs it keeps it in).
  \<^item> \<open>Util\<close>, \<open>Constants\<close>: \<open>util.h\<close>, \<open>util.c\<close>, \<open>arm_constants.h\<close>, \<open>arm_constants.c\<close>.
  \<^item> \<open>Registers\<close>: \<open>registers.c\<close>.  The record \<open>registers\<close> has the three arrays of the structure;
    \<open>cell_of\<close> is the physical cell of a register number in a mode.  It interprets \<open>cell_store\<close>.
  \<^item> \<open>Memory\<close>: \<open>memory.c\<close>, with the interface \<open>access_store\<close> that the core relies on, interpreted for
    words, half-words and bytes.
  \<^item> \<open>Core\<close>: \<open>arm_core.c\<close> and \<open>arm_exception.c\<close>; the invariant \<open>wf_core\<close>; the accesses of the core
    interpret the interfaces of the register bank and of the memory again.  The lemmas in
    \<open>core_simps\<close> turn each operation on a well-formed core into a total function.
  \<^item> \<open>DataProcessing\<close>, \<open>LoadStore\<close>, \<open>Branch\<close>: the three files of instructions; \<open>Instruction\<close>:
    \<open>arm_instruction.c\<close>.  Its lemmas give the outcome of every step of a well-formed core; the three
    interpretations of \<open>step_system\<close> are for the well-formed cores, the cores in User mode, and the
    cores with a memory of a given size.
  \<^item> \<open>Gdb\<close>: \<open>gdb_protocol.c\<close>.  The record \<open>gdb_data\<close> is the structure of the server with what it has
    sent and the number of writes that still succeed; a handler returns a \<open>service\<close>, which a failed write ends, as
    \<open>Rio_writen\<close> does.  \<open>serving n\<close> is a well-formed server on a connection that takes \<open>n\<close> more writes.  The continue command has fuel, one unit per instruction;
    \<open>runs_to\<close> is the relation of the number of instructions it executes, and the theorem on
    breakpoints gives a fuel that is enough.
  \<^item> \<open>Scanner\<close>: \<open>scanner.c\<close>: the tables of the automaton, its matching loop with the last accepting
    state, the actions and the session \<open>yylex\<close>; \<open>token_spec\<close> describes the rules of \<open>scanner.l\<close>,
    and \<open>lexes\<close> the states between the tokens of a session.  The
    chain of default states has four units of fuel, which \<open>yy_transitions\<close> shows to be enough.
  \<^item> \<open>Flex\<close>: the same scanner as it reads: its buffer, the labels of \<open>yylex\<close>, the refill, the
    creation, with the system call \<open>read\<close>, the allocations and the content of new memory in the record
    \<open>platform\<close>.  \<open>FlexRefill\<close> has the invariant \<open>wf_flex\<close> and what each part does, \<open>FlexScan\<close> the
    simulation: \<open>between\<close> relates the state after a token to the input that is left.  The fuel is
    one unit per goto inside a token, and four per byte are enough.
  \<^item> \<open>Buffers\<close>: the functions of \<open>scanner.c\<close> that every generated scanner has, on a heap of blocks: the stack of
    buffers, which is an array that grows, strings as buffers, the accessors, the creation and the destruction of
    the scanner.  \<open>BufferStack\<close> relates the heap to a list and a set of buffers with \<open>represents\<close>, over the
    \<open>layout\<close> of its blocks, and has one lemma for each function.  The destruction has one unit of fuel for each slot
    up to the top and one more.
  \<^item> \<open>Trace\<close>: \<open>trace.c\<close>, \<open>trace_location.h\<close>, and \<open>arm_print_state\<close> of \<open>arm_core.c\<close>.
  \<^item> \<open>TracedCore\<close>: the accesses of \<open>arm_core.c\<close> again, with the calls of the tracer that \<open>Core\<close> leaves out;
    \<open>report_register\<close> and \<open>report_memory\<close> say what is added to the trace.
  \<^item> \<open>Debug\<close>: \<open>debug.c\<close>; \<open>holds\<close> relates the array to the sorted list of its names.
  \<^item> \<open>Rio\<close>: the robust input and output of \<open>csapp.c\<close>, over the system calls \<open>read\<close> and \<open>write\<close> as
    parameters with the laws \<open>reads_stream\<close> and \<open>writes_stream\<close>.  The interface \<open>byte_source\<close> is what
    the reading loop relies on; it is interpreted for a descriptor and for the buffer over it.  A loop
    that retries has one unit of fuel per call, and the number of bytes plus the number
    of signals, plus one, is enough.  In this theory \<open>None\<close> is the end of the fuel.
  \<^item> \<open>Csapp\<close>: the error functions and the wrappers of \<open>csapp.c\<close>, each a function of the call it
    makes; the end of the process is a value.
  \<^item> \<open>SendIrq\<close>: the choice of the interrupt in \<open>send_irq.c\<close>.  \<open>Connections\<close>: the sockets of \<open>arm_simulator.c\<close>,
    the whole of \<open>send_irq.c\<close> and the helpers of \<open>csapp.c\<close>, over an operating system that is a function
    from calls to results; the loop over the bytes of a connection has one unit of fuel per byte and one more.
  \<^item> \<open>Lifetime\<close>: the blocks that \<open>registers_create\<close>, \<open>memory_create\<close>, \<open>arm_create\<close> and their \<open>destroy\<close> functions
    allocate and free, on a set of live blocks, and that \<open>main\<close> frees each once.
  \<^item> \<open>Tests\<close>: the test programs \<open>memory_test.c\<close> and \<open>registers_test.c\<close>, and the sample \<open>insertion_sort.c\<close>.
  \<^item> \<open>Simulator\<close>: \<open>arm_simulator.c\<close>: the options, the creation, and the
    process as a transition system whose steps are those of the three threads, scheduled in any
    order; it interprets \<open>step_system\<close> with the invariant of the scanner and the server.

  \<^bold>\<open>The properties.\<close>  \<open>CoreProperties\<close>: the register bank implements the registers of the
  architecture, words written to the memory are read back, every outcome of a byte access, the
  privileges of a write of the CPSR, fetch and reset.  \<open>InstructionProperties\<close>: every outcome of a step,
  User mode is never left, the results and flags of data processing against integer arithmetic, the
  conditions, the shifter operand, loads, stores, multiple transfers and branches.  \<open>GdbProperties\<close>:
  the framing of packets, the round trip of the registers, the memory commands, and what continue does
  up to a breakpoint.  \<open>ScannerProperties\<close>: the automaton implements the rules, a session serves its
  packets one by one, noise is answered by one request for retransmission.  \<open>FlexProperties\<close>: the
  scanner with its buffer does what the scanner over the whole input does, and is undefined only where a packet is.  \<open>BufferProperties\<close>: the calls of a client
  on the stack of buffers, and what the destruction of the scanner frees.  \<open>HostProperties\<close>: where
  the process is undefined in every interleaving of its threads, interrupts other than a reset change nothing, reads and
  writes deliver the bytes whatever the system calls do, the table of debugged files is a set, the traced accesses
  of the core do what the untraced ones do.
  \<open>ConnectionProperties\<close>: the calls of the server and of the sender in their order up to the first failure, the loop
  over a connection against the interrupt thread of the process, and the connections that are never closed.
  \<open>TestsProperties\<close>: both test programs succeed on the model, on every host.

  \<^bold>\<open>Where the code differs from its intent\<close> the properties state what the code does: the bound check
  of the byte accesses (\<open>memory_byte_outcomes\<close>), the reset in User mode (\<open>reset_exception\<close>), the constant of \<open>carry_from\<close> (\<open>flags_against_integers\<close>), the step
  after a refused fetch (\<open>refused_fetch_executes\<close>), descending multiple transfers (\<open>push_pop_swaps\<close>), the rotated operand (\<open>ror_operand_is_asr\<close>), the flags
  of a subtraction onto its own operand (\<open>subs_same_register_carry\<close>), the length of the memory command (\<open>read_memory_packet\<close>), the number of the
  register command (\<open>read_register_is_decimal\<close>), the result of the line reader (\<open>read_line\<close>).

  \<^bold>\<open>Not modelled.\<close>  Coprocessor instructions have no code behind them.  Of \<open>csapp.c\<close> \<open>Pthread_exit\<close>, which does
  not return, and the texts that \<open>strerror\<close> gives.  \<open>input\<close> of \<open>scanner.c\<close>, which \<open>YY_NO_INPUT\<close> removes from the build.  The output of
  messages on \<open>stderr\<close>.  The models of the instructions use the accesses of the core without their calls of the
  tracer; \<open>TracedCore\<close> has the accesses with them.  The assembly programs
  of \<open>Examples/\<close>, and the linker scripts and build files.
\<close>

end
